(* ===== verification/Go_Float.thy ===== *)
theory Go_Float
  imports Complex_Main
begin

text \<open>
  Go's \<^verbatim>\<open>float64\<close> arithmetic. A finite float64 is a rational number; every operation of the
  source computes the exact rational result and rounds it once to 53 significant bits, to
  nearest, ties to even (IEEE 754 binary64, the rounding mode Go fixes). The exponent is not
  bounded: the values of this program (byte counts below \<open>2 ^ 63\<close>, page counts, seconds,
  token counts and their quotients) stay inside the normal range, so no operation of the model
  overflows or meets a subnormal number, and every division is guarded in the source.
  The laws the components rely on are the locale \<open>float_rounding\<close>, interpreted on
  \<open>rnd64\<close> at the end.
\<close>

section \<open>Definitions\<close>

text \<open>Rounding to an integer, ties to even.\<close>

definition round_even :: "rat \<Rightarrow> int" where
  "round_even m =
     (let f = \<lfloor>m\<rfloor>; r = m - of_int f
      in if r < 1 / 2 then f
         else if 1 / 2 < r then f + 1
         else if even f then f else f + 1)"

fun ilog2_nat :: "nat \<Rightarrow> nat" where
  "ilog2_nat n = (if n < 2 then 0 else Suc (ilog2_nat (n div 2)))"

declare ilog2_nat.simps [simp del]

text \<open>The binary exponent of a positive number: \<open>2 powi e \<le> x < 2 powi (e + 1)\<close>.\<close>

definition binade :: "rat \<Rightarrow> int" where
  "binade x =
     (if 1 \<le> x then int (ilog2_nat (nat \<lfloor>x\<rfloor>))
      else (let c = nat \<lceil>1 / x\<rceil> in if c \<le> 1 then 0 else - int (Suc (ilog2_nat (c - 1)))))"

definition ulp :: "rat \<Rightarrow> rat" where
  "ulp x = 2 powi (binade \<bar>x\<bar> - 52)"

definition rnd64 :: "rat \<Rightarrow> rat" where
  "rnd64 x = (if x = 0 then 0 else of_int (round_even (x / ulp x)) * ulp x)"

text \<open>The operations of the source: a conversion from an integer and the four operators.\<close>

definition fl :: "int \<Rightarrow> rat" where
  "fl i = rnd64 (of_int i)"

definition fadd :: "rat \<Rightarrow> rat \<Rightarrow> rat" where
  "fadd a b = rnd64 (a + b)"

definition fsub :: "rat \<Rightarrow> rat \<Rightarrow> rat" where
  "fsub a b = rnd64 (a - b)"

definition fmul :: "rat \<Rightarrow> rat \<Rightarrow> rat" where
  "fmul a b = rnd64 (a * b)"

definition fdiv :: "rat \<Rightarrow> rat \<Rightarrow> rat" where
  "fdiv a b = rnd64 (a / b)"

text \<open>
  Conversion from float64 to a 64-bit \<^verbatim>\<open>int\<close>: truncation towards zero. Go leaves the result for a
  value outside the range of the integer type to the implementation; the parameter \<open>oor\<close>
  stands for that choice.
\<close>

definition trunc_rat :: "rat \<Rightarrow> int" where
  "trunc_rat x = (if 0 \<le> x then \<lfloor>x\<rfloor> else - \<lfloor>- x\<rfloor>)"

definition f2i :: "(rat \<Rightarrow> int) \<Rightarrow> rat \<Rightarrow> int" where
  "f2i oor x = (let t = trunc_rat x in if - (2 ^ 63) \<le> t \<and> t < 2 ^ 63 then t else oor x)"

text \<open>\<^verbatim>\<open>Duration.Seconds\<close> of a difference of two readings of the monotonic clock, in nanoseconds.\<close>

definition seconds :: "int \<Rightarrow> rat" where
  "seconds d = fadd (fl (d div 10 ^ 9)) (fdiv (fl (d mod 10 ^ 9)) (10 ^ 9))"

section \<open>Integer rounding\<close>

lemma round_even_of_int [simp]: "round_even (of_int i) = i"
  by (simp add: round_even_def)

lemma round_even_bounds: "of_int (round_even m) \<le> m + 1 / 2" "m - 1 / 2 \<le> of_int (round_even m)"
proof -
  define r where "r = m - of_int \<lfloor>m\<rfloor>"
  have m: "m = of_int \<lfloor>m\<rfloor> + r" and r: "0 \<le> r" "r < 1"
    unfolding r_def by linarith+
  show "of_int (round_even m) \<le> m + 1 / 2" "m - 1 / 2 \<le> of_int (round_even m)"
    unfolding round_even_def Let_def r_def[symmetric] using m r by auto
qed

lemma round_even_mono:
  assumes "x \<le> y"
  shows "round_even x \<le> round_even y"
proof (rule ccontr)
  assume neg: "\<not> round_even x \<le> round_even y"
  have fl: "\<lfloor>x\<rfloor> \<le> \<lfloor>y\<rfloor>" using assms by (rule floor_mono)
  have le: "round_even x \<le> \<lfloor>x\<rfloor> + 1" and ge: "\<lfloor>y\<rfloor> \<le> round_even y"
    by (auto simp: round_even_def Let_def)
  from neg fl le ge have eq: "\<lfloor>x\<rfloor> = \<lfloor>y\<rfloor>" and "round_even y = \<lfloor>y\<rfloor>" and "round_even x = \<lfloor>x\<rfloor> + 1"
    by linarith+
  with assms show False
    by (auto simp: round_even_def Let_def split: if_splits)
qed

lemma round_even_ge_int: "of_int i \<le> x \<Longrightarrow> i \<le> round_even x"
  using round_even_mono [of "of_int i" x] by simp

lemma round_even_le_int: "x \<le> of_int i \<Longrightarrow> round_even x \<le> i"
  using round_even_mono [of x "of_int i"] by simp

lemma round_even_minus: "round_even (- x) = - round_even x"
proof -
  define r where "r = x - of_int \<lfloor>x\<rfloor>"
  have x: "x = of_int \<lfloor>x\<rfloor> + r" and r: "0 \<le> r" "r < 1"
    unfolding r_def by linarith+
  show ?thesis
  proof (cases "r = 0")
    case True
    then have "x = of_int \<lfloor>x\<rfloor>" using x by simp
    then show ?thesis by (metis of_int_minus round_even_of_int)
  next
    case False
    with r x have "\<lfloor>- x\<rfloor> = - \<lfloor>x\<rfloor> - 1" by linarith
    moreover have "- x - of_int (- \<lfloor>x\<rfloor> - 1) = 1 - r" using x by simp
    ultimately show ?thesis
      unfolding round_even_def Let_def r_def[symmetric] by auto
  qed
qed

section \<open>Binary exponents\<close>

lemma ilog2_nat_bounds: "0 < n \<Longrightarrow> 2 ^ ilog2_nat n \<le> n \<and> n < 2 ^ Suc (ilog2_nat n)"
proof (induction n rule: ilog2_nat.induct)
  case (1 n)
  show ?case
  proof (cases "n < 2")
    case True
    with "1.prems" show ?thesis by (simp add: ilog2_nat.simps [of n])
  next
    case False
    with "1.IH" have "2 ^ ilog2_nat (n div 2) \<le> n div 2" "n div 2 < 2 * 2 ^ ilog2_nat (n div 2)"
      by auto
    then have "2 * 2 ^ ilog2_nat (n div 2) \<le> n" "n < 2 * (2 * 2 ^ ilog2_nat (n div 2))"
      by linarith+
    with False show ?thesis by (simp add: ilog2_nat.simps [of n])
  qed
qed

lemma rat_le_pow2:
  "(2::nat) ^ k \<le> n \<Longrightarrow> (2::rat) ^ k \<le> of_nat n" "n \<le> (2::nat) ^ k \<Longrightarrow> of_nat n \<le> (2::rat) ^ k"
  using of_nat_le_iff [of "2 ^ k" n, where 'a = rat] of_nat_le_iff [of n "2 ^ k", where 'a = rat]
  by simp_all

lemma binade_bounds:
  assumes "0 < x"
  shows "2 powi binade x \<le> x" and "x < 2 powi (binade x + 1)"
proof -
  have "2 powi binade x \<le> x \<and> x < 2 powi (binade x + 1)"
  proof (cases "1 \<le> x")
    case True
    define n where "n = nat \<lfloor>x\<rfloor>"
    have n: "0 < n" "of_nat n \<le> x" "x < of_nat n + 1"
      using True by (simp_all add: n_def) linarith
    from ilog2_nat_bounds [OF n(1)] have "(2::nat) ^ ilog2_nat n \<le> n" "n + 1 \<le> 2 ^ Suc (ilog2_nat n)"
      by simp_all
    then have "2 ^ ilog2_nat n \<le> (of_nat n :: rat)" "(of_nat n :: rat) + 1 \<le> 2 ^ Suc (ilog2_nat n)"
      using rat_le_pow2(1) [of "ilog2_nat n" n] rat_le_pow2(2) [of "n + 1" "Suc (ilog2_nat n)"] by simp_all
    then have "2 ^ ilog2_nat n \<le> x" "x < 2 ^ Suc (ilog2_nat n)"
      using n(2,3) by linarith+
    then show ?thesis
      using True by (simp add: binade_def n_def [symmetric] power_int_add)
  next
    case False
    define c where "c = nat \<lceil>1 / x\<rceil>"
    have "1 < 1 / x" using False assms by simp
    then have c: "2 \<le> c" "1 / x \<le> of_nat c" "of_nat (c - 1) < 1 / x"
      by (auto simp: c_def of_nat_diff) linarith+
    define k where "k = ilog2_nat (c - 1)"
    from ilog2_nat_bounds [of "c - 1"] c(1) have "(2::nat) ^ k \<le> c - 1" "c \<le> 2 ^ Suc k"
      by (simp_all add: k_def) linarith
    then have "2 ^ k \<le> (of_nat (c - 1) :: rat)" "(of_nat c :: rat) \<le> 2 ^ Suc k"
      by (blast intro: rat_le_pow2)+
    then have lo: "2 ^ k < 1 / x" and hi: "1 / x \<le> 2 ^ Suc k"
      using c(2,3) by linarith+
    have "binade x = - int (Suc k)"
      using False c(1) by (simp add: binade_def c_def [symmetric] k_def)
    moreover have "inverse (2 ^ Suc k) \<le> x"
      using hi assms by (simp add: field_simps)
    moreover have "x < inverse (2 ^ k)"
      using lo assms by (simp add: field_simps)
    moreover have "(2::rat) powi - int (Suc k) = inverse (2 ^ Suc k)"
      by (simp only: power_int_minus power_int_of_nat)
    moreover have "(2::rat) powi (- int (Suc k) + 1) = inverse (2 ^ k)"
      using power_int_minus [of "2::rat" "int k"] by simp
    ultimately show ?thesis by simp
  qed
  then show "2 powi binade x \<le> x" and "x < 2 powi (binade x + 1)" by simp_all
qed

lemma binade_le:
  assumes "0 < x" and "x < 2 powi (e + 1)"
  shows "binade x \<le> e"
proof (rule ccontr)
  assume "\<not> binade x \<le> e"
  then have "(2::rat) powi (e + 1) \<le> 2 powi binade x" by (intro power_int_increasing) auto
  with binade_bounds [OF assms(1)] assms(2) show False by linarith
qed

lemma binade_mono:
  assumes "0 < x" and "x \<le> y"
  shows "binade x \<le> binade y"
proof -
  have "x < 2 powi (binade y + 1)"
    using binade_bounds [of y] assms by linarith
  then show ?thesis by (rule binade_le [OF assms(1)])
qed

lemma ulp_pos [simp]: "0 < ulp x"
  by (simp add: ulp_def)

lemma ulp_minus [simp]: "ulp (- x) = ulp x"
  by (simp add: ulp_def)

section \<open>Rounding\<close>

lemma rnd64_zero [simp]: "rnd64 0 = 0"
  by (simp add: rnd64_def)

lemma rnd64_minus: "rnd64 (- x) = - rnd64 x"
  by (simp add: rnd64_def round_even_minus)

lemma mantissa_bounds:
  assumes "0 < x"
  shows "2 ^ 52 \<le> x / ulp x" and "x / ulp x < 2 ^ 53"
proof -
  have u: "2 powi binade x = 2 ^ 52 * ulp x" "2 powi (binade x + 1) = 2 ^ 53 * ulp x"
    using assms by (simp_all add: ulp_def power_int_diff power_int_add)
  show "2 ^ 52 \<le> x / ulp x" and "x / ulp x < 2 ^ 53"
    using binade_bounds [OF assms] u by (simp_all add: field_simps)
qed

lemma rnd64_pos_bounds:
  assumes "0 < x"
  shows "2 powi binade x \<le> rnd64 x" and "rnd64 x \<le> 2 powi (binade x + 1)"
proof -
  have u: "2 powi binade x = 2 ^ 52 * ulp x" "2 powi (binade x + 1) = 2 ^ 53 * ulp x"
    using assms by (simp_all add: ulp_def power_int_diff power_int_add)
  have "(2::int) ^ 52 \<le> round_even (x / ulp x)"
    using mantissa_bounds [OF assms] by (intro round_even_ge_int) simp
  then have "(of_int (2 ^ 52) :: rat) \<le> of_int (round_even (x / ulp x))" by (simp only: of_int_le_iff)
  moreover have "round_even (x / ulp x) \<le> 2 ^ 53"
    using mantissa_bounds [OF assms] by (intro round_even_le_int) simp
  then have "(of_int (round_even (x / ulp x)) :: rat) \<le> of_int (2 ^ 53)" by (simp only: of_int_le_iff)
  ultimately show "2 powi binade x \<le> rnd64 x" and "rnd64 x \<le> 2 powi (binade x + 1)"
    using assms by (simp_all add: rnd64_def u mult_right_mono)
qed

lemma rnd64_pos: "0 < x \<Longrightarrow> 0 < rnd64 x"
  using rnd64_pos_bounds(1) [of x] by (meson less_le_trans zero_less_numeral zero_less_power_int)

lemma rnd64_nonneg: "0 \<le> x \<Longrightarrow> 0 \<le> rnd64 x"
  using rnd64_pos [of x] by (cases "x = 0") auto

lemma rnd64_mono_pos:
  assumes "0 < x" and "x \<le> y"
  shows "rnd64 x \<le> rnd64 y"
proof (cases "binade x = binade y")
  case True
  then have u: "ulp x = ulp y" using assms by (simp add: ulp_def)
  have "round_even (x / ulp y) \<le> round_even (y / ulp y)"
    using assms by (intro round_even_mono divide_right_mono) (auto simp: less_imp_le)
  then show ?thesis using assms u by (simp add: rnd64_def mult_right_mono less_imp_le)
next
  case False
  with binade_mono [OF assms] have "(2::rat) powi (binade x + 1) \<le> 2 powi binade y"
    by (intro power_int_increasing) auto
  with rnd64_pos_bounds(2) [OF assms(1)] rnd64_pos_bounds(1) [of y] assms show ?thesis by linarith
qed

lemma rnd64_mono:
  assumes "x \<le> y"
  shows "rnd64 x \<le> rnd64 y"
proof -
  consider "0 < x" | "x \<le> 0" "0 \<le> y" | "y < 0" by linarith
  then show ?thesis
  proof cases
    case 1
    then show ?thesis using assms by (rule rnd64_mono_pos)
  next
    case 2
    then have "rnd64 x \<le> 0" using rnd64_nonneg [of "- x"] by (simp add: rnd64_minus)
    also have "0 \<le> rnd64 y" using 2 by (simp add: rnd64_nonneg)
    finally show ?thesis .
  next
    case 3
    then show ?thesis using rnd64_mono_pos [of "- y" "- x"] assms by (simp add: rnd64_minus)
  qed
qed

text \<open>Numbers with at most 53 significant bits are not changed.\<close>

lemma rnd64_exact_pos:
  assumes "0 < m" and "m < 2 ^ 53"
  shows "rnd64 (of_int m * 2 powi e) = of_int m * 2 powi e"
proof -
  define x :: rat where "x = of_int m * 2 powi e"
  have x: "0 < x" using assms by (simp add: x_def)
  have "(of_int m :: rat) < of_int (2 ^ 53)" using assms(2) by (simp only: of_int_less_iff)
  then have "x < 2 ^ 53 * 2 powi e" by (simp add: x_def)
  also have "2 ^ 53 * 2 powi e = (2::rat) powi (e + 52 + 1)" by (simp add: power_int_add)
  finally have "binade x \<le> e + 52" using x by (intro binade_le)
  then obtain k where k: "e = binade x - 52 + int k"
    by (metis add_diff_eq add.commute diff_add_cancel le_diff_eq zle_iff_zadd diff_diff_eq2)
  define u where "u = ulp x"
  have "2 powi e = u * 2 ^ k"
    using x by (simp add: u_def ulp_def power_int_add k)
  then have xu: "x = of_int (m * 2 ^ k) * u" by (simp add: x_def)
  have u: "u \<noteq> 0" unfolding u_def using ulp_pos [of x] by linarith
  from xu u have "x / u = of_int (m * 2 ^ k)" by (metis nonzero_mult_div_cancel_right)
  then have "round_even (x / u) = m * 2 ^ k" by (metis round_even_of_int)
  with xu have "of_int (round_even (x / u)) * u = x" by simp
  with x have "rnd64 x = x" by (simp add: rnd64_def u_def)
  then show ?thesis by (simp only: x_def)
qed

lemma rnd64_exact:
  assumes "\<bar>m\<bar> < 2 ^ 53"
  shows "rnd64 (of_int m * 2 powi e) = of_int m * 2 powi e"
proof -
  consider "m = 0" | "0 < m" | "m < 0" by linarith
  then show ?thesis
  proof cases
    case 1
    then show ?thesis by simp
  next
    case 2
    then show ?thesis using rnd64_exact_pos [of m e] assms by simp
  next
    case 3
    then have "rnd64 (of_int (- m) * 2 powi e) = of_int (- m) * 2 powi e"
      using assms by (intro rnd64_exact_pos) simp_all
    then show ?thesis by (simp add: rnd64_minus)
  qed
qed

lemma rnd64_of_int: "\<bar>i\<bar> < 2 ^ 53 \<Longrightarrow> rnd64 (of_int i) = of_int i"
  using rnd64_exact [of i 0] by simp

text \<open>The relative error of one rounding is at most \<open>2 powi - 53\<close>.\<close>

lemma rnd64_error:
  shows "\<bar>rnd64 x - x\<bar> \<le> \<bar>x\<bar> / 2 ^ 53"
proof (cases "x = 0")
  case False
  define u where "u = ulp x"
  define q where "q = x / u"
  have u: "0 < u" by (simp add: u_def)
  have x: "x = q * u" using u by (simp add: q_def)
  have "\<bar>of_int (round_even q) - q\<bar> \<le> 1 / 2"
    using round_even_bounds [of q] by linarith
  then have "\<bar>of_int (round_even q) - q\<bar> * u \<le> 1 / 2 * u"
    using u by (intro mult_right_mono) simp_all
  moreover have "rnd64 x - x = (of_int (round_even q) - q) * u"
    using False by (subst (2) x) (simp add: rnd64_def u_def [symmetric] q_def [symmetric] left_diff_distrib)
  moreover have "1 / 2 * u \<le> \<bar>x\<bar> / 2 ^ 53"
    using mantissa_bounds(1) [of "\<bar>x\<bar>"] False u by (simp add: ulp_def u_def field_simps)
  moreover have "\<bar>(of_int (round_even q) - q) * u\<bar> = \<bar>of_int (round_even q) - q\<bar> * u"
    using u by (simp add: abs_mult)
  ultimately show ?thesis by linarith
qed simp

lemma rnd64_half_ulp: "\<bar>rnd64 x - x\<bar> \<le> ulp x / 2"
proof (cases "x = 0")
  case True
  then show ?thesis using ulp_pos [of x] by (simp add: less_imp_le)
next
  case False
  have "\<bar>of_int (round_even (x / ulp x)) - x / ulp x\<bar> \<le> 1 / 2"
    using round_even_bounds [of "x / ulp x"] by linarith
  then have "\<bar>of_int (round_even (x / ulp x)) - x / ulp x\<bar> * ulp x \<le> 1 / 2 * ulp x"
    by (rule mult_right_mono) (simp add: less_imp_le)
  moreover have "\<bar>of_int (round_even (x / ulp x)) - x / ulp x\<bar> * ulp x = \<bar>rnd64 x - x\<bar>"
    using False less_imp_neq [OF ulp_pos [of x]] abs_mult_pos [of "ulp x" "of_int (round_even (x / ulp x)) - x / ulp x"]
    by (simp add: rnd64_def left_diff_distrib less_imp_le)
  ultimately show ?thesis by simp
qed

lemma rnd64_rnd64 [simp]: "rnd64 (rnd64 x) = rnd64 x"
proof -
  have pos: "rnd64 (rnd64 x) = rnd64 x" if "0 < x" for x
  proof -
    define m where "m = round_even (x / ulp x)"
    have m: "2 ^ 52 \<le> m" "m \<le> 2 ^ 53"
      using mantissa_bounds [OF that] round_even_ge_int [of "2 ^ 52" "x / ulp x"] round_even_le_int [of "x / ulp x" "2 ^ 53"]
      by (simp_all add: m_def)
    have r: "rnd64 x = of_int m * 2 powi (binade x - 52)" using that by (simp add: rnd64_def m_def ulp_def)
    show ?thesis
    proof (cases "m = 2 ^ 53")
      case True
      have "rnd64 x = of_int 1 * 2 powi (binade x + 1)"
        by (simp add: r True power_int_diff power_int_add)
      then show ?thesis using rnd64_exact [of 1 "binade x + 1"] by simp
    next
      case False
      then show ?thesis using rnd64_exact [of m "binade x - 52"] m by (simp add: r)
    qed
  qed
  show ?thesis
    using pos [of x] pos [of "- x"] rnd64_minus [of x] rnd64_minus [of "rnd64 x"] by (cases x "0 :: rat" rule: linorder_cases) auto
qed

lemma rnd64_to_one: "1 - 1 / 2 ^ 54 \<le> x \<Longrightarrow> 1 \<le> rnd64 x"
proof -
  assume x: "1 - 1 / 2 ^ 54 \<le> x"
  have "binade (1 - 1 / 2 ^ 54) \<le> - 1" by (rule binade_le) simp_all
  moreover have "- 1 \<le> binade (1 - 1 / 2 ^ 54)"
    using binade_mono [of "1 / 2" "1 - 1 / 2 ^ 54"] by (simp add: binade_def ilog2_nat.simps)
  ultimately have "binade (1 - 1 / 2 ^ 54) = - 1" by simp
  then have u: "ulp (1 - 1 / 2 ^ 54) = 1 / 2 ^ 53" by (simp add: ulp_def power_int_minus field_simps)
  have "\<lfloor>9007199254740991 + 1 / 2 :: rat\<rfloor> = 9007199254740991" by (rule floor_unique) simp_all
  then have "round_even (9007199254740991 + 1 / 2) = 9007199254740992" by (simp add: round_even_def Let_def)
  moreover have "(1 - 1 / 2 ^ 54) / ulp (1 - 1 / 2 ^ 54) = 9007199254740991 + 1 / 2" by (simp only: u) simp
  ultimately have "rnd64 (1 - 1 / 2 ^ 54) = 1" unfolding rnd64_def by (simp only: u) simp
  with rnd64_mono [OF x] show ?thesis by simp
qed

lemma ulp_unit: "0 < x \<Longrightarrow> x < 1 \<Longrightarrow> ulp x \<le> 1 / 2 ^ 53"
proof -
  assume x: "0 < x" "x < 1"
  then have "binade x \<le> - 1" by (intro binade_le) simp_all
  then have "(2 :: rat) powi (binade x - 52) \<le> 2 powi (- 53)" by (intro power_int_increasing) simp_all
  then show ?thesis using x by (simp add: ulp_def power_int_minus field_simps)
qed

text \<open>The rounding of a complement is undone by adding the number again.\<close>

lemma fadd_complement:
  assumes "0 \<le> t" "t < 1" "fsub 1 t \<le> s"
  shows "1 \<le> fadd t s"
proof -
  have "(1 - t) - 1 / 2 ^ 54 \<le> fsub 1 t"
  proof (cases "t = 0")
    case True
    then show ?thesis using rnd64_of_int [of 1] by (simp add: fsub_def)
  next
    case False
    then have "\<bar>rnd64 (1 - t) - (1 - t)\<bar> \<le> 1 / 2 ^ 54"
      using rnd64_half_ulp [of "1 - t"] ulp_unit [of "1 - t"] assms(1,2) by simp
    then show ?thesis unfolding fsub_def by linarith
  qed
  with assms(3) show ?thesis unfolding fadd_def by (intro rnd64_to_one) simp
qed

section \<open>The rounding interface\<close>

text \<open>
  What the clients of float64 rely on: rounding is monotone, odd, exact on integers of at most
  53 bits and on their halves, and has a relative error of half a unit in the last place. The
  bounds the planner, the rate limiter and the progress store need follow from these laws alone.
\<close>

locale float_rounding =
  fixes rnd :: "rat \<Rightarrow> rat"
  assumes rnd_mono: "x \<le> y \<Longrightarrow> rnd x \<le> rnd y"
    and rnd_odd: "rnd (- x) = - rnd x"
    and rnd_exact: "\<bar>i\<bar> < 2 ^ 53 \<Longrightarrow> rnd (of_int i * 2 powi e) = of_int i * 2 powi e"
    and rnd_error: "\<bar>rnd x - x\<bar> \<le> \<bar>x\<bar> / 2 ^ 53"
begin

lemma rnd_int: "\<bar>i\<bar> < 2 ^ 53 \<Longrightarrow> rnd (of_int i) = of_int i"
  using rnd_exact [of i 0] by simp

lemma rnd_0: "rnd 0 = 0"
  using rnd_int [of 0] by simp

lemma rnd_ge_int: "\<bar>i\<bar> < 2 ^ 53 \<Longrightarrow> of_int i \<le> x \<Longrightarrow> of_int i \<le> rnd x"
  using rnd_mono [of "of_int i" x] rnd_int [of i] by simp

lemma rnd_le_int: "\<bar>i\<bar> < 2 ^ 53 \<Longrightarrow> x \<le> of_int i \<Longrightarrow> rnd x \<le> of_int i"
  using rnd_mono [of x "of_int i"] rnd_int [of i] by simp

lemma rnd_nonneg: "0 \<le> x \<Longrightarrow> 0 \<le> rnd x"
  using rnd_mono [of 0 x] by (simp add: rnd_0)

lemma rnd_pos: "0 < x \<Longrightarrow> 0 < rnd x"
proof -
  assume "0 < x"
  then have "\<bar>x\<bar> / 2 ^ 53 < x" by simp
  with rnd_error [of x] show ?thesis by linarith
qed

lemma rnd_half: "\<bar>i\<bar> < 2 ^ 53 \<Longrightarrow> rnd (of_int i / 2) = of_int i / 2"
  using rnd_exact [of i "- 1"] by (simp add: field_simps)

lemma rnd_upper: "0 \<le> x \<Longrightarrow> rnd x \<le> x * (1 + 1 / 2 ^ 53)"
  using rnd_error [of x] unfolding distrib_left abs_le_iff by simp

lemma rnd_lower: "0 \<le> x \<Longrightarrow> x * (1 - 1 / 2 ^ 53) \<le> rnd x"
  using rnd_error [of x] unfolding right_diff_distrib abs_le_iff by simp

end

interpretation f64: float_rounding rnd64
  by unfold_locales (rule rnd64_mono rnd64_minus rnd64_exact rnd64_error; assumption?)+

lemma fl_int: "\<bar>i\<bar> < 2 ^ 53 \<Longrightarrow> fl i = of_int i"
  by (simp add: fl_def f64.rnd_int)

lemma fl_nonneg: "0 \<le> i \<Longrightarrow> 0 \<le> fl i"
  by (simp add: fl_def f64.rnd_nonneg)

lemma fl_pos: "0 < i \<Longrightarrow> 0 < fl i"
  by (simp add: fl_def f64.rnd_pos)

lemma fl_mono: "i \<le> j \<Longrightarrow> fl i \<le> fl j"
  by (simp add: fl_def f64.rnd_mono)

lemma fmul_nonneg: "0 \<le> a \<Longrightarrow> 0 \<le> b \<Longrightarrow> 0 \<le> fmul a b"
  by (simp add: fmul_def f64.rnd_nonneg)

lemma fmul_pos: "0 < a \<Longrightarrow> 0 < b \<Longrightarrow> 0 < fmul a b"
  by (simp add: fmul_def f64.rnd_pos)

lemma fdiv_nonneg: "0 \<le> a \<Longrightarrow> 0 \<le> b \<Longrightarrow> 0 \<le> fdiv a b"
  by (simp add: fdiv_def f64.rnd_nonneg)

lemma fdiv_pos: "0 < a \<Longrightarrow> 0 < b \<Longrightarrow> 0 < fdiv a b"
  by (simp add: fdiv_def f64.rnd_pos)

lemma fmul_mono: "0 \<le> a \<Longrightarrow> a \<le> a' \<Longrightarrow> 0 \<le> b \<Longrightarrow> b \<le> b' \<Longrightarrow> fmul a b \<le> fmul a' b'"
  by (simp add: fmul_def f64.rnd_mono mult_mono)

lemma fdiv_mono: "a \<le> a' \<Longrightarrow> 0 < b \<Longrightarrow> fdiv a b \<le> fdiv a' b"
  by (simp add: fdiv_def f64.rnd_mono divide_right_mono)

lemma f2i_range: "\<lbrakk>0 \<le> x; x < 2 ^ 63\<rbrakk> \<Longrightarrow> f2i oor x = \<lfloor>x\<rfloor>"
  by (auto simp: f2i_def trunc_rat_def floor_less_iff)

lemma f2i_bounds: "0 \<le> x \<Longrightarrow> x < 2 ^ 63 \<Longrightarrow> 0 \<le> f2i oor x \<and> x < of_int (f2i oor x + 1)"
  by (simp add: f2i_range) linarith

lemma seconds_ge: "0 \<le> n \<Longrightarrow> n < 2 ^ 53 \<Longrightarrow> n * 10 ^ 9 \<le> d \<Longrightarrow> of_int n \<le> seconds d"
proof -
  assume n: "0 \<le> n" "n < 2 ^ 53" and d: "n * 10 ^ 9 \<le> d"
  from d have "n \<le> d div 10 ^ 9" by (simp add: zdiv_mono1 [of "n * 10 ^ 9" d "10 ^ 9", simplified])
  then have "of_int n \<le> fl (d div 10 ^ 9)" using f64.rnd_ge_int [of n "of_int (d div 10 ^ 9)"] n by (simp add: fl_def)
  moreover have "0 \<le> fdiv (fl (d mod 10 ^ 9)) (10 ^ 9)" by (intro fdiv_nonneg fl_nonneg) simp_all
  ultimately show ?thesis unfolding seconds_def fadd_def using n by (intro f64.rnd_ge_int) simp_all
qed

lemma seconds_nonneg: "0 \<le> d \<Longrightarrow> 0 \<le> seconds d"
  using seconds_ge [of 0 d] by simp

lemma seconds_upper: "0 \<le> d \<Longrightarrow> seconds d \<le> of_int d / 10 ^ 9 * (1 + 1 / 2 ^ 53) ^ 3"
proof -
  assume d: "0 \<le> d"
  define u :: rat where "u = 1 + 1 / 2 ^ 53"
  define a b where "a = (of_int (d div 10 ^ 9) :: rat)" and "b = (of_int (d mod 10 ^ 9) :: rat)"
  have u: "1 \<le> u" and ab: "0 \<le> a" "0 \<le> b" using d by (simp_all add: u_def a_def b_def)
  have up: "rnd64 x \<le> x * u" if "0 \<le> x" for x using f64.rnd_upper [OF that] by (simp add: u_def)
  have sum: "of_int d = a * 10 ^ 9 + b"
  proof -
    have "(of_int d :: rat) = of_int (d div 10 ^ 9 * 10 ^ 9 + d mod 10 ^ 9)" by (simp only: div_mult_mod_eq)
    then show ?thesis by (simp only: a_def b_def of_int_add of_int_mult of_int_power of_int_numeral)
  qed
  have s: "0 \<le> fl (d div 10 ^ 9)" "0 \<le> fl (d mod 10 ^ 9)" using d by (simp_all add: fl_nonneg pos_imp_zdiv_nonneg_iff)
  have "fl (d div 10 ^ 9) \<le> a * u" "fl (d mod 10 ^ 9) \<le> b * u" using up [of a] up [of b] ab by (simp_all add: fl_def a_def b_def)
  moreover have "fdiv (fl (d mod 10 ^ 9)) (10 ^ 9) \<le> fl (d mod 10 ^ 9) / 10 ^ 9 * u"
    unfolding fdiv_def using up [of "fl (d mod 10 ^ 9) / 10 ^ 9"] s by simp
  moreover have "fl (d mod 10 ^ 9) / 10 ^ 9 * u \<le> b * u / 10 ^ 9 * u"
    using calculation(2) u by (intro mult_right_mono divide_right_mono) simp_all
  moreover have "a * u \<le> a * u * u" using ab u mult_left_mono [of 1 u "a * u"] by simp
  ultimately have "fl (d div 10 ^ 9) + fdiv (fl (d mod 10 ^ 9)) (10 ^ 9) \<le> a * u * u + b * u / 10 ^ 9 * u" by linarith
  also have "\<dots> = of_int d / 10 ^ 9 * u ^ 2" by (simp add: sum power2_eq_square field_simps)
  finally have "(fl (d div 10 ^ 9) + fdiv (fl (d mod 10 ^ 9)) (10 ^ 9)) * u \<le> of_int d / 10 ^ 9 * u ^ 2 * u"
    using u by (intro mult_right_mono) simp_all
  moreover have "seconds d \<le> (fl (d div 10 ^ 9) + fdiv (fl (d mod 10 ^ 9)) (10 ^ 9)) * u"
    unfolding seconds_def fadd_def using s by (intro up add_nonneg_nonneg fdiv_nonneg) simp_all
  ultimately show ?thesis by (simp add: u_def power3_eq_cube power2_eq_square mult.assoc)
qed

end
