(* ===== verification/Prelude.thy ===== *)
theory Prelude
  imports Go_Float "HOL-Library.Char_ord" "HOL-Library.List_Lexorder"
begin

text \<open>
  What the components share: the result type of fallible functions, the JSON values the code
  builds as \<^verbatim>\<open>map[string]any\<close>, decimal and \<^verbatim>\<open>%g\<close> rendering, the string functions of
  Go's \<^verbatim>\<open>strings\<close> and \<^verbatim>\<open>bytes\<close> packages that the code calls, and the generic lemmas on
  lists, ranges and maps that carry the component proofs. Go strings and byte slices are lists of
  characters (bytes).
\<close>

named_theorems page_simps \<open>page ranges and covers\<close>
named_theorems inv_intros \<open>an operation keeps its component's invariant\<close>
named_theorems fs_simps \<open>reads after writes in a file system\<close>

section \<open>Definitions\<close>

text \<open>A Go function that returns \<^verbatim>\<open>(T, error)\<close>: \<open>Inl\<close> the error, \<open>Inr\<close> the value.\<close>

type_synonym ('e, 'a) result = "'e + 'a"

abbreviation Err :: "'e \<Rightarrow> ('e, 'a) result" where "Err \<equiv> Inl"
abbreviation Ok :: "'a \<Rightarrow> ('e, 'a) result" where "Ok \<equiv> Inr"

text \<open>The values of \<^verbatim>\<open>map[string]any\<close> bodies.\<close>

datatype json =
    JNull
  | JBool bool
  | JInt int
  | JNum rat
  | JStr string
  | JStrs "string list"
  | JInts "int list"
  | JArr "json list"
  | JObj "(string \<times> json) list"

type_synonym detail = "(string \<times> json) list"

subsection \<open>Numbers as text\<close>

definition digit_char :: "nat \<Rightarrow> char" where
  "digit_char d = char_of (48 + d)"

fun utoa :: "nat \<Rightarrow> string" where
  "utoa n = (if n < 10 then [digit_char n] else utoa (n div 10) @ [digit_char (n mod 10)])"

declare utoa.simps [simp del]

definition itoa :: "int \<Rightarrow> string" where
  "itoa i = (if i < 0 then ''-'' @ utoa (nat (- i)) else utoa (nat i))"

definition digit_val :: "char \<Rightarrow> nat" where
  "digit_val c = of_char c - 48"

definition is_digit :: "char \<Rightarrow> bool" where
  "is_digit c = (48 \<le> (of_char c :: nat) \<and> (of_char c :: nat) < 58)"

fun atou :: "nat \<Rightarrow> string \<Rightarrow> nat" where
  "atou a [] = a"
| "atou a (c # s) = atou (10 * a + digit_val c) s"

text \<open>\<^verbatim>\<open>strconv.ParseInt(s, 10, 64)\<close>: an optional sign and digits, in the int64 range.\<close>

definition parse_int :: "string \<Rightarrow> int option" where
  "parse_int s =
     (let (neg, ds) = (case s of
          [] \<Rightarrow> (False, [])
        | c # r \<Rightarrow> if c = CHR ''+'' then (False, r) else if c = CHR ''-'' then (True, r) else (False, s))
      in if ds = [] \<or> \<not> list_all is_digit ds then None
         else (let v = int (atou 0 ds)
               in if neg then (if v \<le> 2 ^ 63 then Some (- v) else None)
                  else (if v < 2 ^ 63 then Some v else None)))"

text \<open>
  \<^verbatim>\<open>strconv.FormatFloat(x, 'g', -1, 64)\<close> (and \<^verbatim>\<open>fmt\<close>'s \<^verbatim>\<open>%g\<close> and \<^verbatim>\<open>%v\<close>) on a
  non-negative multiple of one half, the only values a chunk index takes: the exact decimal
  digits, written with an exponent once the number has more than six digits before the point.
\<close>

definition strip_zeros :: "string \<Rightarrow> string" where
  "strip_zeros s = rev (dropWhile (\<lambda>c. c = CHR ''0'') (rev s))"

definition exp2 :: "nat \<Rightarrow> string" where
  "exp2 e = (if e < 10 then ''e+0'' else ''e+'') @ utoa e"

definition format_g :: "rat \<Rightarrow> string" where
  "format_g x =
     (let t = nat \<lfloor>x * 10\<rfloor>; whole = utoa (t div 10); frac = t mod 10
      in if length whole \<le> 6
         then whole @ (if frac = 0 then '''' else ''.'' @ utoa frac)
         else let ds = strip_zeros (utoa t)
              in take 1 ds @ (if tl ds = '''' then '''' else ''.'' @ tl ds) @ exp2 (length whole - 1))"

subsection \<open>Strings\<close>

definition has_prefix :: "string \<Rightarrow> string \<Rightarrow> bool" where
  "has_prefix s p = (take (length p) s = p)"

definition has_suffix :: "string \<Rightarrow> string \<Rightarrow> bool" where
  "has_suffix s p = (length p \<le> length s \<and> drop (length s - length p) s = p)"

fun contains :: "string \<Rightarrow> string \<Rightarrow> bool" where
  "contains [] p = (p = [])"
| "contains (c # s) p = (has_prefix (c # s) p \<or> contains s p)"

text \<open>\<^verbatim>\<open>s[len(s)-n:]\<close> when the string is longer than \<open>n\<close>: the tail kept in diagnostics.\<close>

definition tail_str :: "nat \<Rightarrow> string \<Rightarrow> string" where
  "tail_str n s = (if n < length s then drop (length s - n) s else s)"

text \<open>
  \<^verbatim>\<open>strings.TrimSpace\<close>: the UTF-8 sequences of Unicode's white space, stripped from both ends.
\<close>

definition bytes :: "nat list \<Rightarrow> string" where
  "bytes ns = map char_of ns"

definition space_seqs :: "string list" where
  "space_seqs =
     map (\<lambda>b. bytes [b]) [9, 10, 11, 12, 13, 32] @
     [bytes [0xC2, 0x85], bytes [0xC2, 0xA0], bytes [0xE1, 0x9A, 0x80]] @
     map (\<lambda>b. bytes [0xE2, 0x80, b]) ([0x80..<0x8B] @ [0xA8, 0xA9, 0xAF]) @
     [bytes [0xE2, 0x81, 0x9F], bytes [0xE3, 0x80, 0x80]]"

function trim_seqs :: "string list \<Rightarrow> string \<Rightarrow> string" where
  "trim_seqs seqs s =
     (case find (\<lambda>p. p \<noteq> [] \<and> has_prefix s p) seqs of
        None \<Rightarrow> s
      | Some p \<Rightarrow> trim_seqs seqs (drop (length p) s))"
  by pat_completeness auto
termination
proof (relation "measure (\<lambda>(seqs, s). length s)", goal_cases)
  case (2 seqs s p)
  then have "p \<noteq> []" "has_prefix s p" by (auto simp: find_Some_iff)
  then show ?case by (cases s) (auto simp: has_prefix_def)
qed simp

declare trim_seqs.simps [simp del]

definition trim_space :: "string \<Rightarrow> string" where
  "trim_space s = rev (trim_seqs (map rev space_seqs) (rev (trim_seqs space_seqs s)))"

text \<open>
  \<^verbatim>\<open>strings.ToLower\<close>, exact for the ASCII letters of the result: besides the ASCII capitals, two
  other runes have an ASCII lower case, the Kelvin sign and the dotted capital I. The callers only
  compare the result with ASCII text, so the other runes are left as they are.
\<close>

definition lower_byte :: "char \<Rightarrow> char" where
  "lower_byte c = (let n = of_char c :: nat in if 65 \<le> n \<and> n \<le> 90 then char_of (n + 32) else c)"

fun to_lower :: "string \<Rightarrow> string" where
  "to_lower [] = []"
| "to_lower (c # s) =
     (if has_prefix (c # s) (bytes [0xE2, 0x84, 0xAA]) then CHR ''k'' # to_lower (drop 2 s)
      else if has_prefix (c # s) (bytes [0xC4, 0xB0]) then CHR ''i'' # to_lower (drop 1 s)
      else lower_byte c # to_lower s)"

text \<open>\<^verbatim>\<open>strings.Cut(s, sep)\<close> with a one-byte separator: before, after, found.\<close>

fun cut :: "char \<Rightarrow> string \<Rightarrow> string \<times> string \<times> bool" where
  "cut c [] = ([], [], False)"
| "cut c (x # s) = (if x = c then ([], s, True) else (let (a, b, f) = cut c s in (x # a, b, f)))"

text \<open>\<^verbatim>\<open>strings.Split(s, sep)\<close> with a one-byte separator.\<close>

fun split :: "char \<Rightarrow> string \<Rightarrow> string list" where
  "split c [] = [[]]"
| "split c (x # s) =
     (if x = c then [] # split c s
      else (case split c s of [] \<Rightarrow> [[x]] | w # ws \<Rightarrow> (x # w) # ws))"

text \<open>\<^verbatim>\<open>strings.Join\<close>.\<close>

fun join :: "string \<Rightarrow> string list \<Rightarrow> string" where
  "join sep [] = []"
| "join sep [x] = x"
| "join sep (x # y # xs) = x @ sep @ join sep (y # xs)"

text \<open>\<^verbatim>\<open>strings.LastIndex(s, c)\<close> for one byte, as the text up to and including it and the rest.\<close>

definition cut_last :: "char \<Rightarrow> string \<Rightarrow> (string \<times> string) option" where
  "cut_last c s =
     (if c \<in> set s
      then Some (rev (dropWhile (\<lambda>x. x \<noteq> c) (rev s)), rev (takeWhile (\<lambda>x. x \<noteq> c) (rev s)))
      else None)"

text \<open>\<^verbatim>\<open>strings.ReplaceAll(s, old, new)\<close> with a non-empty \<open>old\<close>.\<close>

function replace_all :: "string \<Rightarrow> string \<Rightarrow> string \<Rightarrow> string" where
  "replace_all s old new =
     (if s = [] then []
      else if old \<noteq> [] \<and> has_prefix s old then new @ replace_all (drop (length old) s) old new
      else hd s # replace_all (tl s) old new)"
  by pat_completeness auto
termination
  by (relation "measure (\<lambda>(s, old, new). length s)") auto

declare replace_all.simps [simp del]

section \<open>Lists\<close>

lemma rev_take_rev: "rev (take n (rev xs)) = drop (length xs - n) xs"
  by (simp add: rev_take)

lemma upto_split: "i \<le> j + 1 \<Longrightarrow> j \<le> k \<Longrightarrow> [i..j] @ [j + 1..k] = [i..k :: int]"
proof (induction "nat (j + 1 - i)" arbitrary: i)
  case 0
  then have "[i..j] = []" and "i = j + 1" by simp_all
  then show ?case by simp
next
  case (Suc n)
  then have "i \<le> j" by simp
  with Suc.prems Suc.hyps(1) [of "i + 1"] Suc.hyps(2) show ?case
    by (simp add: upto_rec1 [of i])
qed

lemma length_tail_str: "length (tail_str n s) \<le> max n 0"
  by (simp add: tail_str_def)

section \<open>Text\<close>

lemma has_prefix_append [simp]: "has_prefix (p @ s) p"
  by (simp add: has_prefix_def)

lemma has_prefix_conv: "has_prefix s p \<longleftrightarrow> (\<exists>t. s = p @ t)"
  unfolding has_prefix_def by (metis append_eq_conv_conj append_take_drop_id)

lemma digit_char_code: "d < 10 \<Longrightarrow> (of_char (digit_char d) :: nat) = 48 + d"
  by (simp add: digit_char_def)

lemma digit_val_char: "d < 10 \<Longrightarrow> digit_val (digit_char d) = d"
  by (simp add: digit_val_def digit_char_code)

lemma is_digit_char: "d < 10 \<Longrightarrow> is_digit (digit_char d)"
  by (simp add: is_digit_def digit_char_code)

lemma atou_append: "atou a (s @ t) = atou (atou a s) t"
  by (induction s arbitrary: a) simp_all

lemma atou_zeros: "atou 0 (replicate k (CHR ''0'') @ s) = atou 0 s"
  by (induction k) (simp_all add: digit_val_def)

lemma atou_utoa: "atou 0 (utoa n) = n"
proof (induction n rule: utoa.induct)
  case (1 n)
  show ?case
    by (cases "n < 10") (simp_all add: utoa.simps [of n] digit_val_char atou_append "1.IH")
qed

lemma utoa_inj: "utoa m = utoa n \<Longrightarrow> m = n"
  by (metis atou_utoa)

lemma utoa_digits: "c \<in> set (utoa n) \<Longrightarrow> is_digit c"
proof (induction n rule: utoa.induct)
  case (1 n)
  then show ?case
    by (cases "n < 10") (auto simp: utoa.simps [of n] is_digit_char)
qed

lemma utoa_not_Nil [simp]: "utoa n \<noteq> []"
  by (simp add: utoa.simps [of n])

lemma length_utoa: "n < 10 ^ d \<Longrightarrow> 0 < d \<Longrightarrow> length (utoa n) \<le> d"
proof (induction n arbitrary: d rule: utoa.induct)
  case (1 n)
  show ?case
  proof (cases "n < 10")
    case True
    then show ?thesis using 1 by (simp add: utoa.simps [of n])
  next
    case False
    obtain d' where d: "d = Suc d'" using 1 by (cases d) auto
    have "0 < d'" using 1 False by (intro gr0I) (simp add: d)
    have "n div 10 < 10 ^ d'" using "1.prems"(1) d by (simp add: less_mult_imp_div_less ac_simps)
    with 1 False d \<open>0 < d'\<close> show ?thesis by (simp add: utoa.simps [of n])
  qed
qed

lemma utoa_two: "10 \<le> n \<Longrightarrow> n < 100 \<Longrightarrow> utoa n = [digit_char (n div 10), digit_char (n mod 10)]"
  by (simp add: utoa.simps [of n] utoa.simps [of "n div 10"] div_less_iff_less_mult)

lemma utoa_hd: "10 \<le> n \<Longrightarrow> hd (utoa n) \<noteq> CHR ''0''"
proof (induction n rule: utoa.induct)
  case (1 n)
  have z: "digit_char d = CHR ''0'' \<Longrightarrow> d = 0" if "d < 10" for d using digit_char_code [OF that] by simp
  show ?case
  proof (cases "n < 100")
    case True
    then show ?thesis using utoa_two [of n] z [of "n div 10"] 1(2) by (auto simp: div_less_iff_less_mult)
  next
    case False
    then have "hd (utoa (n div 10)) \<noteq> CHR ''0''" using 1 by simp
    then show ?thesis using False by (simp add: utoa.simps [of n])
  qed
qed

lemma not_digit [simp]: "\<not> is_digit CHR '':''" "\<not> is_digit CHR ''-''" "\<not> is_digit CHR ''.''" "\<not> is_digit CHR ''e''"
  by (simp_all add: is_digit_def)

lemma is_digit_sign: "is_digit c \<Longrightarrow> c \<noteq> CHR ''+'' \<and> c \<noteq> CHR ''-''"
  by (auto simp: is_digit_def)

lemma parse_int_itoa: "- (2 ^ 63) \<le> i \<Longrightarrow> i < 2 ^ 63 \<Longrightarrow> parse_int (itoa i) = Some i"
proof (cases "i < 0")
  case True
  assume "- (2 ^ 63) \<le> i"
  with True show ?thesis
    by (auto simp: parse_int_def itoa_def atou_utoa list_all_iff utoa_digits)
next
  case False
  assume "i < 2 ^ 63"
  moreover obtain c r where cr: "utoa (nat i) = c # r" by (cases "utoa (nat i)") auto
  then have "c \<noteq> CHR ''+''" "c \<noteq> CHR ''-''" using utoa_digits [of c "nat i"] is_digit_sign by auto
  moreover have "list_all is_digit (c # r)" "atou 0 (c # r) = nat i"
    using utoa_digits atou_utoa [of "nat i"] by (auto simp: list_all_iff cr [symmetric])
  ultimately show ?thesis using False by (simp add: parse_int_def itoa_def cr)
qed

lemma parse_int_range: "parse_int s = Some i \<Longrightarrow> - (2 ^ 63) \<le> i \<and> i < 2 ^ 63"
  by (auto simp: parse_int_def Let_def split: list.splits if_splits)

text \<open>Text without white space at its ends is not trimmed.\<close>

lemma trim_seqs_id: "find (\<lambda>p. p \<noteq> [] \<and> has_prefix s p) seqs = None \<Longrightarrow> trim_seqs seqs s = s"
  by (subst trim_seqs.simps) simp

lemma space_seqs_ends:
  "p \<in> set space_seqs \<Longrightarrow> (of_char (hd p) :: nat) \<notin> {33..<128} \<and> (of_char (last p) :: nat) \<notin> {33..<128}"
  by (auto simp: space_seqs_def bytes_def)

lemma trim_seqs_visible:
  assumes "\<forall>c \<in> set s. (of_char c :: nat) \<in> {33..<128}"
    and "\<forall>p \<in> set seqs. (of_char (hd p) :: nat) \<notin> {33..<128}"
  shows "trim_seqs seqs s = s"
proof (rule trim_seqs_id)
  have "\<not> (p \<noteq> [] \<and> has_prefix s p)" if "p \<in> set seqs" for p
    using assms that by (cases p) (force simp: has_prefix_conv)+
  then show "find (\<lambda>p. p \<noteq> [] \<and> has_prefix s p) seqs = None" by (simp add: find_None_iff)
qed

lemma trim_space_visible: "\<forall>c \<in> set s. (of_char c :: nat) \<in> {33..<128} \<Longrightarrow> trim_space s = s"
proof -
  assume vis: "\<forall>c \<in> set s. (of_char c :: nat) \<in> {33..<128}"
  have "trim_seqs space_seqs s = s"
    using vis space_seqs_ends by (intro trim_seqs_visible) auto
  moreover have "trim_seqs (map rev space_seqs) (rev s) = rev s"
    by (rule trim_seqs_visible) (use vis space_seqs_ends in \<open>auto simp: hd_rev\<close>)
  ultimately show ?thesis by (simp add: trim_space_def)
qed

lemma trim_space_itoa [simp]: "trim_space (itoa i) = itoa i"
  by (rule trim_space_visible) (auto simp: itoa_def is_digit_def dest!: utoa_digits)

text \<open>Two texts that agree after a first separator agree before it.\<close>

lemma append_sep_inj:
  assumes "xs @ c # ys = xs' @ c # ys'" and "c \<notin> set xs" and "c \<notin> set xs'"
  shows "xs = xs' \<and> ys = ys'"
  using assms
proof (induction xs arbitrary: xs')
  case Nil
  then show ?case by (cases xs') auto
next
  case (Cons x xs)
  then show ?case by (cases xs') auto
qed

section \<open>Strings\<close>

lemma cut_found: "c \<notin> set a \<Longrightarrow> cut c (a @ c # b) = (a, b, True)"
  by (induction a) auto

lemma split_no_sep: "c \<notin> set s \<Longrightarrow> split c s = [s]"
  by (induction s) auto

lemma split_append_sep: "c \<notin> set a \<Longrightarrow> split c (a @ c # b) = a # split c b"
  by (induction a) auto

lemma split_join: "xs \<noteq> [] \<Longrightarrow> \<forall>x \<in> set xs. c \<notin> set x \<Longrightarrow> split c (join [c] xs) = xs"
  by (induction "[c]" xs rule: join.induct) (auto simp: split_no_sep split_append_sep)

lemma split_not_Nil [simp]: "split c s \<noteq> []"
  by (induction s) (auto split: list.splits)

lemma split_pieces: "w \<in> set (split c s) \<Longrightarrow> c \<notin> set w"
proof (induction s arbitrary: w)
  case (Cons x s)
  then show ?case by (cases "split c s") (auto split: if_splits)
qed simp

lemma split_append: "split c (a @ c # b) = split c a @ split c b"
proof (induction a)
  case (Cons x a)
  then show ?case by (cases "split c a") auto
qed simp

lemma cut_absent: "c \<notin> set s \<Longrightarrow> cut c s = (s, [], False)"
  by (induction s) auto

end
