(* ===== verification/Types.thy ===== *)
theory Types
  imports Prelude
begin

text \<open>
  \<^verbatim>\<open>internal/types/types.go\<close>: the domain types. Formats are Go strings (a probe may report any
  format text), failure classes and license states are closed enumerations with their wire
  strings, and \<^verbatim>\<open>Chunk\<close>, \<^verbatim>\<open>ChunkPlan\<close>, \<^verbatim>\<open>ProbeResult\<close>, \<^verbatim>\<open>ConversionOptions\<close> and
  \<^verbatim>\<open>ConversionResult\<close> are records with the source's fields. Page numbers and counts are \<open>int\<close>,
  chunk indices and MB figures are float64 values (\<open>rat\<close>, see \<open>Go_Float\<close>).
\<close>

section \<open>Definitions\<close>

type_synonym FormatName = string

definition FormatDOCX :: FormatName where "FormatDOCX = ''docx''"
definition FormatPPTX :: FormatName where "FormatPPTX = ''pptx''"
definition FormatXLSX :: FormatName where "FormatXLSX = ''xlsx''"
definition FormatPDF :: FormatName where "FormatPDF = ''pdf''"

lemmas format_defs = FormatDOCX_def FormatPPTX_def FormatXLSX_def FormatPDF_def

definition AsposeFormats :: "FormatName list" where
  "AsposeFormats = [FormatDOCX, FormatPPTX, FormatXLSX, FormatPDF]"

datatype FailureClass =
    UnsupportedFormat
  | MissingFile
  | InputTooLarge
  | InputUnprocessable
  | RenderFailed
  | SubdivisionFloorExceeded
  | MergeFailed
  | LicenseExpired
  | Busy
  | RateLimited
  | InputSourceConflict
  | S3Disabled
  | S3InvalidURL
  | S3InputNotFound
  | S3InputForbidden
  | S3OutputForbidden
  | S3OutputUploadFailed
  | EngineUnavailable

fun failure_string :: "FailureClass \<Rightarrow> string" where
  "failure_string UnsupportedFormat = ''unsupported_format''"
| "failure_string MissingFile = ''missing_file''"
| "failure_string InputTooLarge = ''input_too_large''"
| "failure_string InputUnprocessable = ''input_unprocessable''"
| "failure_string RenderFailed = ''render_failed''"
| "failure_string SubdivisionFloorExceeded = ''subdivision_floor_exceeded''"
| "failure_string MergeFailed = ''merge_failed''"
| "failure_string LicenseExpired = ''license_expired''"
| "failure_string Busy = ''busy''"
| "failure_string RateLimited = ''rate_limited''"
| "failure_string InputSourceConflict = ''input_source_conflict''"
| "failure_string S3Disabled = ''s3_disabled''"
| "failure_string S3InvalidURL = ''s3_invalid_url''"
| "failure_string S3InputNotFound = ''s3_input_not_found''"
| "failure_string S3InputForbidden = ''s3_input_forbidden''"
| "failure_string S3OutputForbidden = ''s3_output_forbidden''"
| "failure_string S3OutputUploadFailed = ''s3_output_upload_failed''"
| "failure_string EngineUnavailable = ''engine_unavailable''"

datatype LicenseState =
    LicenseStatePermanent
  | LicenseStateHealthy
  | LicenseStateWarn
  | LicenseStateCritical
  | LicenseStateExpiringToday
  | LicenseStateExpired

record Chunk =
  Index :: rat
  PageStart :: int
  PageEnd :: int
  NaturalSeam :: bool

definition Pages :: "Chunk \<Rightarrow> int" where
  "Pages c = PageEnd c - PageStart c + 1"

record ChunkPlan =
  Chunks :: "Chunk list"
  TotalPages :: int
  EstimatedMB :: rat

record ProbeResult =
  PageCount :: int
  Format :: FormatName
  NaturalSeams :: "(int \<times> int) list"
  SizeBytes :: int

record ConversionOptions =
  Cache :: bool
  LogLevel :: string

record ConversionResult =
  ChunksRendered :: int
  SubdivisionRetries :: int
  CacheHits :: int
  DurationSeconds :: rat

text \<open>The pages a chunk stands for, and what a chunk list covers.\<close>

definition chunk_pages :: "Chunk \<Rightarrow> int list" where
  "chunk_pages c = [PageStart c..PageEnd c]"

text \<open>
  The contract of a plan (the doc comment of \<^verbatim>\<open>ChunkPlan\<close>): the page ranges, read in order, are
  exactly the pages \<open>a, \<dots>, b\<close>, each once, and no chunk is empty.
\<close>

definition covers :: "Chunk list \<Rightarrow> int \<Rightarrow> int \<Rightarrow> bool" where
  "covers cs a b = (concat (map chunk_pages cs) = [a..b] \<and> (\<forall>c \<in> set cs. PageStart c \<le> PageEnd c))"

text \<open>Chunk indices count up from \<open>n\<close>.\<close>

fun indexed :: "nat \<Rightarrow> Chunk list \<Rightarrow> bool" where
  "indexed n [] = True"
| "indexed n (c # cs) = (Index c = fl (int n) \<and> indexed (Suc n) cs)"

section \<open>Lemmas\<close>

lemma indexed_nth: "indexed n cs \<Longrightarrow> i < length cs \<Longrightarrow> Index (cs ! i) = fl (int (n + i))"
  by (induction n cs arbitrary: i rule: indexed.induct) (auto simp: nth_Cons ac_simps split: nat.splits)

lemma fl_strict: "m < n \<Longrightarrow> n < 2 ^ 53 \<Longrightarrow> fl (int m) < fl (int n)"
proof -
  assume "m < n" "n < 2 ^ 53"
  then have "int n < 2 ^ 53" by (metis of_nat_less_iff of_nat_numeral of_nat_power)
  with \<open>m < n\<close> show ?thesis by (simp add: fl_int)
qed

lemma indexed_sorted:
  assumes "indexed 0 cs" "length cs \<le> 2 ^ 53"
  shows "sorted_wrt (\<lambda>c d. Index c < Index d) cs"
  using assms by (simp add: sorted_wrt_iff_nth_less indexed_nth fl_strict)

lemma chunk_pages_simp [page_simps]:
  "chunk_pages \<lparr>Index = i, PageStart = a, PageEnd = b, NaturalSeam = s\<rparr> = [a..b]"
  by (simp add: chunk_pages_def)

lemma length_chunk_pages: "int (length (chunk_pages c)) = max 0 (Pages c)"
  by (simp add: chunk_pages_def Pages_def)

lemma covers_Nil [page_simps]: "covers [] a b \<longleftrightarrow> b < a"
  by (simp add: covers_def)

lemma covers_Cons:
  assumes "PageStart c = a" "a \<le> PageEnd c" "PageEnd c \<le> b" "covers cs (PageEnd c + 1) b"
  shows "covers (c # cs) a b"
proof -
  have "chunk_pages c @ [PageEnd c + 1..b] = [a..b]"
    unfolding chunk_pages_def assms(1) using assms(2,3) by (intro upto_split) simp_all
  with assms show ?thesis by (simp add: covers_def)
qed

lemma covers_append:
  assumes "covers cs a b" "covers ds (b + 1) e" "a \<le> b + 1" "b \<le> e"
  shows "covers (cs @ ds) a e"
  using assms upto_split [of a b e] by (auto simp: covers_def)

lemma covers_pages:
  assumes "covers cs a b"
  shows "concat (map chunk_pages cs) = [a..b]"
  using assms by (simp add: covers_def)

end
