(* ===== verification/Errors.thy ===== *)
theory Errors
  imports Types
begin

text \<open>
  \<^verbatim>\<open>internal/oerrors/errors.go\<close>: the typed conversion error, one constructor per failure, and
  \<^verbatim>\<open>DetailDict\<close>. A nil \<^verbatim>\<open>Detail\<close> map is \<open>None\<close>, a nil chunk pointer is \<open>None\<close>. The text
  that \<^verbatim>\<open>%q\<close> quotes is the argument \<open>quote\<close> of \<open>NewS3InvalidURL\<close>.
\<close>

section \<open>Definitions\<close>

record Error =
  FailureClass :: FailureClass
  HTTPStatus :: int
  Msg :: string
  Detail :: "detail option"
  OOM :: bool
  ErrChunk :: "Chunk option"

definition mk_error :: "FailureClass \<Rightarrow> int \<Rightarrow> string \<Rightarrow> detail option \<Rightarrow> Error" where
  "mk_error fc st msg d =
     \<lparr>FailureClass = fc, HTTPStatus = st, Msg = msg, Detail = d, OOM = False, ErrChunk = None\<rparr>"

definition DetailDict :: "Error \<Rightarrow> detail" where
  "DetailDict e =
     (case Detail e of
        Some d \<Rightarrow> d
      | None \<Rightarrow> [(''message'', JStr (if Msg e = '''' then failure_string (FailureClass e) else Msg e))])"

definition NewUnsupportedFormat :: "string \<Rightarrow> string list \<Rightarrow> string \<Rightarrow> Error" where
  "NewUnsupportedFormat detectedMagic accepted reason =
     (let msg0 = ''unsupported format (magic='' @ detectedMagic @ '')'';
          msg = (if reason \<noteq> '''' then msg0 @ '': '' @ reason else msg0);
          d0 = [(''detected_magic'', JStr detectedMagic), (''accepted'', JStrs accepted)];
          d = (if reason \<noteq> '''' then d0 @ [(''reason'', JStr reason)] else d0)
      in mk_error UnsupportedFormat 400 msg (Some d))"

definition NewMissingFile :: "string \<Rightarrow> Error" where
  "NewMissingFile msg = mk_error MissingFile 400 msg None"

definition NewInputTooLarge :: "int \<Rightarrow> int \<Rightarrow> Error" where
  "NewInputTooLarge sizeBytes ceilingBytes =
     mk_error InputTooLarge 400 (''input too large: '' @ itoa sizeBytes @ '' > '' @ itoa ceilingBytes)
       (Some [(''size_bytes'', JInt sizeBytes), (''ceiling_bytes'', JInt ceilingBytes)])"

definition NewInputUnprocessable :: "string \<Rightarrow> Error" where
  "NewInputUnprocessable reason =
     mk_error InputUnprocessable 422 reason (Some [(''reason'', JStr reason)])"

definition renderDetail :: "Chunk option \<Rightarrow> int \<Rightarrow> string \<Rightarrow> detail" where
  "renderDetail chunk exitCode stderrTail =
     [(''exit_code'', JInt exitCode), (''stderr_tail'', JStr (tail_str 1024 stderrTail))] @
     (case chunk of
        Some c \<Rightarrow> [(''chunk_index'', JNum (Index c)), (''page_range'', JInts [PageStart c, PageEnd c])]
      | None \<Rightarrow> [(''chunk_index'', JNull), (''page_range'', JNull)])"

definition NewRender :: "Chunk option \<Rightarrow> int \<Rightarrow> string \<Rightarrow> Error" where
  "NewRender chunk exitCode stderrTail =
     (mk_error RenderFailed 500
        (''render failed (exit='' @ itoa exitCode @ ''): '' @ take 200 stderrTail)
        (Some (renderDetail chunk exitCode stderrTail)))\<lparr>ErrChunk := chunk\<rparr>"

definition NewOOM :: "Chunk \<Rightarrow> Error" where
  "NewOOM chunk = (NewRender (Some chunk) 137 ''OOM (exit 137)'')\<lparr>OOM := True\<rparr>"

definition NewSubdivisionFloor :: "Chunk \<Rightarrow> int \<Rightarrow> Error" where
  "NewSubdivisionFloor chunk attempts =
     (mk_error SubdivisionFloorExceeded 500
        (''subdivision floor reached on chunk '' @ format_g (Index chunk))
        (Some [(''failing_page_range'', JInts [PageStart chunk, PageEnd chunk]),
               (''attempts'', JInt attempts)]))\<lparr>ErrChunk := Some chunk\<rparr>"

definition NewMerge :: "int \<Rightarrow> string \<Rightarrow> Error" where
  "NewMerge exitCode stderrTail =
     mk_error MergeFailed 500 (''qpdf merge failed (exit='' @ itoa exitCode @ '')'')
       (Some [(''exit_code'', JInt exitCode), (''stderr_tail'', JStr (tail_str 1024 stderrTail))])"

definition NewLicenseExpired :: "string \<Rightarrow> Error" where
  "NewLicenseExpired expiredOn =
     mk_error LicenseExpired 503
       (if expiredOn \<noteq> '''' then ''license expired on '' @ expiredOn else ''license expired'')
       (Some [(''expired_on'', if expiredOn \<noteq> '''' then JStr expiredOn else JNull)])"

definition NewBusy :: "int \<Rightarrow> Error" where
  "NewBusy retryAfterSeconds =
     mk_error Busy 503 ''server at max_jobs capacity''
       (Some [(''retry_after_seconds'', JInt retryAfterSeconds)])"

definition NewRateLimited :: "int \<Rightarrow> int \<Rightarrow> Error" where
  "NewRateLimited retryAfterSeconds limit =
     mk_error RateLimited 429 (''rate limit exceeded ('' @ itoa limit @ '' req/min/IP)'')
       (Some [(''retry_after_seconds'', JInt retryAfterSeconds), (''limit'', JInt limit)])"

definition NewEngineUnavailable :: "string \<Rightarrow> string \<Rightarrow> string \<Rightarrow> Error" where
  "NewEngineUnavailable engine url cause =
     mk_error EngineUnavailable 503 (engine @ '' engine unavailable: '' @ cause)
       (Some [(''engine'', JStr engine), (''url'', JStr url), (''cause'', JStr cause)])"

definition NewInputSourceConflict :: Error where
  "NewInputSourceConflict =
     mk_error InputSourceConflict 400 (''provide exactly one input source: '' @
       [CHR 0x27] @ ''file'' @ [CHR 0x27] @ '' or '' @ [CHR 0x27] @ ''s3_input'' @ [CHR 0x27]) None"

definition NewS3Disabled :: Error where
  "NewS3Disabled =
     mk_error S3Disabled 400 ''S3 integration is disabled (set OFFICE_CONVERT_S3_ENABLED=1)'' None"

definition NewS3InvalidURL :: "(string \<Rightarrow> string) \<Rightarrow> string \<Rightarrow> Error" where
  "NewS3InvalidURL quote url =
     mk_error S3InvalidURL 400 (''invalid s3 url '' @ quote url @ '' (expected s3://bucket/key)'')
       (Some [(''url'', JStr url)])"

definition NewS3InputNotFound :: "string \<Rightarrow> string \<Rightarrow> Error" where
  "NewS3InputNotFound bucket key =
     mk_error S3InputNotFound 404 (''s3 input not found: s3://'' @ bucket @ ''/'' @ key)
       (Some [(''bucket'', JStr bucket), (''key'', JStr key)])"

definition NewS3InputForbidden :: "string \<Rightarrow> Error" where
  "NewS3InputForbidden bucket =
     mk_error S3InputForbidden 400 (''s3 input bucket not in allowlist: '' @ bucket)
       (Some [(''bucket'', JStr bucket)])"

definition NewS3OutputForbidden :: "string \<Rightarrow> Error" where
  "NewS3OutputForbidden bucket =
     mk_error S3OutputForbidden 400 (''s3 output bucket not in allowlist: '' @ bucket)
       (Some [(''bucket'', JStr bucket)])"

definition NewS3OutputUploadFailed :: "string \<Rightarrow> string \<Rightarrow> string \<Rightarrow> Error" where
  "NewS3OutputUploadFailed bucket key reason =
     mk_error S3OutputUploadFailed 500
       (''s3 output upload failed for s3://'' @ bucket @ ''/'' @ key @ '': '' @ reason)
       (Some [(''bucket'', JStr bucket), (''key'', JStr key), (''reason'', JStr reason)])"

text \<open>
  What a Go function returns as \<^verbatim>\<open>error\<close>: one of the errors above, another error value with its
  text, or a run-time panic (a nil dereference) of the goroutine.
\<close>

datatype go_error = OError Error | PlainError string | Panic string

fun error_text :: "go_error \<Rightarrow> string" where
  "error_text (OError e) = Msg e"
| "error_text (PlainError s) = s"
| "error_text (Panic s) = s"

fun is_OOM :: "go_error \<Rightarrow> bool" where
  "is_OOM (OError e) = OOM e"
| "is_OOM (PlainError s) = False"
| "is_OOM (Panic s) = False"

section \<open>Lemmas\<close>

lemma mk_error_sel [simp]:
  "FailureClass (mk_error fc st msg d) = fc" "HTTPStatus (mk_error fc st msg d) = st"
  "Msg (mk_error fc st msg d) = msg" "Detail (mk_error fc st msg d) = d"
  "OOM (mk_error fc st msg d) = False" "ErrChunk (mk_error fc st msg d) = None"
  by (simp_all add: mk_error_def)

lemma NewRender_sel [simp]:
  "FailureClass (NewRender c k s) = RenderFailed" "HTTPStatus (NewRender c k s) = 500"
  "OOM (NewRender c k s) = False" "ErrChunk (NewRender c k s) = c"
  "Detail (NewRender c k s) = Some (renderDetail c k s)"
  by (simp_all add: NewRender_def)

lemma NewOOM_sel [simp]:
  "FailureClass (NewOOM c) = RenderFailed" "HTTPStatus (NewOOM c) = 500"
  "OOM (NewOOM c) = True" "ErrChunk (NewOOM c) = Some c"
  by (simp_all add: NewOOM_def)

lemma not_OOM [simp]:
  "\<not> OOM (NewInputUnprocessable r)" "\<not> OOM (NewLicenseExpired x)" "\<not> OOM (NewMerge k s)"
  "\<not> OOM (NewSubdivisionFloor c n)"
  by (simp_all add: NewInputUnprocessable_def NewLicenseExpired_def NewMerge_def NewSubdivisionFloor_def)

end
