(* ===== verification/Config.thy ===== *)
theory Config
  imports Prelude
begin

text \<open>
  \<^verbatim>\<open>internal/config/config.go\<close>: the settings record and \<^verbatim>\<open>Load\<close>, which reads the
  \<^verbatim>\<open>OFFICE_CONVERT_*\<close> variables of an environment \<open>env\<close> (\<^verbatim>\<open>os.LookupEnv\<close> as a map),
  applies the defaults and validates the bounds. A validation error is \<open>Some\<close> message. The text that
  \<^verbatim>\<open>%q\<close> quotes is the argument \<open>quote\<close>. The lemmas show that a loaded configuration lies in
  the declared ranges, which the other components rely on.
\<close>

section \<open>Definitions\<close>

record Settings =
  MaxJobs :: int
  Parallel :: int
  CacheDir :: string
  LicensePath :: string
  ScratchDir :: string
  AsposeLibDir :: string
  WorkerBinaryPrefix :: string
  LogFormat :: string
  LogLevelS :: string
  ChunkTimeoutSeconds :: int
  MaxInputBytes :: int
  WorkerRAMBytes :: int
  AsposeVersion :: string
  MaxPagesPerChunk :: int
  MaxMBPerChunk :: int
  XLSXMinPagesPerChunk :: int
  PPTXMinPagesPerChunk :: int
  PoolMinChunks :: int
  XLSXMaxPoolSize :: int
  ForkAfterLoad :: bool
  RateLimitEnabled :: bool
  RateLimitPerIPRPM :: int
  RateLimitBurst :: int
  RateLimitMaxKeys :: int
  RateLimitTrustXFF :: bool
  GotenbergURL :: string
  GotenbergTimeoutSeconds :: int
  HTMLMaxBytes :: int
  S3Enabled :: bool
  S3Region :: string
  S3InputBucketsAllowlist :: string
  S3OutputBucketsAllowlist :: string
  S3DefaultOutputBucket :: string
  S3OutputKeyTemplate :: string
  S3PresignTTLSeconds :: int
  S3PublicEndpoint :: string

definition mib :: int where "mib = 1024 * 1024"
definition gib :: int where "gib = 1024 * mib"

definition envPrefix :: string where
  "envPrefix = ''OFFICE_CONVERT_''"

definition envStr :: "(string \<rightharpoonup> string) \<Rightarrow> string \<Rightarrow> string \<Rightarrow> string" where
  "envStr env name def = (case env (envPrefix @ name) of Some v \<Rightarrow> v | None \<Rightarrow> def)"

definition envInt64 ::
  "(string \<rightharpoonup> string) \<Rightarrow> string \<Rightarrow> int \<Rightarrow> int \<Rightarrow> int \<Rightarrow> (string \<Rightarrow> string) \<Rightarrow> int \<times> string option" where
  "envInt64 env name def lo hi quote =
     (case env (envPrefix @ name) of
        None \<Rightarrow> (def, None)
      | Some raw \<Rightarrow>
          (case parse_int (trim_space raw) of
             None \<Rightarrow> (def, Some (''not an integer: '' @ quote raw))
           | Some v \<Rightarrow>
               if v < lo \<or> v > hi
               then (v, Some (''value '' @ itoa v @ '' out of range ['' @ itoa lo @ '', '' @ itoa hi @ '']''))
               else (v, None)))"

definition envBool :: "(string \<rightharpoonup> string) \<Rightarrow> string \<Rightarrow> bool \<Rightarrow> bool" where
  "envBool env name def =
     (case env (envPrefix @ name) of
        None \<Rightarrow> def
      | Some raw \<Rightarrow>
          (let v = to_lower (trim_space raw)
           in if v \<in> {''1'', ''true'', ''yes'', ''on''} then True
              else if v \<in> {''0'', ''false'', ''no'', ''off''} then False
              else def))"

definition oneOf :: "(string \<Rightarrow> string) \<Rightarrow> string \<Rightarrow> string list \<Rightarrow> string option" where
  "oneOf quote v allowed =
     (if v \<in> set allowed then None
      else Some (quote v @ '' not in ['' @ join '' '' allowed @ '']''))"

text \<open>The closure \<^verbatim>\<open>fail\<close> of \<^verbatim>\<open>Load\<close>, as the errors one call appends.\<close>

definition fail :: "string \<Rightarrow> string option \<Rightarrow> string list" where
  "fail field err = (case err of None \<Rightarrow> [] | Some e \<Rightarrow> [field @ '': '' @ e])"

definition int_fail ::
  "(string \<Rightarrow> string) \<Rightarrow> (string \<rightharpoonup> string) \<Rightarrow> string \<Rightarrow> int \<Rightarrow> int \<Rightarrow> int \<Rightarrow> string list" where
  "int_fail quote env name def lo hi = fail name (snd (envInt64 env name def lo hi quote))"

definition settings_of :: "(string \<Rightarrow> string) \<Rightarrow> (string \<rightharpoonup> string) \<Rightarrow> Settings" where
  "settings_of quote env =
     \<lparr>MaxJobs = fst (envInt64 env ''MAX_JOBS'' 1 1 10 quote),
      Parallel = fst (envInt64 env ''PARALLEL'' 4 1 16 quote),
      CacheDir = envStr env ''CACHE_DIR'' '''',
      LicensePath = envStr env ''LICENSE_PATH'' ''/aspose/license.lic'',
      ScratchDir = envStr env ''SCRATCH_DIR'' ''/tmp/office-convert'',
      AsposeLibDir = envStr env ''ASPOSE_LIB_DIR'' ''/usr/local/lib/aspose'',
      WorkerBinaryPrefix = envStr env ''WORKER_BINARY_PREFIX'' ''/usr/local/bin/office-convert-worker'',
      LogFormat = envStr env ''LOG_FORMAT'' ''json'',
      LogLevelS = envStr env ''LOG_LEVEL'' ''info'',
      ChunkTimeoutSeconds = fst (envInt64 env ''CHUNK_TIMEOUT_SECONDS'' 300 30 3600 quote),
      MaxInputBytes = fst (envInt64 env ''MAX_INPUT_BYTES'' gib mib gib quote),
      WorkerRAMBytes = fst (envInt64 env ''WORKER_RAM_BYTES'' (6 * gib) (2 * gib) (64 * gib) quote),
      AsposeVersion = envStr env ''ASPOSE_VERSION'' ''unknown'',
      MaxPagesPerChunk = fst (envInt64 env ''MAX_PAGES_PER_CHUNK'' 10000 1 50000 quote),
      MaxMBPerChunk = fst (envInt64 env ''MAX_MB_PER_CHUNK'' 50 1 1000 quote),
      XLSXMinPagesPerChunk = fst (envInt64 env ''XLSX_MIN_PAGES_PER_CHUNK'' 200 1 20000 quote),
      PPTXMinPagesPerChunk = fst (envInt64 env ''PPTX_MIN_PAGES_PER_CHUNK'' 25 1 500 quote),
      PoolMinChunks = fst (envInt64 env ''POOL_MIN_CHUNKS'' 2 1 64 quote),
      XLSXMaxPoolSize = fst (envInt64 env ''XLSX_MAX_POOL_SIZE'' 4 1 16 quote),
      ForkAfterLoad = envBool env ''FORK_AFTER_LOAD'' True,
      RateLimitEnabled = envBool env ''RATE_LIMIT_ENABLED'' True,
      RateLimitPerIPRPM = fst (envInt64 env ''RATE_LIMIT_PER_IP_RPM'' 30 1 10000 quote),
      RateLimitBurst = fst (envInt64 env ''RATE_LIMIT_BURST'' 5 1 1000 quote),
      RateLimitMaxKeys = fst (envInt64 env ''RATE_LIMIT_MAX_KEYS'' 10000 10 1000000 quote),
      RateLimitTrustXFF = envBool env ''RATE_LIMIT_TRUST_XFF'' True,
      GotenbergURL = envStr env ''GOTENBERG_URL'' ''http://gotenberg:3000'',
      GotenbergTimeoutSeconds = fst (envInt64 env ''GOTENBERG_TIMEOUT_SECONDS'' 120 31 600 quote),
      HTMLMaxBytes = fst (envInt64 env ''HTML_MAX_BYTES'' (10 * mib) 1024 (100 * mib) quote),
      S3Enabled = envBool env ''S3_ENABLED'' False,
      S3Region = envStr env ''S3_REGION'' '''',
      S3InputBucketsAllowlist = envStr env ''S3_INPUT_BUCKETS_ALLOWLIST'' '''',
      S3OutputBucketsAllowlist = envStr env ''S3_OUTPUT_BUCKETS_ALLOWLIST'' '''',
      S3DefaultOutputBucket = envStr env ''S3_DEFAULT_OUTPUT_BUCKET'' '''',
      S3OutputKeyTemplate = envStr env ''S3_OUTPUT_KEY_TEMPLATE'' ''pdf/{request_id}.pdf'',
      S3PresignTTLSeconds = fst (envInt64 env ''S3_PRESIGN_TTL_SECONDS'' 900 1 (7 * 24 * 3600) quote),
      S3PublicEndpoint = envStr env ''S3_PUBLIC_ENDPOINT'' ''''\<rparr>"

definition config_errors :: "(string \<Rightarrow> string) \<Rightarrow> (string \<rightharpoonup> string) \<Rightarrow> string list" where
  "config_errors quote env =
     int_fail quote env ''MAX_JOBS'' 1 1 10 @
     int_fail quote env ''PARALLEL'' 4 1 16 @
     fail ''LOG_FORMAT'' (oneOf quote (envStr env ''LOG_FORMAT'' ''json'') [''json'', ''human'']) @
     fail ''LOG_LEVEL'' (oneOf quote (envStr env ''LOG_LEVEL'' ''info'') [''debug'', ''info'', ''warn'', ''error'']) @
     int_fail quote env ''CHUNK_TIMEOUT_SECONDS'' 300 30 3600 @
     int_fail quote env ''MAX_INPUT_BYTES'' gib mib gib @
     int_fail quote env ''WORKER_RAM_BYTES'' (6 * gib) (2 * gib) (64 * gib) @
     int_fail quote env ''MAX_PAGES_PER_CHUNK'' 10000 1 50000 @
     int_fail quote env ''MAX_MB_PER_CHUNK'' 50 1 1000 @
     int_fail quote env ''XLSX_MIN_PAGES_PER_CHUNK'' 200 1 20000 @
     int_fail quote env ''PPTX_MIN_PAGES_PER_CHUNK'' 25 1 500 @
     int_fail quote env ''POOL_MIN_CHUNKS'' 2 1 64 @
     int_fail quote env ''XLSX_MAX_POOL_SIZE'' 4 1 16 @
     int_fail quote env ''RATE_LIMIT_PER_IP_RPM'' 30 1 10000 @
     int_fail quote env ''RATE_LIMIT_BURST'' 5 1 1000 @
     int_fail quote env ''RATE_LIMIT_MAX_KEYS'' 10000 10 1000000 @
     int_fail quote env ''GOTENBERG_TIMEOUT_SECONDS'' 120 31 600 @
     int_fail quote env ''HTML_MAX_BYTES'' (10 * mib) 1024 (100 * mib) @
     int_fail quote env ''S3_PRESIGN_TTL_SECONDS'' 900 1 (7 * 24 * 3600)"

definition Load :: "(string \<Rightarrow> string) \<Rightarrow> (string \<rightharpoonup> string) \<Rightarrow> (string, Settings) result" where
  "Load quote env =
     (let errs = config_errors quote env
      in if length errs > 0 then Err (''invalid configuration:'' @ [CHR 0x0A] @ ''  '' @ join ([CHR 0x0A] @ ''  '') errs)
         else Ok (settings_of quote env))"

definition CacheEnabled :: "Settings \<Rightarrow> bool" where
  "CacheEnabled s = (CacheDir s \<noteq> '''')"

text \<open>The integer variables: name, field, default and bounds.\<close>

definition int_fields :: "(string \<times> (Settings \<Rightarrow> int) \<times> int \<times> int \<times> int) list" where
  "int_fields =
     [(''MAX_JOBS'', MaxJobs, 1, 1, 10),
      (''PARALLEL'', Parallel, 4, 1, 16),
      (''CHUNK_TIMEOUT_SECONDS'', ChunkTimeoutSeconds, 300, 30, 3600),
      (''MAX_INPUT_BYTES'', MaxInputBytes, gib, mib, gib),
      (''WORKER_RAM_BYTES'', WorkerRAMBytes, (6 * gib), (2 * gib), (64 * gib)),
      (''MAX_PAGES_PER_CHUNK'', MaxPagesPerChunk, 10000, 1, 50000),
      (''MAX_MB_PER_CHUNK'', MaxMBPerChunk, 50, 1, 1000),
      (''XLSX_MIN_PAGES_PER_CHUNK'', XLSXMinPagesPerChunk, 200, 1, 20000),
      (''PPTX_MIN_PAGES_PER_CHUNK'', PPTXMinPagesPerChunk, 25, 1, 500),
      (''POOL_MIN_CHUNKS'', PoolMinChunks, 2, 1, 64),
      (''XLSX_MAX_POOL_SIZE'', XLSXMaxPoolSize, 4, 1, 16),
      (''RATE_LIMIT_PER_IP_RPM'', RateLimitPerIPRPM, 30, 1, 10000),
      (''RATE_LIMIT_BURST'', RateLimitBurst, 5, 1, 1000),
      (''RATE_LIMIT_MAX_KEYS'', RateLimitMaxKeys, 10000, 10, 1000000),
      (''GOTENBERG_TIMEOUT_SECONDS'', GotenbergTimeoutSeconds, 120, 31, 600),
      (''HTML_MAX_BYTES'', HTMLMaxBytes, (10 * mib), 1024, (100 * mib)),
      (''S3_PRESIGN_TTL_SECONDS'', S3PresignTTLSeconds, 900, 1, (7 * 24 * 3600))]"

text \<open>The declared bounds.\<close>

definition settings_in_range :: "Settings \<Rightarrow> bool" where
  "settings_in_range s =
     (1 \<le> MaxJobs s \<and> MaxJobs s \<le> 10 \<and>
      1 \<le> Parallel s \<and> Parallel s \<le> 16 \<and>
      30 \<le> ChunkTimeoutSeconds s \<and> ChunkTimeoutSeconds s \<le> 3600 \<and>
      mib \<le> MaxInputBytes s \<and> MaxInputBytes s \<le> gib \<and>
      (2 * gib) \<le> WorkerRAMBytes s \<and> WorkerRAMBytes s \<le> (64 * gib) \<and>
      1 \<le> MaxPagesPerChunk s \<and> MaxPagesPerChunk s \<le> 50000 \<and>
      1 \<le> MaxMBPerChunk s \<and> MaxMBPerChunk s \<le> 1000 \<and>
      1 \<le> XLSXMinPagesPerChunk s \<and> XLSXMinPagesPerChunk s \<le> 20000 \<and>
      1 \<le> PPTXMinPagesPerChunk s \<and> PPTXMinPagesPerChunk s \<le> 500 \<and>
      1 \<le> PoolMinChunks s \<and> PoolMinChunks s \<le> 64 \<and>
      1 \<le> XLSXMaxPoolSize s \<and> XLSXMaxPoolSize s \<le> 16 \<and>
      1 \<le> RateLimitPerIPRPM s \<and> RateLimitPerIPRPM s \<le> 10000 \<and>
      1 \<le> RateLimitBurst s \<and> RateLimitBurst s \<le> 1000 \<and>
      10 \<le> RateLimitMaxKeys s \<and> RateLimitMaxKeys s \<le> 1000000 \<and>
      31 \<le> GotenbergTimeoutSeconds s \<and> GotenbergTimeoutSeconds s \<le> 600 \<and>
      1024 \<le> HTMLMaxBytes s \<and> HTMLMaxBytes s \<le> (100 * mib) \<and>
      1 \<le> S3PresignTTLSeconds s \<and> S3PresignTTLSeconds s \<le> (7 * 24 * 3600) \<and>
      LogFormat s \<in> {''json'', ''human''} \<and>
      LogLevelS s \<in> {''debug'', ''info'', ''warn'', ''error''})"

section \<open>Lemmas\<close>

lemma envInt64_range:
  assumes "int_fail quote env name def lo hi = []" "lo \<le> def" "def \<le> hi"
  shows "lo \<le> fst (envInt64 env name def lo hi quote) \<and> fst (envInt64 env name def lo hi quote) \<le> hi"
  using assms by (auto simp: int_fail_def fail_def envInt64_def split: option.splits if_splits)

lemma oneOf_None: "fail f (oneOf quote v allowed) = [] \<longleftrightarrow> v \<in> set allowed"
  by (auto simp: fail_def oneOf_def split: if_splits)

lemma Load_Ok: "Load quote env = Ok s \<longleftrightarrow> config_errors quote env = [] \<and> s = settings_of quote env"
  by (auto simp: Load_def Let_def)

lemma settings_ranges: "config_errors quote env = [] \<Longrightarrow> settings_in_range (settings_of quote env)"
  unfolding config_errors_def append_is_Nil_conv oneOf_None
  by (simp add: settings_in_range_def settings_of_def envInt64_range mib_def gib_def)

lemma envInt64_set:
  assumes "env (envPrefix @ name) = Some (itoa v)" "lo \<le> v" "v \<le> hi" "- (2 ^ 63) \<le> v" "v < 2 ^ 63"
  shows "envInt64 env name def lo hi quote = (v, None)"
  using assms by (simp add: envInt64_def parse_int_itoa)

lemma int_field_value:
  assumes "Load quote env = Ok s" "(name, get, def, lo, hi) \<in> set int_fields"
  shows "get s = fst (envInt64 env name def lo hi quote) \<and> snd (envInt64 env name def lo hi quote) = None
    \<and> lo \<le> def \<and> def \<le> hi"
proof -
  have "config_errors quote env = []" and s: "s = settings_of quote env" using assms(1) by (simp_all add: Load_Ok)
  then have "\<forall>(name, get, def, lo, hi) \<in> set int_fields. snd (envInt64 env name def lo hi quote) = None"
    unfolding config_errors_def append_is_Nil_conv int_fail_def
    by (simp add: int_fields_def fail_def split: option.splits)
  moreover have "\<forall>(name, get, def, lo, hi) \<in> set int_fields.
      get s = fst (envInt64 env name def lo hi quote) \<and> lo \<le> def \<and> def \<le> hi"
    by (simp add: int_fields_def s settings_of_def mib_def gib_def)
  ultimately show ?thesis using assms(2) by blast
qed

section \<open>Properties\<close>

text \<open>
  a configuration that loads has every integer setting in its declared range; a variable that
  is not set gives the default, a variable that holds the decimal text of \<open>v\<close> gives \<open>v\<close>, and the
  two enumerated settings hold one of their allowed values.
\<close>

theorem load_validates:
  assumes "Load quote env = Ok s" and "(name, get, def, lo, hi) \<in> set int_fields"
  shows "lo \<le> get s \<and> get s \<le> hi \<and>
    (env (envPrefix @ name) = None \<longrightarrow> get s = def) \<and>
    (- (2 ^ 63) \<le> v \<and> v < 2 ^ 63 \<and> env (envPrefix @ name) = Some (itoa v) \<longrightarrow> get s = v) \<and>
    settings_in_range s"
proof -
  have "config_errors quote env = []" "s = settings_of quote env" using assms(1) by (simp_all add: Load_Ok)
  then have "settings_in_range s" by (simp add: settings_ranges)
  with int_field_value [OF assms] show ?thesis
    by (auto simp: envInt64_def parse_int_itoa split: option.splits if_splits)
qed

theorem load_validates_witness:
  "Parallel (settings_of id [''OFFICE_CONVERT_PARALLEL'' \<mapsto> itoa 8]) = 8"
proof -
  have "Load id [''OFFICE_CONVERT_PARALLEL'' \<mapsto> itoa 8] = Ok (settings_of id [''OFFICE_CONVERT_PARALLEL'' \<mapsto> itoa 8])"
    by (simp add: Load_Ok config_errors_def int_fail_def envInt64_def envPrefix_def fail_def oneOf_def envStr_def
        parse_int_itoa)
  from load_validates [OF this, of "''PARALLEL''" Parallel 4 1 16 8] show ?thesis
    by (simp add: int_fields_def envPrefix_def)
qed

text \<open>
  \<^verbatim>\<open>Load\<close> refuses a configuration in which any integer variable is set to a value that is not
  an integer or lies outside its range, so the service does not start with it.
\<close>

theorem load_rejects:
  assumes "(name, get, def, lo, hi) \<in> set int_fields" and "env (envPrefix @ name) = Some raw"
    and "parse_int (trim_space raw) = None \<or> (\<exists>v. parse_int (trim_space raw) = Some v \<and> (v < lo \<or> hi < v))"
  shows "\<exists>msg. Load quote env = Err msg"
proof (cases "Load quote env")
  case (Inr s)
  from int_field_value [OF this assms(1)] assms(2,3) show ?thesis
    by (auto simp: envInt64_def split: option.splits if_splits)
qed simp

theorem load_rejects_witness:
  "\<exists>msg. Load id [''OFFICE_CONVERT_MAX_JOBS'' \<mapsto> itoa 11] = Err msg"
  using load_rejects [of "''MAX_JOBS''" MaxJobs 1 1 10 "[''OFFICE_CONVERT_MAX_JOBS'' \<mapsto> itoa 11]" "itoa 11" id]
  by (simp add: int_fields_def envPrefix_def parse_int_itoa)

end
