(* ===== verification/Planner.thy ===== *)
theory Planner
  imports Errors
begin

text \<open>
  \<^verbatim>\<open>internal/planner/planner.go\<close>: the chunk planner. The float computations are the source's, one
  rounding per operator; the two loops of \<^verbatim>\<open>pageRangeSplit\<close> and the loop of \<^verbatim>\<open>groupSeams\<close>
  are recursive functions over the source's loop variables (the pending seam keeps the source's
  \<^verbatim>\<open>-1\<close> sentinel). The lemmas show that a plan is an ordered, complete, non-overlapping cover
  of the document, that the greedy split is the uniform split with the largest admissible chunk
  size, that the size limits hold for every chunk, and that subdivision halves a chunk exactly.
  Page arithmetic is on unbounded integers; the values a run computes lie between \<open>0\<close> and
  \<open>PageCount + 2\<close>, so a page count below \<open>2 ^ 63 - 2\<close> meets no 64-bit wrap-around.
\<close>

section \<open>Definitions\<close>

definition map_get :: "('k \<rightharpoonup> int) \<Rightarrow> 'k \<Rightarrow> int" where
  "map_get m k = (case m k of None \<Rightarrow> 0 | Some v \<Rightarrow> v)"

definition Amplification :: "FormatName \<rightharpoonup> int" where
  "Amplification = map_of [(FormatDOCX, 5), (FormatPPTX, 8), (FormatXLSX, 4), (FormatPDF, 2)]"

definition SubprocessOverheadMB :: "FormatName \<rightharpoonup> int" where
  "SubprocessOverheadMB =
     map_of [(FormatDOCX, 200), (FormatPPTX, 300), (FormatXLSX, 250), (FormatPDF, 100)]"

definition MinChunks :: int where
  "MinChunks = 2"

definition MaxPagesCeiling :: "FormatName \<rightharpoonup> int" where
  "MaxPagesCeiling =
     map_of [(FormatDOCX, 5000), (FormatPPTX, 5000), (FormatPDF, 2000), (FormatXLSX, 2000)]"

definition balanceFactor :: rat where
  "balanceFactor = 3 / 2"

definition subdivisionFloorPages :: int where
  "subdivisionFloorPages = 1"

definition maxPagesCeilingDefault :: int where
  "maxPagesCeilingDefault = 5000"

definition EstimateChunkMB :: "int \<Rightarrow> int \<Rightarrow> int \<Rightarrow> FormatName \<Rightarrow> rat" where
  "EstimateChunkMB pagesInChunk totalPages inputSizeBytes format =
     (if totalPages \<le> 0 \<or> pagesInChunk \<le> 0 then 0
      else (let perPageBytes = fdiv (fl inputSizeBytes) (fl totalPages)
            in fdiv (fmul (fmul perPageBytes (fl pagesInChunk)) (fl (map_get Amplification format)))
                 (1024 * 1024)))"

record AdaptiveMaxPagesOptions =
  optMaxPagesCeiling :: int
  optMinPagesFloor :: int

text \<open>The two option defaults of \<^verbatim>\<open>AdaptiveMaxPages\<close>.\<close>

definition min_pages_floor :: "AdaptiveMaxPagesOptions \<Rightarrow> int" where
  "min_pages_floor opts = (if optMinPagesFloor opts \<le> 0 then 10 else optMinPagesFloor opts)"

definition max_pages_ceiling :: "AdaptiveMaxPagesOptions \<Rightarrow> FormatName \<Rightarrow> int" where
  "max_pages_ceiling opts format =
     (if optMaxPagesCeiling opts \<le> 0
      then (case MaxPagesCeiling format of Some c \<Rightarrow> c | None \<Rightarrow> maxPagesCeilingDefault)
      else optMaxPagesCeiling opts)"

definition AdaptiveMaxPages ::
  "(rat \<Rightarrow> int) \<Rightarrow> ProbeResult \<Rightarrow> int \<Rightarrow> int \<Rightarrow> AdaptiveMaxPagesOptions \<Rightarrow> int" where
  "AdaptiveMaxPages oor probe workerRAMBytes parallel opts =
     (let format = Format probe;
          minPagesFloor = min_pages_floor opts;
          maxPagesCeiling = max_pages_ceiling opts format
      in if PageCount probe \<le> 0 \<or> SizeBytes probe \<le> 0 then minPagesFloor
         else
           (let amp = map_get Amplification format;
                overheadMB = map_get SubprocessOverheadMB format;
                workerBudgetMB = fmul (fdiv (fl workerRAMBytes) (1024 * 1024)) (3 / 4);
                renderBudgetMB0 = fsub workerBudgetMB (fl overheadMB);
                renderBudgetMB = (if renderBudgetMB0 < 50 then 50 else renderBudgetMB0);
                perPageBytes = fdiv (fl (SizeBytes probe)) (fl (PageCount probe));
                perPageRenderedMB = fdiv (fmul perPageBytes (fl amp)) (1024 * 1024)
            in if perPageRenderedMB \<le> 0 then maxPagesCeiling
               else
                 (let pagesByRAM = f2i oor (fdiv renderBudgetMB perPageRenderedMB);
                      optimal0 =
                        (if PageCount probe > minPagesFloor
                         then (let desiredChunks = (if parallel > MinChunks then parallel else MinChunks);
                                   pagesByParallelism = PageCount probe div desiredChunks
                               in if pagesByParallelism < pagesByRAM then pagesByParallelism
                                  else pagesByRAM)
                         else pagesByRAM);
                      optimal1 = (if optimal0 > maxPagesCeiling then maxPagesCeiling else optimal0)
                  in if optimal1 < minPagesFloor then minPagesFloor else optimal1)))"

text \<open>The estimate summed over a plan, in order.\<close>

fun sum_mb :: "ProbeResult \<Rightarrow> rat \<Rightarrow> Chunk list \<Rightarrow> rat" where
  "sum_mb probe totalMB [] = totalMB"
| "sum_mb probe totalMB (c # cs) =
     sum_mb probe (fadd totalMB (EstimateChunkMB (Pages c) (PageCount probe) (SizeBytes probe) (Format probe))) cs"

text \<open>The inner loop of \<^verbatim>\<open>pageRangeSplit\<close>: grow the chunk that starts at \<open>cursor\<close>.\<close>

definition may_grow :: "ProbeResult \<Rightarrow> int \<Rightarrow> int \<Rightarrow> int \<Rightarrow> bool" where
  "may_grow probe maxPages maxMB candidatePages =
     (\<not> candidatePages > maxPages \<and>
      \<not> EstimateChunkMB candidatePages (PageCount probe) (SizeBytes probe) (Format probe) > fl maxMB)"

function grow :: "ProbeResult \<Rightarrow> int \<Rightarrow> int \<Rightarrow> int \<Rightarrow> int \<Rightarrow> int" where
  "grow probe maxPages maxMB cursor end' =
     (if end' + 1 \<le> PageCount probe \<and> may_grow probe maxPages maxMB (end' + 1 - cursor + 1)
      then grow probe maxPages maxMB cursor (end' + 1)
      else end')"
  by pat_completeness auto
termination
  by (relation "measure (\<lambda>(p, mp, mm, c, e). nat (PageCount p - e))") auto

declare grow.simps [simp del]

lemma grow_ge: "end' \<le> grow probe maxPages maxMB cursor end'"
proof (induction probe maxPages maxMB cursor end' rule: grow.induct)
  case (1 probe maxPages maxMB cursor end')
  show ?case
  proof (cases "end' + 1 \<le> PageCount probe \<and> may_grow probe maxPages maxMB (end' + 1 - cursor + 1)")
    case True
    with "1.IH" [OF True] show ?thesis by (simp add: grow.simps [of probe maxPages maxMB cursor end'])
  next
    case False
    then show ?thesis by (subst grow.simps) auto
  qed
qed

text \<open>The outer loop: \<open>n\<close> chunks have been emitted, the next page is \<open>cursor\<close>.\<close>

function split_loop :: "ProbeResult \<Rightarrow> int \<Rightarrow> int \<Rightarrow> nat \<Rightarrow> int \<Rightarrow> Chunk list" where
  "split_loop probe maxPages maxMB n cursor =
     (if cursor \<le> PageCount probe
      then (let end' = grow probe maxPages maxMB cursor cursor
            in \<lparr>Index = fl (int n), PageStart = cursor, PageEnd = end', NaturalSeam = False\<rparr>
               # split_loop probe maxPages maxMB (Suc n) (end' + 1))
      else [])"
  by pat_completeness auto
termination
proof (relation "measure (\<lambda>(p, mp, mm, n, c). nat (PageCount p + 1 - c))", goal_cases)
  case (2 probe maxPages maxMB n cursor end')
  then show ?case using grow_ge [of cursor probe maxPages maxMB cursor] by simp
qed simp

declare split_loop.simps [simp del]

definition pageRangeSplit :: "ProbeResult \<Rightarrow> int \<Rightarrow> int \<Rightarrow> ChunkPlan" where
  "pageRangeSplit probe maxPages maxMB =
     (let chunks = split_loop probe maxPages maxMB 0 1
      in \<lparr>Chunks = chunks, TotalPages = PageCount probe, EstimatedMB = sum_mb probe 0 chunks\<rparr>)"

text \<open>
  The loop of \<^verbatim>\<open>groupSeams\<close> over the remaining seams, with the number of chunks emitted so far
  and the pending group; the code after the loop is the equation for the empty list.
\<close>

definition seam_chunk :: "nat \<Rightarrow> int \<Rightarrow> int \<Rightarrow> Chunk" where
  "seam_chunk n s e = \<lparr>Index = fl (int n), PageStart = s, PageEnd = e, NaturalSeam = True\<rparr>"

fun group_loop ::
  "ProbeResult \<Rightarrow> int \<Rightarrow> int \<Rightarrow> (int \<times> int) list \<Rightarrow> nat \<Rightarrow> int \<Rightarrow> int \<Rightarrow> int \<Rightarrow> Chunk list" where
  "group_loop probe maxPages maxMB [] n pendingStart pendingEnd pendingPages =
     (if pendingStart \<noteq> -1 then [seam_chunk n pendingStart pendingEnd] else [])"
| "group_loop probe maxPages maxMB ((seamStart, seamEnd) # seams) n pendingStart pendingEnd pendingPages =
     (let seamPages = seamEnd - seamStart + 1
      in if pendingStart = -1
         then group_loop probe maxPages maxMB seams n seamStart seamEnd seamPages
         else
           (let combinedPages = pendingPages + seamPages;
                combinedMB = EstimateChunkMB combinedPages (PageCount probe) (SizeBytes probe) (Format probe)
            in if combinedPages \<le> maxPages \<and> combinedMB \<le> fl maxMB
               then group_loop probe maxPages maxMB seams n pendingStart seamEnd combinedPages
               else seam_chunk n pendingStart pendingEnd
                    # group_loop probe maxPages maxMB seams (Suc n) seamStart seamEnd seamPages))"

definition groupSeams :: "ProbeResult \<Rightarrow> int \<Rightarrow> int \<Rightarrow> ChunkPlan" where
  "groupSeams probe maxPages maxMB =
     (let chunks = group_loop probe maxPages maxMB (NaturalSeams probe) 0 (-1) 0 0
      in \<lparr>Chunks = chunks, TotalPages = PageCount probe, EstimatedMB = sum_mb probe 0 chunks\<rparr>)"

definition chunkMB :: "Chunk \<Rightarrow> ChunkPlan \<Rightarrow> rat" where
  "chunkMB chunk plan =
     (if TotalPages plan = 0 then 0
      else fmul (EstimatedMB plan) (fdiv (fl (Pages chunk)) (fl (TotalPages plan))))"

definition isBalanced :: "ChunkPlan \<Rightarrow> int \<Rightarrow> int \<Rightarrow> bool" where
  "isBalanced plan maxPages maxMB =
     (if Chunks plan = [] then True
      else (let pagesThreshold = fmul (fl maxPages) balanceFactor;
                mbThreshold = fmul (fl maxMB) balanceFactor
            in list_all (\<lambda>c. \<not> fl (Pages c) > pagesThreshold) (Chunks plan) \<and>
               list_all (\<lambda>c. \<not> chunkMB c plan > mbThreshold) (Chunks plan)))"

definition PlanChunks :: "ProbeResult \<Rightarrow> int \<Rightarrow> int \<Rightarrow> ChunkPlan" where
  "PlanChunks probe maxPagesPerChunk maxMBPerChunk =
     (if PageCount probe \<le> 0 then \<lparr>Chunks = [], TotalPages = 0, EstimatedMB = 0\<rparr>
      else
        (let seamPlan = groupSeams probe maxPagesPerChunk maxMBPerChunk
         in if length (NaturalSeams probe) > 0 \<and> isBalanced seamPlan maxPagesPerChunk maxMBPerChunk
            then seamPlan
            else pageRangeSplit probe maxPagesPerChunk maxMBPerChunk))"

definition Subdivide :: "Chunk \<Rightarrow> Chunk list" where
  "Subdivide chunk =
     (let start = PageStart chunk; end' = PageEnd chunk; span = end' - start + 1
      in if span \<le> subdivisionFloorPages then []
         else
           (let half = (span + 1) div 2; mid = start + half - 1
            in [\<lparr>Index = Index chunk, PageStart = start, PageEnd = mid, NaturalSeam = False\<rparr>,
                \<lparr>Index = fadd (Index chunk) (1 / 2), PageStart = mid + 1, PageEnd = end', NaturalSeam = False\<rparr>]))"

text \<open>
  \<^verbatim>\<open>ChunkSHA256\<close>: the text that is hashed, and its hash. \<open>sha256hex\<close> is SHA-256 followed by
  hexadecimal encoding.
\<close>

definition chunk_key_text :: "Chunk \<Rightarrow> string \<Rightarrow> FormatName \<Rightarrow> string" where
  "chunk_key_text chunk sourceSHA256 format =
     sourceSHA256 @ '':'' @ (itoa (PageStart chunk) @ ''-'' @ itoa (PageEnd chunk)) @ '':'' @ format"

definition ChunkSHA256 :: "(string \<Rightarrow> string) \<Rightarrow> Chunk \<Rightarrow> string \<Rightarrow> FormatName \<Rightarrow> string" where
  "ChunkSHA256 sha256hex chunk sourceSHA256 format = sha256hex (chunk_key_text chunk sourceSHA256 format)"

text \<open>
  Reference definitions. Seams that tile a document: consecutive non-empty ranges from page
  \<open>a\<close> to page \<open>n\<close>. The uniform split of the pages \<open>a, \<dots>, n\<close> into chunks of \<open>k\<close> pages.
\<close>

fun seams_tile :: "(int \<times> int) list \<Rightarrow> int \<Rightarrow> int \<Rightarrow> bool" where
  "seams_tile [] a n = (a = n + 1)"
| "seams_tile ((s, e) # seams) a n = (s = a \<and> s \<le> e \<and> seams_tile seams (e + 1) n)"

function uniform_split :: "int \<Rightarrow> nat \<Rightarrow> int \<Rightarrow> int \<Rightarrow> Chunk list" where
  "uniform_split k i a n =
     (if 0 < k \<and> a \<le> n
      then \<lparr>Index = fl (int i), PageStart = a, PageEnd = min n (a + k - 1), NaturalSeam = False\<rparr>
           # uniform_split k (Suc i) (a + k) n
      else [])"
  by pat_completeness auto
termination
  by (relation "measure (\<lambda>(k, i, a, n). nat (n + 1 - a))") auto

declare uniform_split.simps [simp del]

text \<open>The largest chunk size the two limits admit for a document (one page is always admitted).\<close>

definition admissible :: "ProbeResult \<Rightarrow> int \<Rightarrow> int \<Rightarrow> int \<Rightarrow> bool" where
  "admissible probe maxPages maxMB k =
     (1 \<le> k \<and> k \<le> PageCount probe \<and>
      (k = 1 \<or> (k \<le> maxPages \<and> EstimateChunkMB k (PageCount probe) (SizeBytes probe) (Format probe) \<le> fl maxMB)))"

section \<open>The greedy split\<close>

lemma grow_step:
  "grow probe maxPages maxMB cursor end' =
     (if end' + 1 \<le> PageCount probe \<and> may_grow probe maxPages maxMB (end' + 1 - cursor + 1)
      then grow probe maxPages maxMB cursor (end' + 1) else end')"
  by (rule grow.simps)

lemma grow_le: "end' \<le> PageCount probe \<Longrightarrow> grow probe maxPages maxMB cursor end' \<le> PageCount probe"
proof (induction probe maxPages maxMB cursor end' rule: grow.induct)
  case (1 probe maxPages maxMB cursor end')
  then show ?case by (subst grow.simps) (simp split: if_split)
qed

text \<open>Every page taken by the loop passed the test for the chunk that ends at it.\<close>

lemma grow_passed:
  "end' < e \<Longrightarrow> e \<le> grow probe maxPages maxMB cursor end' \<Longrightarrow> may_grow probe maxPages maxMB (e - cursor + 1)"
proof (induction probe maxPages maxMB cursor end' rule: grow.induct)
  case (1 probe maxPages maxMB cursor end')
  show ?case
  proof (cases "end' + 1 \<le> PageCount probe \<and> may_grow probe maxPages maxMB (end' + 1 - cursor + 1)")
    case True
    with "1.prems" have "e \<le> grow probe maxPages maxMB cursor (end' + 1)"
      by (simp add: grow_step [of probe maxPages maxMB cursor end'])
    with "1.IH" [OF True] True "1.prems"(1) show ?thesis
      by (cases "e = end' + 1") auto
  next
    case False
    then have "grow probe maxPages maxMB cursor end' = end'" by (subst grow.simps) auto
    with "1.prems" show ?thesis by simp
  qed
qed

lemma grow_stops:
  "grow probe maxPages maxMB cursor end' + 1 \<le> PageCount probe \<Longrightarrow>
   \<not> may_grow probe maxPages maxMB (grow probe maxPages maxMB cursor end' + 1 - cursor + 1)"
proof (induction probe maxPages maxMB cursor end' rule: grow.induct)
  case (1 probe maxPages maxMB cursor end')
  show ?case
  proof (cases "end' + 1 \<le> PageCount probe \<and> may_grow probe maxPages maxMB (end' + 1 - cursor + 1)")
    case True
    then have "grow probe maxPages maxMB cursor end' = grow probe maxPages maxMB cursor (end' + 1)"
      by (subst grow.simps) simp
    with "1.IH" [OF True] "1.prems" show ?thesis by simp
  next
    case False
    then have "grow probe maxPages maxMB cursor end' = end'" by (subst grow.simps) auto
    with False "1.prems" show ?thesis by auto
  qed
qed

lemma split_loop_covers:
  assumes "1 \<le> cursor" "cursor \<le> PageCount probe + 1"
  shows "covers (split_loop probe maxPages maxMB n cursor) cursor (PageCount probe)"
  using assms
proof (induction probe maxPages maxMB n cursor rule: split_loop.induct)
  case (1 probe maxPages maxMB n cursor)
  show ?case
  proof (cases "cursor \<le> PageCount probe")
    case True
    define e where "e = grow probe maxPages maxMB cursor cursor"
    have e: "cursor \<le> e" "e \<le> PageCount probe"
      unfolding e_def using True by (simp_all add: grow_ge grow_le)
    with "1.IH" [OF True e_def] "1.prems" True show ?thesis
      by (simp add: split_loop.simps [of probe maxPages maxMB n cursor] e_def [symmetric] covers_Cons)
  next
    case False
    then show ?thesis by (simp add: split_loop.simps [of probe maxPages maxMB n cursor] page_simps)
  qed
qed

lemma split_loop_indexed: "indexed n (split_loop probe maxPages maxMB n cursor)"
proof (induction probe maxPages maxMB n cursor rule: split_loop.induct)
  case (1 probe maxPages maxMB n cursor)
  then show ?case
    by (cases "cursor \<le> PageCount probe")
      (simp_all add: split_loop.simps [of probe maxPages maxMB n cursor] Let_def)
qed


text \<open>The estimate grows with the pages, so one limit test decides every smaller size.\<close>

lemma Amplification_nonneg: "0 \<le> map_get Amplification f"
  by (simp add: map_get_def Amplification_def)

lemma EstimateChunkMB_mono:
  assumes "0 \<le> sz" "k \<le> k'"
  shows "EstimateChunkMB k n sz f \<le> EstimateChunkMB k' n sz f"
proof (cases "n \<le> 0 \<or> k \<le> 0")
  case True
  then show ?thesis
    using assms by (auto simp: EstimateChunkMB_def Let_def fdiv_nonneg fmul_nonneg fl_nonneg Amplification_nonneg)
next
  case False
  define a where "a = fdiv (fl sz) (fl n)"
  define m where "m = fl (map_get Amplification f)"
  have a: "0 \<le> a" and m: "0 \<le> m"
    using assms(1) False by (simp_all add: a_def m_def fdiv_nonneg fl_nonneg Amplification_nonneg)
  have k: "0 \<le> fl k" "fl k \<le> fl k'" using False assms(2) by (simp_all add: fl_nonneg fl_mono)
  have "fdiv (fmul (fmul a (fl k)) m) (1024 * 1024) \<le> fdiv (fmul (fmul a (fl k')) m) (1024 * 1024)"
    using a m k by (intro fdiv_mono fmul_mono fmul_nonneg order_refl) simp_all
  with False assms(2) show ?thesis
    by (simp add: EstimateChunkMB_def Let_def a_def m_def)
qed

lemma may_grow_antimono:
  "\<lbrakk>may_grow probe maxPages maxMB k'; k \<le> k'; 0 \<le> SizeBytes probe\<rbrakk> \<Longrightarrow> may_grow probe maxPages maxMB k"
  using EstimateChunkMB_mono [of "SizeBytes probe" k k' "PageCount probe" "Format probe"]
  by (auto simp: may_grow_def)

lemma admissible_iff:
  "admissible probe maxPages maxMB k \<longleftrightarrow> 1 \<le> k \<and> k \<le> PageCount probe \<and> (k = 1 \<or> may_grow probe maxPages maxMB k)"
  by (auto simp: admissible_def may_grow_def not_less)

text \<open>What the inner loop reaches depends only on the largest admissible size.\<close>

lemma grow_uniform:
  assumes adm: "admissible probe maxPages maxMB k"
    and max: "\<And>j. admissible probe maxPages maxMB j \<Longrightarrow> j \<le> k"
    and size: "0 \<le> SizeBytes probe" and cursor: "1 \<le> cursor" "cursor \<le> PageCount probe"
  shows "grow probe maxPages maxMB cursor cursor = min (PageCount probe) (cursor + k - 1)"
proof -
  define e where "e = grow probe maxPages maxMB cursor cursor"
  have e: "cursor \<le> e" "e \<le> PageCount probe"
    unfolding e_def using cursor by (simp_all add: grow_ge grow_le)
  have "e = cursor \<or> may_grow probe maxPages maxMB (e - cursor + 1)"
    using grow_passed [of cursor e probe maxPages maxMB cursor, folded e_def] e(1) by fastforce
  with e cursor have "admissible probe maxPages maxMB (e - cursor + 1)"
    by (simp add: admissible_iff)
  then have up: "e \<le> cursor + k - 1" using max [of "e - cursor + 1"] by simp
  have "e = PageCount probe \<or> e = cursor + k - 1"
  proof (rule ccontr)
    assume "\<not> (e = PageCount probe \<or> e = cursor + k - 1)"
    with e up have lt: "e + 1 \<le> PageCount probe" "e - cursor + 2 \<le> k" by auto
    then have "may_grow probe maxPages maxMB k" using adm e by (auto simp: admissible_iff)
    from may_grow_antimono [OF this _ size, of "e + 1 - cursor + 1"] lt(2)
    have "may_grow probe maxPages maxMB (e + 1 - cursor + 1)" by simp
    with grow_stops [of probe maxPages maxMB cursor cursor, folded e_def] lt(1) show False by blast
  qed
  with up e(2) have "e = min (PageCount probe) (cursor + k - 1)" by linarith
  then show ?thesis by (simp only: e_def)
qed

lemma split_loop_uniform:
  assumes adm: "admissible probe maxPages maxMB k"
    and max: "\<And>j. admissible probe maxPages maxMB j \<Longrightarrow> j \<le> k"
    and size: "0 \<le> SizeBytes probe" and cursor: "1 \<le> cursor"
  shows "split_loop probe maxPages maxMB n cursor = uniform_split k n cursor (PageCount probe)"
  using cursor
proof (induction "nat (PageCount probe + 1 - cursor)" arbitrary: n cursor rule: less_induct)
  case less
  have k: "1 \<le> k" using adm by (simp add: admissible_def)
  show ?case
  proof (cases "cursor \<le> PageCount probe")
    case True
    have g: "grow probe maxPages maxMB cursor cursor = min (PageCount probe) (cursor + k - 1)"
      using adm max size less.prems True by (rule grow_uniform)
    have "uniform_split k (Suc n) (min (PageCount probe) (cursor + k - 1) + 1) (PageCount probe)
        = uniform_split k (Suc n) (cursor + k) (PageCount probe)"
      by (cases "cursor + k - 1 \<le> PageCount probe")
        (simp_all add: uniform_split.simps [of k "Suc n" "PageCount probe + 1"] uniform_split.simps [of k "Suc n" "cursor + k"])
    moreover have "split_loop probe maxPages maxMB (Suc n) (min (PageCount probe) (cursor + k - 1) + 1)
        = uniform_split k (Suc n) (min (PageCount probe) (cursor + k - 1) + 1) (PageCount probe)"
      using True k less.prems by (intro less.hyps) auto
    ultimately show ?thesis
      using True k g
      by (simp add: split_loop.simps [of probe maxPages maxMB n cursor] uniform_split.simps [of k n cursor] Let_def)
  next
    case False
    then show ?thesis
      by (simp add: split_loop.simps [of probe maxPages maxMB n cursor] uniform_split.simps [of k n cursor])
  qed
qed

lemma uniform_split_pages:
  "c \<in> set (uniform_split k i a n) \<Longrightarrow> 1 \<le> Pages c \<and> Pages c \<le> k"
proof (induction k i a n rule: uniform_split.induct)
  case (1 k i a n)
  then show ?case
    by (cases "0 < k \<and> a \<le> n") (auto simp: uniform_split.simps [of k i a n] Pages_def)
qed

section \<open>Seams\<close>

lemma group_loop_covers:
  assumes "seams_tile seams (pe + 1) n" "1 \<le> ps" "ps \<le> pe"
  shows "covers (group_loop probe maxPages maxMB seams i ps pe pp) ps n"
  using assms
proof (induction seams arbitrary: i ps pe pp)
  case Nil
  then show ?case by (simp add: seam_chunk_def page_simps covers_def)
next
  case (Cons seam seams)
  obtain s e where seam: "seam = (s, e)" by (cases seam)
  with Cons.prems have tile: "s = pe + 1" "s \<le> e" "seams_tile seams (e + 1) n" by auto
  have len: "e \<le> n"
    using tile(3) by (induction seams arbitrary: e) fastforce+
  show ?case
    using Cons.prems tile len Cons.IH [of e s] Cons.IH [of e ps]
    by (auto simp: seam Let_def seam_chunk_def intro!: covers_Cons)
qed

lemma group_loop_indexed: "indexed i (group_loop probe maxPages maxMB seams i ps pe pp)"
  by (induction probe maxPages maxMB seams i ps pe pp rule: group_loop.induct)
    (auto simp: Let_def seam_chunk_def)

lemma group_loop_bounds:
  assumes "c \<in> set (group_loop probe maxPages maxMB seams i ps pe pp)"
  shows "NaturalSeam c \<and> PageStart c \<in> insert ps (fst ` set seams) \<and> PageEnd c \<in> insert pe (snd ` set seams)"
  using assms
proof (induction seams arbitrary: i ps pe pp)
  case Nil
  then show ?case by (simp add: seam_chunk_def split: if_splits)
next
  case (Cons seam seams)
  obtain s e where seam: "seam = (s, e)" by (cases seam)
  from Cons.prems consider
      "c = seam_chunk i ps pe"
    | j p where "c \<in> set (group_loop probe maxPages maxMB seams j s e p)"
    | p where "c \<in> set (group_loop probe maxPages maxMB seams i ps e p)"
    by (auto simp: seam Let_def split: if_splits)
  then show ?case
  proof cases
    case 1
    then show ?thesis by (simp add: seam_chunk_def)
  next
    case 2
    then show ?thesis using Cons.IH [OF 2] by (auto simp: seam)
  next
    case 3
    then show ?thesis using Cons.IH [OF 3] by (auto simp: seam)
  qed
qed

lemma groupSeams_covers:
  assumes "seams_tile (NaturalSeams probe) 1 (PageCount probe)" "NaturalSeams probe \<noteq> []"
  shows "covers (Chunks (groupSeams probe maxPages maxMB)) 1 (PageCount probe)"
proof -
  obtain s e seams where seams: "NaturalSeams probe = (s, e) # seams"
    using assms(2) by (metis neq_Nil_conv surj_pair)
  with assms(1) show ?thesis by (simp add: groupSeams_def Let_def group_loop_covers)
qed

lemma groupSeams_bounds:
  assumes "c \<in> set (Chunks (groupSeams probe maxPages maxMB))"
  shows "NaturalSeam c \<and> PageStart c \<in> fst ` set (NaturalSeams probe) \<and> PageEnd c \<in> snd ` set (NaturalSeams probe)"
proof (cases "NaturalSeams probe")
  case Nil
  with assms show ?thesis by (simp add: groupSeams_def Let_def)
next
  case (Cons seam seams)
  obtain s e where "seam = (s, e)" by (cases seam)
  with assms Cons have "c \<in> set (group_loop probe maxPages maxMB seams 0 s e (e - s + 1))"
    by (simp add: groupSeams_def Let_def)
  from group_loop_bounds [OF this] Cons \<open>seam = (s, e)\<close> show ?thesis by auto
qed

section \<open>Size limits\<close>

lemma split_loop_pages:
  assumes "c \<in> set (split_loop probe maxPages maxMB n cursor)"
  shows "Pages c = 1 \<or> may_grow probe maxPages maxMB (Pages c)"
  using assms
proof (induction probe maxPages maxMB n cursor rule: split_loop.induct)
  case (1 probe maxPages maxMB n cursor)
  define e where "e = grow probe maxPages maxMB cursor cursor"
  have here: "e = cursor \<or> may_grow probe maxPages maxMB (e - cursor + 1)"
    using grow_passed [of cursor e probe maxPages maxMB cursor, folded e_def]
      grow_ge [of cursor probe maxPages maxMB cursor, folded e_def] by fastforce
  show ?case
  proof (cases "cursor \<le> PageCount probe")
    case True
    with "1.prems" here "1.IH" [OF True e_def] show ?thesis
      by (auto simp: split_loop.simps [of probe maxPages maxMB n cursor] e_def [symmetric] Pages_def)
  next
    case False
    with "1.prems" show ?thesis by (simp add: split_loop.simps [of probe maxPages maxMB n cursor])
  qed
qed

lemma fl_le_int:
  assumes "fl i \<le> of_int j" "\<bar>j\<bar> < 2 ^ 53 - 1" "0 \<le> i"
  shows "i \<le> j"
proof (rule ccontr)
  assume "\<not> i \<le> j"
  then have "fl (j + 1) \<le> fl i" by (intro fl_mono) simp
  also have "fl (j + 1) = of_int (j + 1)" using assms(2) by (intro fl_int) linarith
  finally show False using assms(1) by simp
qed

lemma isBalanced_pages:
  assumes "isBalanced plan maxPages maxMB" "c \<in> set (Chunks plan)" "1 \<le> maxPages" "3 * maxPages < 2 ^ 53"
    and "0 \<le> Pages c"
  shows "2 * Pages c \<le> 3 * maxPages"
proof -
  have "fmul (fl maxPages) balanceFactor = rnd64 (of_int (3 * maxPages) / 2)"
    using assms(3,4) by (simp add: fl_int fmul_def balanceFactor_def mult.commute)
  also have "\<dots> = of_int (3 * maxPages) / 2"
    using assms(3,4) by (intro f64.rnd_half) simp
  finally have threshold: "fmul (fl maxPages) balanceFactor = of_int (3 * maxPages) / 2" .
  from assms(1,2) have "fl (Pages c) \<le> fmul (fl maxPages) balanceFactor"
    by (auto simp: isBalanced_def Let_def list_all_iff not_less split: if_splits)
  then have "fl (Pages c) \<le> of_int (3 * maxPages) / 2"
    by (simp only: threshold)
  also have "\<dots> \<le> of_int (3 * maxPages div 2 + 1)"
    by linarith
  finally have "fl (Pages c) \<le> of_int (3 * maxPages div 2 + 1)" .
  moreover have "\<bar>3 * maxPages div 2 + 1\<bar> < 2 ^ 53 - 1" using assms(3,4) by simp
  ultimately have "Pages c \<le> 3 * maxPages div 2 + 1" using assms(5) by (rule fl_le_int)
  then have "\<bar>Pages c\<bar> < 2 ^ 53" using assms(3-5) by simp
  then have "of_int (Pages c) \<le> (of_int (3 * maxPages) / 2 :: rat)"
    using \<open>fl (Pages c) \<le> of_int (3 * maxPages) / 2\<close> by (simp add: fl_int)
  then have "of_int (2 * Pages c) \<le> (of_int (3 * maxPages) :: rat)" by simp
  then show ?thesis by (simp only: of_int_le_iff)
qed

section \<open>Subdivision\<close>

lemma Subdivide_cases:
  "(if Pages c \<le> 1 then Subdivide c = []
    else \<exists>l r. Subdivide c = [l, r] \<and> chunk_pages l @ chunk_pages r = chunk_pages c \<and>
      Pages l = (Pages c + 1) div 2 \<and> Pages r = Pages c div 2 \<and> 1 \<le> Pages r \<and>
      Index l = Index c \<and> Index r = fadd (Index c) (1 / 2))"
proof (cases "Pages c \<le> 1")
  case True
  then show ?thesis by (simp add: Subdivide_def Pages_def subdivisionFloorPages_def)
next
  case False
  define m where "m = PageStart c + (Pages c + 1) div 2 - 1"
  have m: "PageStart c \<le> m" "m + 1 \<le> PageEnd c" using False by (simp_all add: m_def Pages_def)
  then have "[PageStart c..m] @ [m + 1..PageEnd c] = [PageStart c..PageEnd c]" by (intro upto_split) simp_all
  moreover have "Subdivide c = [\<lparr>Index = Index c, PageStart = PageStart c, PageEnd = m, NaturalSeam = False\<rparr>,
      \<lparr>Index = fadd (Index c) (1 / 2), PageStart = m + 1, PageEnd = PageEnd c, NaturalSeam = False\<rparr>]" (is "_ = [?l, ?r]")
    using False by (simp add: Subdivide_def Let_def subdivisionFloorPages_def Pages_def m_def)
  moreover have "Pages ?l = (Pages c + 1) div 2" "Pages ?r = Pages c div 2"
    by (simp_all add: Pages_def m_def)
  ultimately show ?thesis using False by (simp add: chunk_pages_def)
qed

lemma Subdivide_smaller:
  assumes "d \<in> set (Subdivide c)"
  shows "1 \<le> Pages d \<and> Pages d < Pages c"
proof -
  have big: "\<not> Pages c \<le> 1" using assms Subdivide_cases [of c] by (auto split: if_splits)
  then obtain l r where "Subdivide c = [l, r]" "Pages l = (Pages c + 1) div 2" "Pages r = Pages c div 2"
    using Subdivide_cases [of c] by auto
  with assms big show ?thesis by auto
qed

section \<open>Adaptive sizing\<close>

definition clamp_pages :: "int \<Rightarrow> int \<Rightarrow> int \<Rightarrow> int \<Rightarrow> int \<Rightarrow> int" where
  "clamp_pages lo hi pages parallel byRAM =
     max lo (min hi (if lo < pages then min (pages div max 2 parallel) byRAM else byRAM))"

lemma if_max: "(if b < a then a else b) = max b (a :: int)" "(if a < b then b else a) = max b a"
  by (simp_all add: max_def)

lemma if_min: "(if b < a then b else a) = min b (a :: int)" "(if a > b then b else a) = min b a"
  by (simp_all add: min_def)

lemma clamp_pages_bounds:
  assumes "lo \<le> hi"
  shows "lo \<le> clamp_pages lo hi n p r" "clamp_pages lo hi n p r \<le> hi"
    "lo < n \<Longrightarrow> clamp_pages lo hi n p r \<le> max lo (n div max 2 p)"
  using assms by (simp_all add: clamp_pages_def max_def min_def)

lemma per_page_pos:
  assumes "f \<in> set AsposeFormats" "0 < sz" "0 < n"
  shows "0 < fdiv (fmul (fdiv (fl sz) (fl n)) (fl (map_get Amplification f))) (1024 * 1024)"
proof -
  have "0 < map_get Amplification f"
    using assms(1) by (auto simp: AsposeFormats_def map_get_def Amplification_def format_defs)
  with assms show ?thesis by (simp add: fdiv_pos fmul_pos fl_pos)
qed

lemma AdaptiveMaxPages_shape:
  assumes "\<not> (PageCount probe \<le> 0 \<or> SizeBytes probe \<le> 0)"
  shows "(Format probe \<notin> set AsposeFormats \<and>
      AdaptiveMaxPages oor probe ram parallel opts = max_pages_ceiling opts (Format probe)) \<or>
    (\<exists>byRAM. AdaptiveMaxPages oor probe ram parallel opts =
      clamp_pages (min_pages_floor opts) (max_pages_ceiling opts (Format probe)) (PageCount probe) parallel byRAM)"
proof (cases "fdiv (fmul (fdiv (fl (SizeBytes probe)) (fl (PageCount probe))) (fl (map_get Amplification (Format probe)))) (1024 * 1024) \<le> 0")
  case True
  then have "Format probe \<notin> set AsposeFormats"
    using per_page_pos [of "Format probe" "SizeBytes probe" "PageCount probe"] assms by force
  with True assms show ?thesis by (simp add: AdaptiveMaxPages_def Let_def)
next
  case False
  define lo hi where "lo = min_pages_floor opts" and "hi = max_pages_ceiling opts (Format probe)"
  define byRAM where "byRAM = f2i oor
     (fdiv (let budget = fsub (fmul (fdiv (fl ram) (1024 * 1024)) (3 / 4)) (fl (map_get SubprocessOverheadMB (Format probe)))
            in if budget < 50 then 50 else budget)
       (fdiv (fmul (fdiv (fl (SizeBytes probe)) (fl (PageCount probe))) (fl (map_get Amplification (Format probe)))) (1024 * 1024)))"
  have "AdaptiveMaxPages oor probe ram parallel opts =
     (let optimal0 = (if PageCount probe > lo
            then (let desired = (if parallel > MinChunks then parallel else MinChunks); byPar = PageCount probe div desired
                  in if byPar < byRAM then byPar else byRAM) else byRAM);
          optimal1 = (if optimal0 > hi then hi else optimal0)
      in if optimal1 < lo then lo else optimal1)"
    unfolding AdaptiveMaxPages_def byRAM_def Let_def lo_def [symmetric] hi_def [symmetric] if_not_P [OF assms] if_not_P [OF False]
    by (rule refl)
  then have "AdaptiveMaxPages oor probe ram parallel opts = clamp_pages lo hi (PageCount probe) parallel byRAM"
    by (simp only: clamp_pages_def Let_def MinChunks_def if_min if_max max.commute [of lo])
  then show ?thesis unfolding lo_def hi_def by blast
qed

lemma PlanChunks_cover:
  assumes "0 < PageCount probe"
    and "NaturalSeams probe = [] \<or> seams_tile (NaturalSeams probe) 1 (PageCount probe)"
  shows "covers (Chunks (PlanChunks probe maxPages maxMB)) 1 (PageCount probe) \<and>
    indexed 0 (Chunks (PlanChunks probe maxPages maxMB)) \<and>
    TotalPages (PlanChunks probe maxPages maxMB) = PageCount probe"
proof -
  have "covers (Chunks (pageRangeSplit probe maxPages maxMB)) 1 (PageCount probe)"
    using assms(1) by (simp add: pageRangeSplit_def Let_def split_loop_covers)
  moreover have "indexed 0 (Chunks (pageRangeSplit probe maxPages maxMB))"
    "indexed 0 (Chunks (groupSeams probe maxPages maxMB))"
    by (simp_all add: pageRangeSplit_def groupSeams_def Let_def split_loop_indexed group_loop_indexed)
  moreover have "TotalPages (pageRangeSplit probe maxPages maxMB) = PageCount probe"
    "TotalPages (groupSeams probe maxPages maxMB) = PageCount probe"
    by (simp_all add: pageRangeSplit_def groupSeams_def Let_def)
  ultimately show ?thesis
    using assms groupSeams_covers [of probe maxPages maxMB] by (auto simp: PlanChunks_def Let_def)
qed

section \<open>Properties\<close>

text \<open>
  C8: \<^verbatim>\<open>PlanChunks\<close> returns an ordered, complete, non-overlapping cover of the document: read in
  order, the chunks hold exactly the pages \<open>1, \<dots>, PageCount\<close>, no chunk is empty, the indices
  count up from 0 and \<^verbatim>\<open>TotalPages\<close> is the page count. The natural seams, when there are any,
  must tile the document; the page-range fallback needs nothing.
\<close>

theorem plan_chunks_cover:
  assumes "0 < PageCount probe"
    and "NaturalSeams probe = [] \<or> seams_tile (NaturalSeams probe) 1 (PageCount probe)"
  shows "covers (Chunks (PlanChunks probe maxPages maxMB)) 1 (PageCount probe) \<and>
    indexed 0 (Chunks (PlanChunks probe maxPages maxMB)) \<and>
    TotalPages (PlanChunks probe maxPages maxMB) = PageCount probe"
  using assms by (rule PlanChunks_cover)

theorem plan_chunks_cover_witness:
  "covers (Chunks (PlanChunks \<lparr>PageCount = 7, Format = FormatPPTX, NaturalSeams = [(1, 3), (4, 7)], SizeBytes = 4096\<rparr> 5 50)) 1 7"
  using plan_chunks_cover [of "\<lparr>PageCount = 7, Format = FormatPPTX, NaturalSeams = [(1, 3), (4, 7)], SizeBytes = 4096\<rparr>" 5 50]
  by simp

text \<open>
  C18: the greedy page-range split is the uniform split: with \<open>k\<close> the largest admissible chunk size
  (within the page limit and the float MB limit, or one page), every chunk has \<open>k\<close> pages except
  the last, which takes the rest.
\<close>

theorem page_range_split_uniform:
  assumes "0 < PageCount probe" and "0 \<le> SizeBytes probe"
  shows "\<exists>k. admissible probe maxPages maxMB k \<and>
    \<not> (\<exists>j. k < j \<and> admissible probe maxPages maxMB j) \<and>
    Chunks (pageRangeSplit probe maxPages maxMB) = uniform_split k 0 1 (PageCount probe)"
proof -
  define K where "K = {k. admissible probe maxPages maxMB k}"
  have "K \<subseteq> {1..PageCount probe}" by (auto simp: K_def admissible_def)
  then have fin: "finite K" by (rule finite_subset) simp
  have "1 \<in> K" using assms(1) by (simp add: K_def admissible_def)
  with fin have Max: "Max K \<in> K" "\<And>j. j \<in> K \<Longrightarrow> j \<le> Max K" by (auto intro: Max_in)
  then have "Chunks (pageRangeSplit probe maxPages maxMB) = uniform_split (Max K) 0 1 (PageCount probe)"
    using assms(2) by (simp add: pageRangeSplit_def Let_def K_def split_loop_uniform)
  with Max show ?thesis by (force simp: K_def not_less)
qed

theorem page_range_split_uniform_witness:
  "\<exists>k. admissible \<lparr>PageCount = 7, Format = FormatPDF, NaturalSeams = [], SizeBytes = 4096\<rparr> 3 50 k \<and>
    Chunks (pageRangeSplit \<lparr>PageCount = 7, Format = FormatPDF, NaturalSeams = [], SizeBytes = 4096\<rparr> 3 50) = uniform_split k 0 1 7"
  using page_range_split_uniform [of "\<lparr>PageCount = 7, Format = FormatPDF, NaturalSeams = [], SizeBytes = 4096\<rparr>" 3 50]
  by auto

text \<open>
  no chunk of a plan exceeds one and a half times the configured page limit, whichever strategy
  was chosen (the balance test is a float comparison), and a chunk of the page-range split that
  has more than one page respects both limits exactly.
\<close>

theorem plan_chunk_limits:
  assumes "1 \<le> maxPages" and "3 * maxPages < 2 ^ 53"
  shows "\<not> (\<exists>c \<in> set (Chunks (PlanChunks probe maxPages maxMB)). 0 \<le> Pages c \<and> 3 * maxPages < 2 * Pages c) \<and>
    \<not> (\<exists>c \<in> set (Chunks (pageRangeSplit probe maxPages maxMB)). Pages c \<noteq> 1 \<and>
         (maxPages < Pages c \<or> fl maxMB < EstimateChunkMB (Pages c) (PageCount probe) (SizeBytes probe) (Format probe)))"
proof -
  have split: "Pages c = 1 \<or> may_grow probe maxPages maxMB (Pages c)"
    if "c \<in> set (Chunks (pageRangeSplit probe maxPages maxMB))" for c
    using that by (simp add: pageRangeSplit_def Let_def split_loop_pages)
  have "2 * Pages c \<le> 3 * maxPages"
    if "c \<in> set (Chunks (PlanChunks probe maxPages maxMB))" "0 \<le> Pages c" for c
    using that split [of c] isBalanced_pages [of "groupSeams probe maxPages maxMB" maxPages maxMB c] assms
    by (auto simp: PlanChunks_def Let_def may_grow_def split: if_splits)
  with split show ?thesis by (fastforce simp: may_grow_def)
qed

theorem plan_chunk_limits_witness:
  "\<not> (\<exists>c \<in> set (Chunks (PlanChunks \<lparr>PageCount = 7, Format = FormatPDF, NaturalSeams = [], SizeBytes = 4096\<rparr> 3 50)).
     0 \<le> Pages c \<and> 3 * 3 < 2 * Pages c)"
  using plan_chunk_limits [of 3 "\<lparr>PageCount = 7, Format = FormatPDF, NaturalSeams = [], SizeBytes = 4096\<rparr>" 50] by simp

text \<open>
  a plan built from natural seams never cuts through a seam: every chunk starts where some seam
  starts, ends where some seam ends, and is marked as natural.
\<close>

theorem seam_plan_respects_seams:
  assumes "c \<in> set (Chunks (groupSeams probe maxPages maxMB))"
  shows "NaturalSeam c \<and> PageStart c \<in> fst ` set (NaturalSeams probe) \<and> PageEnd c \<in> snd ` set (NaturalSeams probe)"
  using assms by (rule groupSeams_bounds)

theorem seam_plan_respects_seams_witness:
  "NaturalSeam (seam_chunk 0 1 3)"
  using seam_plan_respects_seams [of "seam_chunk 0 1 3" "\<lparr>PageCount = 3, Format = FormatPPTX, NaturalSeams = [(1, 3)], SizeBytes = 4096\<rparr>" 5 50]
  by (simp add: groupSeams_def Let_def)

text \<open>
  the adaptive chunk size lies between the floor and the per-format ceiling for every machine
  conversion of an out-of-range float, and for a document of a known format larger than the floor
  it leaves at least as many chunks as there are parallel workers (or the floor).
\<close>

theorem adaptive_max_pages_bounds:
  assumes "min_pages_floor opts \<le> max_pages_ceiling opts (Format probe)"
  shows "min_pages_floor opts \<le> AdaptiveMaxPages oor probe ram parallel opts \<and>
    AdaptiveMaxPages oor probe ram parallel opts \<le> max_pages_ceiling opts (Format probe) \<and>
    (Format probe \<in> set AsposeFormats \<and> 0 < SizeBytes probe \<and> min_pages_floor opts < PageCount probe \<longrightarrow>
       AdaptiveMaxPages oor probe ram parallel opts
         \<le> max (min_pages_floor opts) (PageCount probe div max 2 parallel))"
proof -
  consider
      "PageCount probe \<le> 0 \<or> SizeBytes probe \<le> 0"
    | "Format probe \<notin> set AsposeFormats" "AdaptiveMaxPages oor probe ram parallel opts = max_pages_ceiling opts (Format probe)"
    | byRAM where "AdaptiveMaxPages oor probe ram parallel opts =
        clamp_pages (min_pages_floor opts) (max_pages_ceiling opts (Format probe)) (PageCount probe) parallel byRAM"
    using AdaptiveMaxPages_shape [of probe oor ram parallel opts] by blast
  then show ?thesis
  proof cases
    case 1
    then have "AdaptiveMaxPages oor probe ram parallel opts = min_pages_floor opts"
      by (simp add: AdaptiveMaxPages_def)
    with assms show ?thesis by simp
  next
    case 2
    with assms show ?thesis by simp
  next
    case 3
    then show ?thesis using clamp_pages_bounds [OF assms, of "PageCount probe" parallel byRAM] by simp
  qed
qed

theorem adaptive_max_pages_bounds_witness:
  "AdaptiveMaxPages (\<lambda>_. 0) \<lparr>PageCount = 900, Format = FormatDOCX, NaturalSeams = [], SizeBytes = 4096\<rparr> (6 * 2 ^ 30) 4
     \<lparr>optMaxPagesCeiling = 0, optMinPagesFloor = 0\<rparr> \<le> 225"
  using adaptive_max_pages_bounds [of "\<lparr>optMaxPagesCeiling = 0, optMinPagesFloor = 0\<rparr>"
      "\<lparr>PageCount = 900, Format = FormatDOCX, NaturalSeams = [], SizeBytes = 4096\<rparr>" "\<lambda>_. 0" "6 * 2 ^ 30" 4]
  by (simp add: min_pages_floor_def max_pages_ceiling_def MaxPagesCeiling_def AsposeFormats_def)

text \<open>
  \<^verbatim>\<open>Subdivide\<close> returns nothing exactly for a chunk of at most one page; otherwise it cuts the
  chunk into two non-empty halves that together hold its pages in order, the first at most one
  page longer, with the first keeping the index and the second half an index further.
\<close>

theorem subdivide_halves:
  "(if Pages c \<le> 1 then Subdivide c = []
    else \<exists>l r. Subdivide c = [l, r] \<and> chunk_pages l @ chunk_pages r = chunk_pages c \<and>
      Pages l = (Pages c + 1) div 2 \<and> Pages r = Pages c div 2 \<and> 1 \<le> Pages r \<and>
      Index l = Index c \<and> Index r = fadd (Index c) (1 / 2))"
  by (rule Subdivide_cases)

text \<open>
  two chunk cache keys are equal only for the same source hash, page range and format, as long
  as SHA-256 does not collide on the two key texts (source hashes are hexadecimal, so they contain
  no colon).
\<close>

theorem chunk_key_injective:
  assumes "ChunkSHA256 h c sha f = ChunkSHA256 h c' sha' f'"
    and "inj_on h {chunk_key_text c sha f, chunk_key_text c' sha' f'}"
    and "CHR '':'' \<notin> set sha" "CHR '':'' \<notin> set sha'"
    and "0 \<le> PageStart c" "0 \<le> PageEnd c" "0 \<le> PageStart c'" "0 \<le> PageEnd c'"
  shows "sha = sha' \<and> PageStart c = PageStart c' \<and> PageEnd c = PageEnd c' \<and> f = f'"
proof -
  define d where "d x = utoa (nat (PageStart x)) @ CHR ''-'' # utoa (nat (PageEnd x))" for x :: Chunk
  have key: "chunk_key_text x s g = s @ CHR '':'' # d x @ CHR '':'' # g"
    if "0 \<le> PageStart x" "0 \<le> PageEnd x" for x s g
    using that by (simp add: chunk_key_text_def itoa_def d_def)
  have colon: "CHR '':'' \<notin> set (d x)" for x
    by (auto simp: d_def dest: utoa_digits)
  have dash: "CHR ''-'' \<notin> set (utoa k)" for k
    using utoa_digits [of "CHR ''-''" k] by (auto simp: is_digit_def)
  have "chunk_key_text c sha f = chunk_key_text c' sha' f'"
    by (rule inj_onD [OF assms(2)]) (use assms(1) in \<open>simp_all add: ChunkSHA256_def\<close>)
  with assms key have "sha @ CHR '':'' # d c @ CHR '':'' # f = sha' @ CHR '':'' # d c' @ CHR '':'' # f'" by simp
  then have "sha = sha'" and "d c @ CHR '':'' # f = d c' @ CHR '':'' # f'"
    using append_sep_inj [of sha "CHR '':''" _ sha'] assms(3,4) by blast+
  then have "d c = d c'" and "f = f'" using append_sep_inj [of "d c" "CHR '':''" f "d c'" f'] colon by blast+
  moreover have "utoa (nat (PageStart c)) = utoa (nat (PageStart c')) \<and> utoa (nat (PageEnd c)) = utoa (nat (PageEnd c'))"
    using \<open>d c = d c'\<close> unfolding d_def by (rule append_sep_inj) (use dash in blast)+
  then have "nat (PageStart c) = nat (PageStart c')" and "nat (PageEnd c) = nat (PageEnd c')"
    by (blast dest: utoa_inj)+
  ultimately show ?thesis using assms(5-8) \<open>sha = sha'\<close> by (simp add: eq_nat_nat_iff)
qed

theorem chunk_key_injective_witness:
  "ChunkSHA256 id (seam_chunk 0 1 12) ''ab'' FormatPDF \<noteq> ChunkSHA256 id (seam_chunk 1 11 2) ''ab'' FormatPDF"
  using chunk_key_injective [of id "seam_chunk 0 1 12" "''ab''" FormatPDF "seam_chunk 1 11 2" "''ab''" FormatPDF]
  by (auto simp: seam_chunk_def)

end
