(* ===== verification/Obs.thy ===== *)
theory Obs
  imports Prelude "HOL-Library.Sublist"
begin

text \<open>
  \<^verbatim>\<open>internal/obs\<close>: the in-memory observability stores. \<^verbatim>\<open>ring.go\<close> (bounded per-request event
  rings), \<^verbatim>\<open>progress.go\<close> (the weighted progress of a job) and \<^verbatim>\<open>recent.go\<close> (the
  newest-first ring of finished conversions and its cursor pagination). Every method runs under
  the store's mutex, so an operation is a function on the store; the clock reading it takes is the
  argument \<open>now\<close>, in nanoseconds. A Go map is a partial map; where the code ranges over a map, the
  iteration order is the argument \<open>keys\<close>. Cursor tokens are opaque: \<open>enc\<close> and \<open>dec\<close> stand for the
  base64 and JSON encoding.
\<close>

section \<open>Definitions\<close>

subsection \<open>Event rings\<close>

type_synonym Event = "string \<rightharpoonup> json"

record RingStore =
  ring_max :: int
  ring_ttl :: int
  ring_store :: "string \<rightharpoonup> Event list"
  ring_touched :: "string \<rightharpoonup> int"

definition NewRingStore :: "int \<Rightarrow> int \<Rightarrow> RingStore" where
  "NewRingStore maxPerRequest ttl =
     \<lparr>ring_max = maxPerRequest, ring_ttl = ttl, ring_store = Map.empty, ring_touched = Map.empty\<rparr>"

definition minute :: int where "minute = 60 * 10 ^ 9"

definition HeartbeatStore :: RingStore where "HeartbeatStore = NewRingStore 5000 (30 * minute)"
definition TimingStore :: RingStore where "TimingStore = NewRingStore 1000 (30 * minute)"

definition ring_evictLocked :: "int \<Rightarrow> RingStore \<Rightarrow> RingStore" where
  "ring_evictLocked now s =
     (let expired = (\<lambda>rid. case ring_touched s rid of None \<Rightarrow> False | Some touched \<Rightarrow> now - touched > ring_ttl s)
      in s\<lparr>ring_store := (\<lambda>rid. if expired rid then None else ring_store s rid),
           ring_touched := (\<lambda>rid. if expired rid then None else ring_touched s rid)\<rparr>)"

text \<open>A missing key reads as the nil slice.\<close>

definition slice :: "('k \<rightharpoonup> 'v list) \<Rightarrow> 'k \<Rightarrow> 'v list" where
  "slice m k = (case m k of None \<Rightarrow> [] | Some xs \<Rightarrow> xs)"

definition stamp :: "int \<Rightarrow> Event \<Rightarrow> Event" where
  "stamp now ev = ev(''received_at'' \<mapsto> JInt now)"

definition ring_Record :: "int \<Rightarrow> string \<Rightarrow> Event \<Rightarrow> RingStore \<Rightarrow> RingStore" where
  "ring_Record now requestID ev s =
     (if requestID = '''' \<or> requestID = ''-'' then s
      else
        (let buf0 = slice (ring_store s) requestID @ [stamp now ev];
             buf = (if int (length buf0) > ring_max s then drop (length buf0 - nat (ring_max s)) buf0 else buf0)
         in ring_evictLocked now
              (s\<lparr>ring_store := (ring_store s)(requestID \<mapsto> buf), ring_touched := (ring_touched s)(requestID \<mapsto> now)\<rparr>)))"

definition ring_Get :: "int \<Rightarrow> string \<Rightarrow> RingStore \<Rightarrow> Event list \<times> RingStore" where
  "ring_Get now requestID s =
     (if requestID = '''' then ([], s)
      else (let s' = ring_evictLocked now s in (slice (ring_store s') requestID, s')))"

definition ring_Forget :: "string \<Rightarrow> RingStore \<Rightarrow> RingStore" where
  "ring_Forget requestID s =
     s\<lparr>ring_store := (ring_store s)(requestID := None), ring_touched := (ring_touched s)(requestID := None)\<rparr>"

subsection \<open>Job progress\<close>

record JobProgress =
  TotalChunks :: int
  ChunksRenderedP :: int
  Phase :: string
  LoadProgress :: rat
  MergeDone :: rat
  StartedAt :: rat
  lastTouched :: int

definition WeightedPercent :: "JobProgress \<Rightarrow> rat" where
  "WeightedPercent j =
     (let chunkPct =
            (if TotalChunks j > 0
             then (let p = fdiv (fl (ChunksRenderedP j)) (fl (TotalChunks j)) in if p > 1 then 1 else p)
             else 0);
          pct = fadd (fadd (fmul (rnd64 (3 / 10)) (LoadProgress j)) (fmul (rnd64 (65 / 100)) chunkPct))
                  (fmul (rnd64 (5 / 100)) (MergeDone j))
      in if Phase j = ''complete'' then 1
         else (let pct1 = (if pct < 0 then 0 else pct)
               in if pct1 > rnd64 (999 / 1000) then rnd64 (999 / 1000) else pct1))"

record ProgressUpdate =
  uTotalChunks :: "int option"
  uPhase :: "string option"
  uLoadProgress :: "rat option"
  uMergeDone :: "rat option"
  uIncrementChunks :: int

definition no_update :: ProgressUpdate where
  "no_update =
     \<lparr>uTotalChunks = None, uPhase = None, uLoadProgress = None, uMergeDone = None, uIncrementChunks = 0\<rparr>"

record JobProgressStore =
  prog_ttl :: int
  prog_store :: "string \<rightharpoonup> JobProgress"

definition progressTTL :: int where "progressTTL = 30 * minute"

definition NewJobProgressStore :: JobProgressStore where
  "NewJobProgressStore = \<lparr>prog_ttl = progressTTL, prog_store = Map.empty\<rparr>"

definition prog_evictLocked :: "int \<Rightarrow> JobProgressStore \<Rightarrow> JobProgressStore" where
  "prog_evictLocked now s =
     s\<lparr>prog_store := (\<lambda>rid. case prog_store s rid of
          None \<Rightarrow> None
        | Some jp \<Rightarrow> if now - lastTouched jp > prog_ttl s then None else Some jp)\<rparr>"

definition clamp01 :: "rat \<Rightarrow> rat" where
  "clamp01 v = (if v < 0 then 0 else if v > 1 then 1 else v)"

definition nowEpoch :: "int \<Rightarrow> rat" where
  "nowEpoch now = fdiv (fl now) (10 ^ 9)"

definition init_progress :: "int \<Rightarrow> JobProgress" where
  "init_progress now =
     \<lparr>TotalChunks = 0, ChunksRenderedP = 0, Phase = ''init'', LoadProgress = 0, MergeDone = 0,
      StartedAt = nowEpoch now, lastTouched = now\<rparr>"

text \<open>The field assignments of \<^verbatim>\<open>Update\<close> on one entry.\<close>

definition apply_update :: "int \<Rightarrow> ProgressUpdate \<Rightarrow> JobProgress \<Rightarrow> JobProgress" where
  "apply_update now u jp0 =
     (let jp1 = (case uTotalChunks u of Some n \<Rightarrow> jp0\<lparr>TotalChunks := n\<rparr> | None \<Rightarrow> jp0);
          jp2 = (case uPhase u of Some p \<Rightarrow> jp1\<lparr>Phase := p\<rparr> | None \<Rightarrow> jp1);
          jp3 = (case uLoadProgress u of
                   Some v \<Rightarrow> if v > LoadProgress jp2 then jp2\<lparr>LoadProgress := clamp01 v\<rparr> else jp2
                 | None \<Rightarrow> jp2);
          jp4 = (case uMergeDone u of Some v \<Rightarrow> jp3\<lparr>MergeDone := clamp01 v\<rparr> | None \<Rightarrow> jp3);
          jp5 = (if uIncrementChunks u \<noteq> 0
                 then jp4\<lparr>ChunksRenderedP := ChunksRenderedP jp4 + uIncrementChunks u\<rparr> else jp4)
      in jp5\<lparr>lastTouched := now\<rparr>)"

definition Update :: "int \<Rightarrow> string \<Rightarrow> ProgressUpdate \<Rightarrow> JobProgressStore \<Rightarrow> JobProgressStore" where
  "Update now rid u s =
     (if rid = '''' \<or> rid = ''-'' then s
      else
        (let s' = prog_evictLocked now s;
             jp = (case prog_store s' rid of None \<Rightarrow> init_progress now | Some jp \<Rightarrow> jp)
         in s'\<lparr>prog_store := (prog_store s')(rid \<mapsto> apply_update now u jp)\<rparr>))"

definition prog_Get :: "int \<Rightarrow> string \<Rightarrow> JobProgressStore \<Rightarrow> JobProgress option \<times> JobProgressStore" where
  "prog_Get now rid s =
     (if rid = '''' then (None, s)
      else (let s' = prog_evictLocked now s in (prog_store s' rid, s')))"

definition prog_Forget :: "string \<Rightarrow> JobProgressStore \<Rightarrow> JobProgressStore" where
  "prog_Forget rid s = s\<lparr>prog_store := (prog_store s)(rid := None)\<rparr>"

definition Active ::
  "int \<Rightarrow> string list \<Rightarrow> JobProgressStore \<Rightarrow> (string \<times> JobProgress) list \<times> JobProgressStore" where
  "Active now keys s =
     (let s' = prog_evictLocked now s
      in (List.map_filter (\<lambda>rid. case prog_store s' rid of
             None \<Rightarrow> None
           | Some jp \<Rightarrow> if Phase jp \<noteq> ''complete'' then Some (rid, jp) else None) keys, s'))"

subsection \<open>Recent conversions\<close>

record ConversionRecord =
  RequestID :: string
  CompletionTS :: rat
  Source :: string
  InputFilename :: "string option"
  RecFormat :: string
  RecPageCount :: "int option"
  DurationMS :: int
  Status :: string
  ErrorCode :: "string option"
  OutputS3URI :: "string option"
  OutputSizeBytes :: "int option"
  Engine :: string

record RecentStore =
  recent_buf :: "ConversionRecord list"
  recent_maxlen :: int

definition DefaultMaxRecent :: int where "DefaultMaxRecent = 200"

definition NewRecentStore :: "int \<Rightarrow> RecentStore" where
  "NewRecentStore maxlen = \<lparr>recent_buf = [], recent_maxlen = maxlen\<rparr>"

definition recent_Record :: "ConversionRecord \<Rightarrow> RecentStore \<Rightarrow> RecentStore" where
  "recent_Record rec s =
     (let buf = rec # recent_buf s
      in s\<lparr>recent_buf := (if int (length buf) > recent_maxlen s then take (nat (recent_maxlen s)) buf else buf)\<rparr>)"

definition Snapshot :: "RecentStore \<Rightarrow> ConversionRecord list" where
  "Snapshot s = recent_buf s"

definition Size :: "RecentStore \<Rightarrow> int" where
  "Size s = int (length (recent_buf s))"

definition recent_Clear :: "RecentStore \<Rightarrow> RecentStore" where
  "recent_Clear s = s\<lparr>recent_buf := []\<rparr>"

definition Matches :: "ConversionRecord \<Rightarrow> string \<Rightarrow> bool" where
  "Matches rec flt =
     (if flt = ''all'' then True
      else if flt = ''ui'' then Source rec = ''ui''
      else if flt = ''cross'' then Source rec = ''cross''
      else if flt = ''failed'' then Status rec = ''failed''
      else False)"

record Cursor =
  TS :: rat
  ID :: string

record Page =
  Entries :: "ConversionRecord list"
  NextCursor :: "string option"
  HasMore :: bool
  StaleCursor :: bool
  BufferSize :: int

definition lessTuple :: "rat \<Rightarrow> string \<Rightarrow> rat \<Rightarrow> string \<Rightarrow> bool" where
  "lessTuple aTS aID bTS bID = (if aTS \<noteq> bTS then aTS < bTS else aID < bID)"

definition cursor_of :: "ConversionRecord \<Rightarrow> Cursor" where
  "cursor_of r = \<lparr>TS = CompletionTS r, ID = RequestID r\<rparr>"

definition makePage :: "(Cursor \<Rightarrow> string) \<Rightarrow> ConversionRecord list \<Rightarrow> int \<Rightarrow> int \<Rightarrow> bool \<Rightarrow> Page" where
  "makePage enc items limit bufferSize stale =
     (let entries = (if int (length items) > limit then take (nat limit) items else items);
          hasMore = int (length items) > limit;
          next' = (if hasMore \<and> length entries > 0 then Some (enc (cursor_of (last entries))) else None)
      in \<lparr>Entries = entries, NextCursor = next', HasMore = hasMore, StaleCursor = stale, BufferSize = bufferSize\<rparr>)"

definition Paginate ::
  "(Cursor \<Rightarrow> string) \<Rightarrow> ConversionRecord list \<Rightarrow> Cursor option \<Rightarrow> int \<Rightarrow> int \<Rightarrow> Page" where
  "Paginate enc items cursor limit bufferSize =
     (case cursor of
        None \<Rightarrow> makePage enc items limit bufferSize False
      | Some c \<Rightarrow>
          if \<not> list_ex (\<lambda>r. CompletionTS r = TS c \<and> RequestID r = ID c) items
          then makePage enc items limit bufferSize True
          else makePage enc (filter (\<lambda>r. lessTuple (CompletionTS r) (RequestID r) (TS c) (ID c)) items)
                 limit bufferSize False)"

text \<open>A client that follows the cursors, with the number of requests it may make.\<close>

fun walk ::
  "(Cursor \<Rightarrow> string) \<Rightarrow> (string \<Rightarrow> Cursor option) \<Rightarrow> ConversionRecord list \<Rightarrow> int \<Rightarrow> nat \<Rightarrow> Cursor option
   \<Rightarrow> ConversionRecord list option" where
  "walk enc dec items limit 0 cursor = None"
| "walk enc dec items limit (Suc n) cursor =
     (let p = Paginate enc items cursor limit (int (length items))
      in case NextCursor p of
           None \<Rightarrow> Some (Entries p)
         | Some tok \<Rightarrow> map_option (\<lambda>rest. Entries p @ rest) (walk enc dec items limit n (dec tok)))"

text \<open>
  Reference definitions. The operations on a ring store as a trace, the events a trace recorded for
  a request since it was last forgotten, and the newest \<open>n\<close> elements of a list.
\<close>

datatype ring_op = Rec int string Event | Get int string | Forget string

fun ring_exec :: "ring_op \<Rightarrow> RingStore \<Rightarrow> RingStore" where
  "ring_exec (Rec t rid ev) s = ring_Record t rid ev s"
| "ring_exec (Get t rid) s = snd (ring_Get t rid s)"
| "ring_exec (Forget rid) s = ring_Forget rid s"

fun log_op :: "string \<Rightarrow> ring_op \<Rightarrow> Event list \<Rightarrow> Event list" where
  "log_op rid (Rec t rid' ev) h = (if rid' = rid \<and> rid \<noteq> '''' \<and> rid \<noteq> ''-'' then h @ [stamp t ev] else h)"
| "log_op rid (Get t rid') h = h"
| "log_op rid (Forget rid') h = (if rid' = rid then [] else h)"

fun op_time :: "ring_op \<Rightarrow> int option" where
  "op_time (Rec t rid ev) = Some t"
| "op_time (Get t rid) = Some t"
| "op_time (Forget rid) = None"

definition newest :: "nat \<Rightarrow> 'a list \<Rightarrow> 'a list" where
  "newest n xs = drop (length xs - n) xs"

text \<open>A valid progress entry, and an update that only moves a job forward.\<close>

definition progress_ok :: "JobProgress \<Rightarrow> bool" where
  "progress_ok j =
     (0 \<le> LoadProgress j \<and> LoadProgress j \<le> 1 \<and> 0 \<le> MergeDone j \<and> MergeDone j \<le> 1 \<and> 0 \<le> ChunksRenderedP j)"

definition store_ok :: "JobProgressStore \<Rightarrow> bool" where
  "store_ok s = (\<forall>jp \<in> ran (prog_store s). progress_ok jp)"

definition forward :: "ProgressUpdate \<Rightarrow> JobProgress \<Rightarrow> bool" where
  "forward u j =
     (0 \<le> uIncrementChunks u \<and>
      (case uTotalChunks u of None \<Rightarrow> True | Some n \<Rightarrow> n = TotalChunks j) \<and>
      (case uMergeDone u of None \<Rightarrow> True | Some v \<Rightarrow> MergeDone j \<le> v) \<and>
      (case uPhase u of None \<Rightarrow> True | Some p \<Rightarrow> Phase j = ''complete'' \<longrightarrow> p = ''complete''))"

definition descending :: "ConversionRecord list \<Rightarrow> bool" where
  "descending = sorted_wrt (\<lambda>a b. lessTuple (CompletionTS b) (RequestID b) (CompletionTS a) (RequestID a))"

definition finished :: "rat \<Rightarrow> string \<Rightarrow> ConversionRecord" where
  "finished ts rid =
     \<lparr>RequestID = rid, CompletionTS = ts, Source = ''ui'', InputFilename = None, RecFormat = ''pdf'',
      RecPageCount = None, DurationMS = 0, Status = ''success'', ErrorCode = None, OutputS3URI = None,
      OutputSizeBytes = None, Engine = ''''\<rparr>"

section \<open>Event rings\<close>

lemma newest_snoc: "newest n (newest n xs @ [y]) = newest n (xs @ [y])"
proof (cases n)
  case (Suc m)
  have "length xs - (length xs - Suc m + m) + (length xs - Suc m) = length xs - m" by linarith
  then show ?thesis by (simp add: newest_def Suc)
qed (simp add: newest_def)

lemma length_newest [simp]: "length (newest n xs) = min n (length xs)"
  by (simp add: newest_def)

lemma suffix_newest: "suffix xs ys \<Longrightarrow> suffix (newest n xs) ys"
  unfolding newest_def by (rule suffix_order.trans [OF suffix_drop])

lemma ring_Record_store:
  "0 \<le> ring_max s \<Longrightarrow> rid \<noteq> '''' \<Longrightarrow> rid \<noteq> ''-'' \<Longrightarrow>
   ring_Record now rid ev s = ring_evictLocked now
     (s\<lparr>ring_store := (ring_store s)(rid \<mapsto> newest (nat (ring_max s)) (slice (ring_store s) rid @ [stamp now ev])),
        ring_touched := (ring_touched s)(rid \<mapsto> now)\<rparr>)"
  by (auto simp: ring_Record_def Let_def newest_def not_less)

lemma slice_upd [simp]: "slice (m(k \<mapsto> v)) k' = (if k' = k then v else slice m k')"
  by (simp add: slice_def)

lemma slice_del [simp]: "slice (m(k := None)) k' = (if k' = k then [] else slice m k')"
  by (simp add: slice_def)

lemma slice_evict: "slice (ring_store (ring_evictLocked now s)) rid = slice (ring_store s) rid \<or>
    slice (ring_store (ring_evictLocked now s)) rid = []"
  by (simp add: ring_evictLocked_def Let_def slice_def)

lemma ring_evict_sel [simp]:
  "ring_max (ring_evictLocked now s) = ring_max s" "ring_ttl (ring_evictLocked now s) = ring_ttl s"
  by (simp_all add: ring_evictLocked_def Let_def)

lemma ring_exec_sel [simp]:
  "ring_max (ring_exec x s) = ring_max s" "ring_ttl (ring_exec x s) = ring_ttl s"
  by (cases x; simp add: ring_Record_def ring_Get_def ring_Forget_def Let_def)+

text \<open>The invariant of a ring against the events recorded: the buffer is a bounded suffix of them.\<close>

definition ring_inv :: "(string \<Rightarrow> Event list) \<Rightarrow> RingStore \<Rightarrow> bool" where
  "ring_inv h s =
     (0 \<le> ring_max s \<and> dom (ring_store s) = dom (ring_touched s) \<and>
      (\<forall>rid. suffix (slice (ring_store s) rid) (h rid) \<and> int (length (slice (ring_store s) rid)) \<le> ring_max s))"

lemma ring_inv_evict: "ring_inv h s \<Longrightarrow> ring_inv h (ring_evictLocked now s)"
proof -
  assume inv: "ring_inv h s"
  have "suffix (slice (ring_store (ring_evictLocked now s)) rid) (h rid) \<and>
      int (length (slice (ring_store (ring_evictLocked now s)) rid)) \<le> ring_max s" for rid
    using slice_evict [of now s rid] inv by (auto simp: ring_inv_def)
  moreover have "dom (ring_store (ring_evictLocked now s)) = dom (ring_touched (ring_evictLocked now s))"
  proof -
    have "ring_store s x = None \<longleftrightarrow> ring_touched s x = None" for x
      using inv by (metis domIff ring_inv_def)
    then show ?thesis by (intro set_eqI) (simp add: ring_evictLocked_def Let_def domIff del: not_None_eq)
  qed
  ultimately show ?thesis using inv by (simp add: ring_inv_def)
qed

lemma ring_inv_exec [inv_intros]:
  assumes "ring_inv h s"
  shows "ring_inv (\<lambda>rid. log_op rid x (h rid)) (ring_exec x s)"
proof (cases x)
  case (Rec t rid ev)
  show ?thesis
  proof (cases "rid = '''' \<or> rid = ''-''")
    case True
    then have "ring_exec x s = s" "(\<lambda>r. log_op r x (h r)) = h" by (auto simp: Rec ring_Record_def)
    with assms show ?thesis by simp
  next
    case False
    have max: "0 \<le> ring_max s" and suf: "suffix (slice (ring_store s) rid) (h rid)"
      using assms by (simp_all add: ring_inv_def)
    then have "suffix (newest (nat (ring_max s)) (slice (ring_store s) rid @ [stamp t ev])) (h rid @ [stamp t ev])"
      by (intro suffix_newest) simp
    with assms False have "ring_inv (\<lambda>r. log_op r x (h r))
        (s\<lparr>ring_store := (ring_store s)(rid \<mapsto> newest (nat (ring_max s)) (slice (ring_store s) rid @ [stamp t ev])),
           ring_touched := (ring_touched s)(rid \<mapsto> t)\<rparr>)"
      by (auto simp: ring_inv_def Rec)
    with False max show ?thesis by (simp add: Rec ring_Record_store ring_inv_evict)
  qed
next
  case (Get t rid)
  with assms show ?thesis by (simp add: ring_Get_def Let_def ring_inv_evict)
next
  case (Forget rid)
  with assms show ?thesis by (auto simp: ring_inv_def ring_Forget_def)
qed

lemma ring_inv_run:
  "ring_inv h s \<Longrightarrow> ring_inv (\<lambda>rid. fold (log_op rid) tr (h rid)) (fold ring_exec tr s)"
proof (induction tr arbitrary: h s)
  case (Cons x tr)
  then show ?case using Cons.IH [OF ring_inv_exec [OF Cons.prems, of x]] by simp
qed simp

text \<open>With every clock reading inside one TTL, nothing expires.\<close>

definition touched_within :: "int \<Rightarrow> int \<Rightarrow> RingStore \<Rightarrow> bool" where
  "touched_within lo hi s = (\<forall>t \<in> ran (ring_touched s). lo \<le> t \<and> t \<le> hi)"

lemma evict_within: "touched_within lo hi s \<Longrightarrow> now \<le> hi \<Longrightarrow> hi - lo \<le> ring_ttl s \<Longrightarrow> ring_evictLocked now s = s"
proof -
  assume prems: "touched_within lo hi s" "now \<le> hi" "hi - lo \<le> ring_ttl s"
  have "\<not> (case ring_touched s rid of None \<Rightarrow> False | Some touched \<Rightarrow> now - touched > ring_ttl s)" for rid
    using prems by (auto simp: touched_within_def ran_def split: option.splits)
  then show ?thesis by (simp add: ring_evictLocked_def Let_def)
qed

lemma ran_upd_subset: "x \<in> ran (m(k \<mapsto> v)) \<Longrightarrow> x = v \<or> x \<in> ran m"
  by (auto simp: ran_def split: if_splits)

lemma ring_exec_within:
  assumes "touched_within lo hi s" "hi - lo \<le> ring_ttl s" "0 \<le> ring_max s"
    and "\<forall>t. op_time x = Some t \<longrightarrow> lo \<le> t \<and> t \<le> hi"
    and "slice (ring_store s) rid = newest (nat (ring_max s)) h" "\<forall>r. x \<noteq> Forget r"
  shows "touched_within lo hi (ring_exec x s) \<and>
    slice (ring_store (ring_exec x s)) rid = newest (nat (ring_max s)) (log_op rid x h)"
proof (cases x)
  case (Rec t rid' ev)
  show ?thesis
  proof (cases "rid' = '''' \<or> rid' = ''-''")
    case True
    with assms show ?thesis by (auto simp: Rec ring_Record_def)
  next
    case False
    define s' where "s' = s\<lparr>ring_store := (ring_store s)(rid' \<mapsto> newest (nat (ring_max s)) (slice (ring_store s) rid' @ [stamp t ev])),
        ring_touched := (ring_touched s)(rid' \<mapsto> t)\<rparr>"
    have within: "touched_within lo hi s'"
      using assms(1,4) by (auto simp: s'_def touched_within_def Rec dest!: ran_upd_subset)
    moreover have "ring_ttl s' = ring_ttl s" by (simp add: s'_def)
    ultimately have "ring_evictLocked t s' = s'" using assms(2,4) Rec by (simp add: evict_within)
    then have "ring_exec x s = s'"
      using assms(3) False by (simp add: Rec ring_Record_store s'_def)
    with within show ?thesis using assms(5) False by (auto simp: s'_def Rec newest_snoc)
  qed
next
  case (Get t rid')
  with assms show ?thesis by (simp add: ring_Get_def Let_def evict_within)
next
  case (Forget r)
  with assms show ?thesis by simp
qed

lemma ring_run_within:
  assumes "touched_within lo hi s" "hi - lo \<le> ring_ttl s" "0 \<le> ring_max s"
    and "\<forall>x \<in> set tr. (\<forall>t. op_time x = Some t \<longrightarrow> lo \<le> t \<and> t \<le> hi) \<and> (\<forall>r. x \<noteq> Forget r)"
    and "slice (ring_store s) rid = newest (nat (ring_max s)) h"
  shows "touched_within lo hi (fold ring_exec tr s) \<and>
    slice (ring_store (fold ring_exec tr s)) rid = newest (nat (ring_max s)) (fold (log_op rid) tr h)"
  using assms
proof (induction tr arbitrary: s h)
  case (Cons x tr)
  have "touched_within lo hi (ring_exec x s) \<and>
      slice (ring_store (ring_exec x s)) rid = newest (nat (ring_max s)) (log_op rid x h)"
    using Cons.prems by (intro ring_exec_within) auto
  with Cons.prems Cons.IH [of "ring_exec x s" "log_op rid x h"] show ?case by simp
qed simp

section \<open>Progress\<close>

lemma fadd_mono: "a \<le> a' \<Longrightarrow> b \<le> b' \<Longrightarrow> fadd a b \<le> fadd a' b'"
  unfolding fadd_def by (intro f64.rnd_mono add_mono)

lemma weight_nonneg: "0 \<le> rnd64 (3 / 10)" "0 \<le> rnd64 (65 / 100)" "0 \<le> rnd64 (5 / 100)"
  by (simp_all add: rnd64_nonneg)

lemma cap_below_one: "rnd64 (999 / 1000) < 1"
  using f64.rnd_upper [of "999 / 1000"] by simp

text \<open>The weighted sum, and that it grows with its three parts.\<close>

definition chunk_pct :: "JobProgress \<Rightarrow> rat" where
  "chunk_pct j =
     (if TotalChunks j > 0 then min 1 (fdiv (fl (ChunksRenderedP j)) (fl (TotalChunks j))) else 0)"

definition weighted :: "rat \<Rightarrow> rat \<Rightarrow> rat \<Rightarrow> rat" where
  "weighted l c m = fadd (fadd (fmul (rnd64 (3 / 10)) l) (fmul (rnd64 (65 / 100)) c)) (fmul (rnd64 (5 / 100)) m)"

lemma WeightedPercent_eq:
  "Phase j \<noteq> ''complete'' \<Longrightarrow>
   WeightedPercent j = min (rnd64 (999 / 1000)) (max 0 (weighted (LoadProgress j) (chunk_pct j) (MergeDone j)))"
  by (auto simp: WeightedPercent_def weighted_def chunk_pct_def Let_def min_def max_def)

lemma WeightedPercent_range:
  "0 \<le> WeightedPercent j \<and> WeightedPercent j \<le> 1 \<and> (WeightedPercent j = 1 \<longleftrightarrow> Phase j = ''complete'')"
proof (cases "Phase j = ''complete''")
  case False
  moreover have "0 \<le> rnd64 (999 / 1000)" by (simp add: rnd64_nonneg)
  ultimately show ?thesis using cap_below_one by (auto simp: WeightedPercent_eq min_def max_def)
qed (simp add: WeightedPercent_def)

lemma weighted_mono:
  "0 \<le> l \<Longrightarrow> l \<le> l' \<Longrightarrow> 0 \<le> c \<Longrightarrow> c \<le> c' \<Longrightarrow> 0 \<le> m \<Longrightarrow> m \<le> m' \<Longrightarrow> weighted l c m \<le> weighted l' c' m'"
  unfolding weighted_def by (intro fadd_mono fmul_mono weight_nonneg order_refl)

lemma chunk_pct_nonneg: "progress_ok j \<Longrightarrow> 0 \<le> chunk_pct j"
  by (simp add: chunk_pct_def progress_ok_def fdiv_nonneg fl_nonneg)

lemma chunk_pct_mono:
  assumes "TotalChunks j = TotalChunks j'" "ChunksRenderedP j \<le> ChunksRenderedP j'"
  shows "chunk_pct j \<le> chunk_pct j'"
proof (cases "0 < TotalChunks j'")
  case True
  then have "fdiv (fl (ChunksRenderedP j)) (fl (TotalChunks j')) \<le> fdiv (fl (ChunksRenderedP j')) (fl (TotalChunks j'))"
    using assms(2) by (intro fdiv_mono fl_mono fl_pos)
  with assms(1) show ?thesis by (simp add: chunk_pct_def min_def)
qed (use assms in \<open>simp add: chunk_pct_def\<close>)

lemma WeightedPercent_mono:
  assumes "progress_ok j" "TotalChunks j = TotalChunks j'" "ChunksRenderedP j \<le> ChunksRenderedP j'"
    and "LoadProgress j \<le> LoadProgress j'" "MergeDone j \<le> MergeDone j'"
    and "Phase j = ''complete'' \<longrightarrow> Phase j' = ''complete''"
  shows "WeightedPercent j \<le> WeightedPercent j'"
proof (cases "Phase j' = ''complete''")
  case True
  then show ?thesis using WeightedPercent_range [of j] WeightedPercent_range [of j'] by simp
next
  case False
  have "weighted (LoadProgress j) (chunk_pct j) (MergeDone j) \<le> weighted (LoadProgress j') (chunk_pct j') (MergeDone j')"
    using assms by (intro weighted_mono chunk_pct_nonneg chunk_pct_mono) (simp_all add: progress_ok_def)
  with False assms(6) show ?thesis by (auto simp: WeightedPercent_eq min_def max_def)
qed

lemma clamp01_range [simp]: "0 \<le> clamp01 v" "clamp01 v \<le> 1"
  by (simp_all add: clamp01_def)

lemma clamp01_ge: "x \<le> 1 \<Longrightarrow> x \<le> v \<Longrightarrow> x \<le> clamp01 v"
  by (simp add: clamp01_def)

lemma apply_update_sel:
  "TotalChunks (apply_update now u j) = (case uTotalChunks u of None \<Rightarrow> TotalChunks j | Some n \<Rightarrow> n)"
  "Phase (apply_update now u j) = (case uPhase u of None \<Rightarrow> Phase j | Some p \<Rightarrow> p)"
  "LoadProgress (apply_update now u j) =
     (case uLoadProgress u of None \<Rightarrow> LoadProgress j | Some v \<Rightarrow> if v > LoadProgress j then clamp01 v else LoadProgress j)"
  "MergeDone (apply_update now u j) = (case uMergeDone u of None \<Rightarrow> MergeDone j | Some v \<Rightarrow> clamp01 v)"
  "ChunksRenderedP (apply_update now u j) = ChunksRenderedP j + uIncrementChunks u"
  "lastTouched (apply_update now u j) = now"
  by (simp_all add: apply_update_def Let_def split: option.split)

lemma apply_update_ok [inv_intros]:
  "progress_ok j \<Longrightarrow> 0 \<le> uIncrementChunks u \<Longrightarrow> progress_ok (apply_update now u j)"
  by (simp add: progress_ok_def apply_update_sel split: option.split)

lemma apply_update_forward:
  assumes "progress_ok j" "forward u j"
  shows "LoadProgress j \<le> LoadProgress (apply_update now u j) \<and>
    WeightedPercent j \<le> WeightedPercent (apply_update now u j)"
proof -
  have l: "LoadProgress j \<le> LoadProgress (apply_update now u j)"
    using assms(1) by (auto simp: apply_update_sel progress_ok_def clamp01_def split: option.split)
  moreover have "MergeDone j \<le> MergeDone (apply_update now u j)"
    using assms by (auto simp: apply_update_sel forward_def progress_ok_def clamp01_def split: option.splits)
  ultimately show ?thesis
    using assms by (auto intro!: WeightedPercent_mono simp: apply_update_sel forward_def split: option.splits)
qed

lemma prog_evict_some:
  "prog_store s rid = Some jp \<Longrightarrow> now - lastTouched jp \<le> prog_ttl s \<Longrightarrow> prog_store (prog_evictLocked now s) rid = Some jp"
  by (simp add: prog_evictLocked_def)

lemma store_ok_iff: "store_ok s \<longleftrightarrow> (\<forall>rid jp. prog_store s rid = Some jp \<longrightarrow> progress_ok jp)"
  by (auto simp: store_ok_def ran_def)

lemma store_ok_evict: "store_ok s \<Longrightarrow> store_ok (prog_evictLocked now s)"
  by (auto simp: store_ok_iff prog_evictLocked_def split: option.splits if_splits)

lemma init_progress_ok: "progress_ok (init_progress now)"
  by (simp add: progress_ok_def init_progress_def)

lemma Update_ok [inv_intros]:
  assumes "store_ok s" "0 \<le> uIncrementChunks u"
  shows "store_ok (Update now rid u s)"
proof -
  have "progress_ok (case prog_store (prog_evictLocked now s) rid of None \<Rightarrow> init_progress now | Some jp \<Rightarrow> jp)"
    using store_ok_evict [OF assms(1), of now] by (auto simp: store_ok_iff init_progress_ok split: option.split)
  then show ?thesis
    using assms store_ok_evict [OF assms(1), of now]
    by (auto simp: store_ok_iff Update_def Let_def apply_update_ok)
qed

section \<open>Recent conversions\<close>

lemma recent_Record_buf:
  "0 \<le> recent_maxlen s \<Longrightarrow> recent_buf (recent_Record r s) = take (nat (recent_maxlen s)) (r # recent_buf s)"
  by (simp add: recent_Record_def Let_def)

lemma recent_run:
  assumes "0 \<le> m"
  shows "recent_buf (fold recent_Record recs (NewRecentStore m)) = take (nat m) (rev recs) \<and>
    recent_maxlen (fold recent_Record recs (NewRecentStore m)) = m"
proof (induction recs rule: rev_induct)
  case (snoc r recs)
  have "recent_maxlen (recent_Record r s) = recent_maxlen s" for s by (simp add: recent_Record_def Let_def)
  with snoc assms show ?case by (auto simp: recent_Record_buf take_Cons split: nat.split)
qed (simp add: NewRecentStore_def)

lemma lessTuple_irrefl: "\<not> lessTuple t i t i"
  by (simp add: lessTuple_def)

lemma lessTuple_asym: "lessTuple t i t' i' \<Longrightarrow> \<not> lessTuple t' i' t i"
  by (auto simp: lessTuple_def split: if_splits)

lemma Paginate_anchor:
  assumes "descending (xs @ x # ys)"
  shows "Paginate enc (xs @ x # ys) (Some (cursor_of x)) limit n = makePage enc ys limit n False"
proof -
  let ?lt = "\<lambda>r. lessTuple (CompletionTS r) (RequestID r) (CompletionTS x) (RequestID x)"
  have "filter ?lt xs = []"
    using assms by (auto simp: filter_empty_conv descending_def sorted_wrt_append dest: lessTuple_asym)
  moreover have "filter ?lt ys = ys"
    using assms by (auto simp: filter_id_conv descending_def sorted_wrt_append)
  ultimately have "filter ?lt (xs @ x # ys) = ys" by (simp add: lessTuple_irrefl)
  then show ?thesis by (simp add: Paginate_def cursor_of_def)
qed

text \<open>One page: either the last, or a full page whose cursor names its last entry.\<close>

lemma makePage_split:
  assumes "0 < limit"
  shows "(NextCursor (makePage enc ys limit n st) = None \<and> Entries (makePage enc ys limit n st) = ys) \<or>
    (\<exists>us u vs. ys = us @ u # vs \<and> Entries (makePage enc ys limit n st) = us @ [u] \<and>
       NextCursor (makePage enc ys limit n st) = Some (enc (cursor_of u)))"
proof (cases "limit < int (length ys)")
  case True
  let ?es = "take (nat limit) ys"
  from True assms have ne: "?es \<noteq> []" by auto
  then have "ys = butlast ?es @ last ?es # drop (nat limit) ys"
    by (metis append_butlast_last_id append_Cons append_Nil append_assoc append_take_drop_id)
  moreover have "butlast ?es @ [last ?es] = ?es" using ne by simp
  ultimately have "\<exists>us u vs. ys = us @ u # vs \<and> ?es = us @ [u] \<and> last ?es = u" by (metis last_snoc)
  with True ne show ?thesis by (auto simp: makePage_def Let_def)
qed (simp add: makePage_def Let_def)

lemma walk_from:
  assumes "descending items" "0 < limit"
    and "\<forall>r \<in> set items. dec (enc (cursor_of r)) = Some (cursor_of r)"
  shows "items = xs @ ys \<Longrightarrow> length ys < n \<Longrightarrow>
    (xs = [] \<and> cur = None) \<or> (\<exists>x zs. xs = zs @ [x] \<and> cur = Some (cursor_of x)) \<Longrightarrow>
    walk enc dec items limit n cur = Some ys"
proof (induction n arbitrary: xs ys cur)
  case (Suc n)
  define p where "p = Paginate enc items cur limit (int (length items))"
  have page: "p = makePage enc ys limit (int (length items)) False"
    using Suc.prems(3)
  proof (elim disjE exE conjE)
    fix x zs assume "xs = zs @ [x]" "cur = Some (cursor_of x)"
    with Suc.prems(1) assms(1) show ?thesis
      using Paginate_anchor [of zs x ys enc limit "int (length items)"] by (simp add: p_def)
  qed (use Suc.prems(1) in \<open>simp add: p_def Paginate_def\<close>)
  from makePage_split [OF assms(2), of enc ys "int (length items)" False, folded page] show ?case
  proof (elim disjE exE conjE)
    fix us u vs assume ys: "ys = us @ u # vs" and es: "Entries p = us @ [u]" "NextCursor p = Some (enc (cursor_of u))"
    have "dec (enc (cursor_of u)) = Some (cursor_of u)" using assms(3) Suc.prems(1) ys by auto
    moreover have "walk enc dec items limit n (Some (cursor_of u)) = Some vs"
      using Suc.prems(1,2) ys by (intro Suc.IH [of "xs @ us @ [u]"]) auto
    ultimately show ?thesis using es ys by (simp add: p_def)
  qed (simp add: p_def)
qed simp

section \<open>Properties\<close>

text \<open>
  whatever sequence of records, reads and forgets a ring store sees, and whatever expires, the
  buffer of a request is a suffix of the events recorded for it since it was last forgotten, never
  longer than the cap, and the two maps of the store have the same keys.
\<close>

theorem ring_store_bounded_suffix:
  assumes "0 \<le> cap"
  shows "suffix (slice (ring_store (fold ring_exec tr (NewRingStore cap ttl))) rid) (fold (log_op rid) tr []) \<and>
    int (length (slice (ring_store (fold ring_exec tr (NewRingStore cap ttl))) rid)) \<le> cap \<and>
    dom (ring_store (fold ring_exec tr (NewRingStore cap ttl))) = dom (ring_touched (fold ring_exec tr (NewRingStore cap ttl)))"
proof -
  let ?s = "fold ring_exec tr (NewRingStore cap ttl)"
  have "ring_inv (\<lambda>_. []) (NewRingStore cap ttl)"
    using assms(1) by (simp add: ring_inv_def NewRingStore_def slice_def)
  from ring_inv_run [OF this, of tr] have "ring_inv (\<lambda>rid. fold (log_op rid) tr []) ?s" by simp
  moreover have "ring_max ?s = cap"
    by (induction tr rule: rev_induct) (simp_all add: NewRingStore_def)
  ultimately show ?thesis by (auto simp: ring_inv_def)
qed

theorem ring_store_bounded_suffix_witness:
  "int (length (slice (ring_store (fold ring_exec [Rec 1 ''r'' Map.empty, Rec 2 ''r'' Map.empty] (NewRingStore 1 10))) ''r'')) \<le> 1"
  using ring_store_bounded_suffix [of 1 "[Rec 1 ''r'' Map.empty, Rec 2 ''r'' Map.empty]" 10 "''r''"] by linarith

text \<open>
  while every access falls within one TTL of the read, the ring returns exactly the newest
  events of the request, as many as the cap allows, oldest first, each stamped with its time.
\<close>

theorem ring_get_newest:
  assumes "0 \<le> cap" and "rid \<noteq> ''''"
    and "\<forall>x \<in> set tr. \<exists>t r ev. x = Rec t r ev \<and> t \<le> now \<and> now - t \<le> ttl"
  shows "fst (ring_Get now rid (fold ring_exec tr (NewRingStore cap ttl))) =
    newest (nat cap) (fold (log_op rid) tr [])"
proof -
  have new: "touched_within (now - ttl) now (NewRingStore cap ttl)" "ring_max (NewRingStore cap ttl) = cap"
      "ring_ttl (NewRingStore cap ttl) = ttl" "slice (ring_store (NewRingStore cap ttl)) rid = newest (nat cap) []"
    by (simp_all add: touched_within_def NewRingStore_def slice_def newest_def)
  have "touched_within (now - ttl) now (fold ring_exec tr (NewRingStore cap ttl)) \<and>
      slice (ring_store (fold ring_exec tr (NewRingStore cap ttl))) rid = newest (nat cap) (fold (log_op rid) tr [])"
    using assms(1,3) new
      ring_run_within [of "now - ttl" now "NewRingStore cap ttl" tr rid "[]"] by fastforce
  moreover have "ring_ttl (fold ring_exec tr (NewRingStore cap ttl)) = ttl"
    by (induction tr rule: rev_induct) (simp_all add: new)
  ultimately show ?thesis
    using assms(2) evict_within [of "now - ttl" now "fold ring_exec tr (NewRingStore cap ttl)" now]
    by (simp add: ring_Get_def Let_def)
qed

theorem ring_get_newest_witness:
  "fst (ring_Get 3 ''r'' (fold ring_exec [Rec 1 ''r'' [''i'' \<mapsto> JInt 1], Rec 2 ''r'' [''i'' \<mapsto> JInt 2]] (NewRingStore 1 10)))
     = [stamp 2 [''i'' \<mapsto> JInt 2]]"
  using ring_get_newest [of 1 "''r''" "[Rec 1 ''r'' [''i'' \<mapsto> JInt 1], Rec 2 ''r'' [''i'' \<mapsto> JInt 2]]" 3 10]
  by (simp add: newest_def)

text \<open>
  the weighted progress of a job lies between 0 and 1 and is 1 exactly when the phase is
  \<^verbatim>\<open>complete\<close>, for every value of the other fields.
\<close>

theorem weighted_percent_range:
  "0 \<le> WeightedPercent j \<and> WeightedPercent j \<le> 1 \<and> (WeightedPercent j = 1 \<longleftrightarrow> Phase j = ''complete'')"
  by (rule WeightedPercent_range)

text \<open>
  the progress bar of a live job never moves backwards: an update that keeps the chunk total,
  does not lower the merge figure and does not leave the phase \<^verbatim>\<open>complete\<close> cannot lower the load
  progress or the weighted percentage, whatever load figure it carries, and the store stays valid.
\<close>

theorem progress_never_regresses:
  assumes "store_ok s" "prog_store s rid = Some jp" "now - lastTouched jp \<le> prog_ttl s"
    and "rid \<noteq> ''''" "rid \<noteq> ''-''" "forward u jp"
  shows "\<exists>jp'. prog_store (Update now rid u s) rid = Some jp' \<and> LoadProgress jp \<le> LoadProgress jp' \<and>
    WeightedPercent jp \<le> WeightedPercent jp' \<and> store_ok (Update now rid u s)"
proof -
  have "progress_ok jp" "0 \<le> uIncrementChunks u" using assms by (auto simp: store_ok_iff forward_def)
  moreover have "prog_store (Update now rid u s) rid = Some (apply_update now u jp)"
    using assms prog_evict_some [of s rid jp now] by (simp add: Update_def Let_def)
  ultimately show ?thesis using assms apply_update_forward [of jp u now] Update_ok [of s u now rid] by simp
qed

theorem progress_never_regresses_witness:
  "\<exists>jp'. prog_store (Update 2 ''r'' (no_update\<lparr>uLoadProgress := Some (1 / 4)\<rparr>)
     (Update 1 ''r'' (no_update\<lparr>uLoadProgress := Some (1 / 2)\<rparr>) NewJobProgressStore)) ''r'' = Some jp' \<and> 1 / 2 \<le> LoadProgress jp'"
proof -
  let ?u = "no_update\<lparr>uLoadProgress := Some (1 / 2)\<rparr>"
  let ?s = "Update 1 ''r'' ?u NewJobProgressStore" and ?jp = "apply_update 1 ?u (init_progress 1)"
  have "prog_store ?s ''r'' = Some ?jp" "prog_ttl ?s = progressTTL"
    by (simp_all add: Update_def Let_def NewJobProgressStore_def prog_evictLocked_def)
  moreover have "store_ok ?s"
    by (intro Update_ok) (simp_all add: store_ok_iff NewJobProgressStore_def no_update_def)
  ultimately show ?thesis
    using progress_never_regresses [of ?s "''r''" ?jp 2 "no_update\<lparr>uLoadProgress := Some (1 / 4)\<rparr>"]
    by (auto simp: apply_update_sel progressTTL_def minute_def forward_def no_update_def init_progress_def clamp01_def)
qed

text \<open>
  the recent-conversions buffer holds the newest records, newest first, and never more than its
  capacity.
\<close>

theorem recent_store_newest_first:
  assumes "0 \<le> m"
  shows "Snapshot (fold recent_Record recs (NewRecentStore m)) = take (nat m) (rev recs) \<and>
    Size (fold recent_Record recs (NewRecentStore m)) = min m (int (length recs))"
proof -
  have "int (length (take (nat m) (rev recs))) = min m (int (length recs))" using assms by simp
  with recent_run [OF assms, of recs] show ?thesis by (simp add: Snapshot_def Size_def)
qed

theorem recent_store_newest_first_witness:
  "Size (fold recent_Record [finished 1 ''a'', finished 2 ''b'', finished 3 ''c''] (NewRecentStore 2)) = 2"
  using recent_store_newest_first [of 2 "[finished 1 ''a'', finished 2 ''b'', finished 3 ''c'']"] by simp

text \<open>
  a client that follows the cursors over an unchanged, strictly descending snapshot receives
  every record exactly once and in order, for every page size, and stops.
\<close>

theorem paginate_walk_complete:
  assumes "descending items" and "0 < limit"
    and "\<forall>r \<in> set items. dec (enc (cursor_of r)) = Some (cursor_of r)"
    and "length items < n"
  shows "walk enc dec items limit n None = Some items"
  using walk_from [OF assms(1-3), of "[]" items n None] assms(4) by simp

theorem paginate_walk_complete_witness:
  "walk ID (\<lambda>tok. Some \<lparr>TS = of_nat (length tok), ID = tok\<rparr>) [finished 2 ''bb'', finished 1 ''a''] 1 3 None
     = Some [finished 2 ''bb'', finished 1 ''a'']"
  by (rule paginate_walk_complete)
     (simp_all add: descending_def lessTuple_def finished_def cursor_of_def)

text \<open>
  with records that are not in time order the cursor skips entries. Two conversions that finish
  together read the clock before they take the store's lock; when the one that finished first
  (time 1) is recorded last, the page after it asks only for records older than time 1, and the
  record of time 2 is never returned.
\<close>

theorem paginate_skips_out_of_order:
  "walk ID (\<lambda>tok. Some \<lparr>TS = of_nat (length tok), ID = tok\<rparr>)
     (Snapshot (recent_Record (finished 1 ''a'') (recent_Record (finished 2 ''bb'') (NewRecentStore DefaultMaxRecent)))) 1 3 None
   = Some [finished 1 ''a'']"
  by (simp add: Snapshot_def recent_Record_def NewRecentStore_def DefaultMaxRecent_def Paginate_def makePage_def
      lessTuple_def finished_def cursor_of_def numeral_3_eq_3)

end
