(* ===== verification/Tokens.thy ===== *)
theory Tokens
  imports Obs
begin

text \<open>
  The cursor tokens of \<^verbatim>\<open>internal/obs/recent.go\<close>: \<^verbatim>\<open>Encode\<close> writes a cursor as JSON in URL-safe base64, \<^verbatim>\<open>DecodeCursor\<close>
  reads one back, from whatever the client sends. The model follows \<^verbatim>\<open>encoding/base64\<close>, \<^verbatim>\<open>encoding/json\<close> and the shortest
  decimal form of a float64 of \<^verbatim>\<open>strconv\<close>. (A number below the normal range of float64 is not rounded further; no
  record has such a time.)
\<close>

section \<open>Definitions\<close>

subsection \<open>Base64\<close>

text \<open>The URL-safe alphabet: capitals, small letters, digits, hyphen and underscore.\<close>

definition b64_char :: "nat \<Rightarrow> char" where
  "b64_char n =
     (if n < 26 then char_of (65 + n) else if n < 52 then char_of (71 + n) else if n < 62 then char_of (n - 4)
      else if n = 62 then CHR ''-'' else CHR ''_'')"

definition b64_val :: "char \<Rightarrow> nat option" where
  "b64_val c =
     (let n = of_char c :: nat
      in if 65 \<le> n \<and> n \<le> 90 then Some (n - 65) else if 97 \<le> n \<and> n \<le> 122 then Some (n - 71)
         else if 48 \<le> n \<and> n \<le> 57 then Some (n + 4) else if n = 45 then Some 62 else if n = 95 then Some 63 else None)"

fun b64_encode :: "nat list \<Rightarrow> string" where
  "b64_encode [] = []"
| "b64_encode [x] = [b64_char (x div 4), b64_char (x mod 4 * 16), CHR ''='', CHR ''='']"
| "b64_encode [x, y] = [b64_char (x div 4), b64_char (x mod 4 * 16 + y div 16), b64_char (y mod 16 * 4), CHR ''='']"
| "b64_encode (x # y # z # s) =
     b64_char (x div 4) # b64_char (x mod 4 * 16 + y div 16) # b64_char (y mod 16 * 4 + z div 64) # b64_char (z mod 64) # b64_encode s"

text \<open>Groups of four characters; the last one may be padded, and nothing stands behind the padding.\<close>

fun b64_groups :: "string \<Rightarrow> nat list option" where
  "b64_groups [] = Some []"
| "b64_groups (a # b # c # d # s) =
     (case (b64_val a, b64_val b) of
        (Some i, Some j) \<Rightarrow>
          if c = CHR ''='' then (if d = CHR ''='' \<and> s = [] then Some [i * 4 + j div 16] else None)
          else (case b64_val c of
                  None \<Rightarrow> None
                | Some k \<Rightarrow>
                    if d = CHR ''='' then (if s = [] then Some [i * 4 + j div 16, j mod 16 * 16 + k div 4] else None)
                    else (case b64_val d of
                            None \<Rightarrow> None
                          | Some l \<Rightarrow> map_option (\<lambda>r. (i * 4 + j div 16) # (j mod 16 * 16 + k div 4) # (k mod 4 * 64 + l) # r) (b64_groups s)))
      | _ \<Rightarrow> None)"
| "b64_groups s = None"

text \<open>Line breaks are skipped everywhere.\<close>

definition b64_DecodeString :: "string \<Rightarrow> string option" where
  "b64_DecodeString s = map_option (map char_of) (b64_groups (filter (\<lambda>c. c \<noteq> CHR 0x0A \<and> c \<noteq> CHR 0x0D) s))"

definition b64_EncodeToString :: "string \<Rightarrow> string" where
  "b64_EncodeToString s = b64_encode (map of_char s)"

subsection \<open>Numbers\<close>

text \<open>
  The decimal with the fewest digits that reads back as the float64: for the smallest number \<open>k\<close> of decimals, the
  nearer of the two neighbours with \<open>k\<close> decimals that rounds to it.
\<close>

definition decimals :: "rat \<Rightarrow> int \<Rightarrow> (int \<times> int) list" where
  "decimals x k =
     (let y = x * 10 powi k; f = \<lfloor>y\<rfloor>; c = \<lceil>y\<rceil>
      in if y - of_int f < of_int c - y \<or> (y - of_int f = of_int c - y \<and> even f) then [(k, f), (k, c)] else [(k, c), (k, f)])"

definition candidates :: "rat \<Rightarrow> (int \<times> int) list" where
  "candidates x = concat (map (decimals x) [-330..400])"

definition shortest :: "rat \<Rightarrow> (int \<times> int) option" where
  "shortest x = find (\<lambda>(k, m). rnd64 (of_int m * 10 powi (- k)) = x) (candidates x)"

definition zero_pad :: "nat \<Rightarrow> nat \<Rightarrow> string" where
  "zero_pad w n = replicate (w - length (utoa n)) CHR ''0'' @ utoa n"

definition fixed_text :: "int \<Rightarrow> nat \<Rightarrow> string" where
  "fixed_text k m =
     (if k \<le> 0 then utoa (m * 10 ^ nat (- k))
      else utoa (m div 10 ^ nat k) @ ''.'' @ zero_pad (nat k) (m mod 10 ^ nat k))"

definition exp_text :: "int \<Rightarrow> nat \<Rightarrow> string" where
  "exp_text k m =
     (let ds = utoa m; e = int (length ds) - 1 - k
      in hd ds # (if tl ds = [] then [] else CHR ''.'' # tl ds) @ ''e'' @
         (if e < 0 then CHR ''-'' # utoa (nat (- e)) else CHR ''+'' # zero_pad 2 (nat e)))"

definition json_float :: "rat \<Rightarrow> string" where
  "json_float x =
     (if x = 0 then ''0''
      else case shortest x of
        None \<Rightarrow> ''0''
      | Some (k, m) \<Rightarrow>
          (if m < 0 then ''-'' else []) @
          (if \<bar>x\<bar> < 1 / 10 ^ 6 \<or> 10 ^ 21 \<le> \<bar>x\<bar> then exp_text k (nat \<bar>m\<bar>) else fixed_text k (nat \<bar>m\<bar>)))"

subsection \<open>Strings\<close>

definition byte :: "char \<Rightarrow> nat" where "byte c = of_char c"

definition cont :: "nat \<Rightarrow> nat \<Rightarrow> char \<Rightarrow> bool" where
  "cont lo hi c \<longleftrightarrow> lo \<le> byte c \<and> byte c \<le> hi"

text \<open>The width of the UTF-8 sequence at the begin of a text; 0 if there is none.\<close>

fun utf8_width :: "string \<Rightarrow> nat" where
  "utf8_width [] = 0"
| "utf8_width (a # s) =
     (let n = byte a; c = cont 0x80 0xBF
      in if n < 0x80 then 1
         else if 0xC2 \<le> n \<and> n \<le> 0xDF then (case s of x # _ \<Rightarrow> if c x then 2 else 0 | _ \<Rightarrow> 0)
         else if 0xE0 \<le> n \<and> n \<le> 0xEF
         then (case s of
                 x # y # _ \<Rightarrow>
                   if cont (if n = 0xE0 then 0xA0 else 0x80) (if n = 0xED then 0x9F else 0xBF) x \<and> c y then 3 else 0
               | _ \<Rightarrow> 0)
         else if 0xF0 \<le> n \<and> n \<le> 0xF4
         then (case s of
                 x # y # z # _ \<Rightarrow>
                   if cont (if n = 0xF0 then 0x90 else 0x80) (if n = 0xF4 then 0x8F else 0xBF) x \<and> c y \<and> c z then 4 else 0
               | _ \<Rightarrow> 0)
         else 0)"

definition hex_char :: "nat \<Rightarrow> char" where
  "hex_char d = (if d < 10 then char_of (48 + d) else char_of (87 + d))"

definition bs :: char where "bs = CHR 0x5C"
definition dquote :: char where "dquote = CHR 0x22"

text \<open>One byte below 0x80 as \<^verbatim>\<open>json.Marshal\<close> writes it, with the characters of HTML escaped.\<close>

definition quote_byte :: "char \<Rightarrow> string" where
  "quote_byte c =
     (let n = byte c
      in if c = bs \<or> c = dquote then [bs, c]
         else if n = 8 then [bs, CHR ''b''] else if n = 12 then [bs, CHR ''f''] else if n = 10 then [bs, CHR ''n'']
         else if n = 13 then [bs, CHR ''r''] else if n = 9 then [bs, CHR ''t'']
         else if n < 32 \<or> c \<in> set ''<>&'' then bs # ''u00'' @ [hex_char (n div 16), hex_char (n mod 16)]
         else [c])"

function json_chars :: "string \<Rightarrow> string" where
  "json_chars [] = []"
| "json_chars (c # s) =
     (if byte c < 0x80 then quote_byte c @ json_chars s
      else
        (let w = utf8_width (c # s)
         in if w = 0 then bs # ''ufffd'' @ json_chars s
            else if has_prefix (c # s) (bytes [0xE2, 0x80, 0xA8]) then bs # ''u2028'' @ json_chars (drop 2 s)
            else if has_prefix (c # s) (bytes [0xE2, 0x80, 0xA9]) then bs # ''u2029'' @ json_chars (drop 2 s)
            else take w (c # s) @ json_chars (drop (w - 1) s)))"
  by pat_completeness auto
termination by (relation "measure length") auto

definition json_Marshal :: "Cursor \<Rightarrow> string" where
  "json_Marshal c = CHR ''{'' # dquote # ''ts'' @ [dquote] @ '':'' @ json_float (TS c) @ '','' @ [dquote] @ ''id'' @ [dquote] @ '':'' @ [dquote] @ json_chars (ID c) @ [dquote] @ ''}''"

definition Encode :: "Cursor \<Rightarrow> string" where
  "Encode c = b64_EncodeToString (json_Marshal c)"

subsection \<open>Reading JSON\<close>

definition utf8_of :: "nat \<Rightarrow> string" where
  "utf8_of r =
     bytes (if r < 0x80 then [r]
            else if r < 0x800 then [0xC0 + r div 64, 0x80 + r mod 64]
            else if r < 0x10000 then [0xE0 + r div 4096, 0x80 + r div 64 mod 64, 0x80 + r mod 64]
            else [0xF0 + r div 262144, 0x80 + r div 4096 mod 64, 0x80 + r div 64 mod 64, 0x80 + r mod 64])"

definition replacement :: string where "replacement = bytes [0xEF, 0xBF, 0xBD]"

definition hex_digit_val :: "char \<Rightarrow> nat option" where
  "hex_digit_val c =
     (let n = byte c
      in if 48 \<le> n \<and> n \<le> 57 then Some (n - 48) else if 97 \<le> n \<and> n \<le> 102 then Some (n - 87)
         else if 65 \<le> n \<and> n \<le> 70 then Some (n - 55) else None)"

fun hex4 :: "string \<Rightarrow> (nat \<times> string) option" where
  "hex4 (a # b # c # d # s) =
     (case (hex_digit_val a, hex_digit_val b, hex_digit_val c, hex_digit_val d) of
        (Some i, Some j, Some k, Some l) \<Rightarrow> Some (4096 * i + 256 * j + 16 * k + l, s)
      | _ \<Rightarrow> None)"
| "hex4 s = None"

text \<open>
  The rune of an escape \<^verbatim>\<open>u\<close>: a surrogate pair is one rune, a lone surrogate is replaced.
\<close>

definition escaped_rune :: "string \<Rightarrow> (string \<times> string) option" where
  "escaped_rune s =
     (case hex4 s of
        None \<Rightarrow> None
      | Some (r, t) \<Rightarrow>
          if 0xD800 \<le> r \<and> r < 0xE000
          then (if has_prefix t [bs, CHR ''u'']
                then (case hex4 (drop 2 t) of
                        Some (r2, t2) \<Rightarrow>
                          if r < 0xDC00 \<and> 0xDC00 \<le> r2 \<and> r2 < 0xE000 then Some (utf8_of (0x10000 + (r - 0xD800) * 1024 + (r2 - 0xDC00)), t2)
                          else Some (replacement, t)
                      | None \<Rightarrow> Some (replacement, t))
                else Some (replacement, t))
          else Some (utf8_of r, t))"

definition simple_escape :: "char \<Rightarrow> char option" where
  "simple_escape e =
     (if e = dquote \<or> e = bs \<or> e = CHR ''/'' then Some e
      else if e = CHR ''b'' then Some (char_of (8 :: nat)) else if e = CHR ''f'' then Some (char_of (12 :: nat))
      else if e = CHR ''n'' then Some (char_of (10 :: nat)) else if e = CHR ''r'' then Some (char_of (13 :: nat))
      else if e = CHR ''t'' then Some (char_of (9 :: nat)) else None)"

lemma hex4_shorter: "hex4 s = Some (r, t) \<Longrightarrow> length t < length s"
  by (induction s rule: hex4.induct) (auto split: option.splits)

lemma escaped_rune_shorter: "escaped_rune s = Some (r, t) \<Longrightarrow> length t < length s"
proof -
  assume e: "escaped_rune s = Some (r, t)"
  then obtain n u where u: "hex4 s = Some (n, u)" by (auto simp: escaped_rune_def split: option.splits)
  have "length u < length s" using hex4_shorter [OF u] .
  moreover have "length t \<le> length u"
    using e u hex4_shorter [of "drop 2 u"] by (fastforce simp: escaped_rune_def split: option.splits if_splits)
  ultimately show ?thesis by simp
qed

text \<open>A string literal behind its opening quote: its bytes, and what follows the closing quote.\<close>

function lit :: "string \<Rightarrow> (string \<times> string) option" where
  "lit [] = None"
| "lit (c # s) =
     (if c = dquote then Some ([], s)
      else if byte c < 32 then None
      else if c = bs
      then (case s of
              [] \<Rightarrow> None
            | e # t \<Rightarrow>
                if e = CHR ''u''
                then (case escaped_rune t of None \<Rightarrow> None | Some (r, u) \<Rightarrow> map_option (\<lambda>(x, v). (r @ x, v)) (lit u))
                else (case simple_escape e of None \<Rightarrow> None | Some d \<Rightarrow> map_option (\<lambda>(x, v). (d # x, v)) (lit t)))
      else if byte c < 0x80 then map_option (\<lambda>(x, v). (c # x, v)) (lit s)
      else
        (let w = utf8_width (c # s)
         in if w = 0 then map_option (\<lambda>(x, v). (replacement @ x, v)) (lit s)
            else map_option (\<lambda>(x, v). (take w (c # s) @ x, v)) (lit (drop (w - 1) s))))"
  by pat_completeness auto
termination by (relation "measure length") (auto dest: escaped_rune_shorter)

record jnum =
  negative :: bool
  whole :: string
  fraction :: string
  exponent :: int

definition digits :: "string \<Rightarrow> string \<times> string" where
  "digits s = (takeWhile is_digit s, dropWhile is_digit s)"

definition json_exponent :: "string \<Rightarrow> (int \<times> string) option" where
  "json_exponent s =
     (if s \<noteq> [] \<and> (hd s = CHR ''e'' \<or> hd s = CHR ''E'')
      then (let t = tl s; neg = has_prefix t ''-''; u = (if neg \<or> has_prefix t ''+'' then tl t else t); (ds, r) = digits u
            in if ds = [] then None else Some ((if neg then - int (atou 0 ds) else int (atou 0 ds)), r))
      else Some (0, s))"

definition json_num :: "string \<Rightarrow> (jnum \<times> string) option" where
  "json_num s =
     (let neg = has_prefix s ''-''; (ip, r) = digits (if neg then tl s else s)
      in if ip = [] \<or> (length ip > 1 \<and> hd ip = CHR ''0'') then None
         else
           (let point = has_prefix r ''.''; (fp, r1) = (if point then digits (tl r) else ([], r))
            in if point \<and> fp = [] then None
               else map_option (\<lambda>(e, r2). (\<lparr>negative = neg, whole = ip, fraction = fp, exponent = e\<rparr>, r2)) (json_exponent r1)))"

datatype jval = VNull | VBool bool | VNum jnum | VStr string | VArr "jval list" | VObj "(string \<times> jval) list"

definition skip_ws :: "string \<Rightarrow> string" where
  "skip_ws s = dropWhile (\<lambda>c. byte c \<in> {32, 9, 10, 13}) s"

definition max_depth :: nat where "max_depth = 10000"

text \<open>
  The value at the begin of a text, the elements of an array and the members of an object; the fuel bounds the calls,
  of which each two consume a character.
\<close>

fun jvalue :: "nat \<Rightarrow> nat \<Rightarrow> string \<Rightarrow> (jval \<times> string) option"
  and jelements :: "nat \<Rightarrow> nat \<Rightarrow> string \<Rightarrow> (jval list \<times> string) option"
  and jmembers :: "nat \<Rightarrow> nat \<Rightarrow> string \<Rightarrow> ((string \<times> jval) list \<times> string) option"
where
  "jvalue 0 d s = None"
| "jvalue (Suc n) d s =
     (case skip_ws s of
        [] \<Rightarrow> None
      | c # t \<Rightarrow>
          if c = CHR ''{'' \<or> c = CHR ''['' then
            (if d \<ge> max_depth then None
             else if c = CHR ''{''
             then (if has_prefix (skip_ws t) ''}'' then Some (VObj [], tl (skip_ws t)) else map_option (\<lambda>(ms, r). (VObj ms, r)) (jmembers n (d + 1) t))
             else (if has_prefix (skip_ws t) '']'' then Some (VArr [], tl (skip_ws t)) else map_option (\<lambda>(vs, r). (VArr vs, r)) (jelements n (d + 1) t)))
          else if c = dquote then map_option (\<lambda>(x, r). (VStr x, r)) (lit t)
          else if has_prefix (c # t) ''true'' then Some (VBool True, drop 3 t)
          else if has_prefix (c # t) ''false'' then Some (VBool False, drop 4 t)
          else if has_prefix (c # t) ''null'' then Some (VNull, drop 3 t)
          else map_option (\<lambda>(v, r). (VNum v, r)) (json_num (c # t)))"
| "jelements 0 d s = None"
| "jelements (Suc n) d s =
     (case jvalue n d s of
        None \<Rightarrow> None
      | Some (v, r) \<Rightarrow>
          (case skip_ws r of
             [] \<Rightarrow> None
           | c # t \<Rightarrow>
               if c = CHR '','' then map_option (\<lambda>(vs, r). (v # vs, r)) (jelements n d t)
               else if c = CHR '']'' then Some ([v], t) else None))"
| "jmembers 0 d s = None"
| "jmembers (Suc n) d s =
     (case skip_ws s of
        [] \<Rightarrow> None
      | q # s1 \<Rightarrow>
          if q \<noteq> dquote then None
          else
            (case lit s1 of
               None \<Rightarrow> None
             | Some (key, s2) \<Rightarrow>
                 if \<not> has_prefix (skip_ws s2) '':'' then None
                 else
                   (case jvalue n d (tl (skip_ws s2)) of
                      None \<Rightarrow> None
                    | Some (v, r) \<Rightarrow>
                        (case skip_ws r of
                           [] \<Rightarrow> None
                         | c # t \<Rightarrow>
                             if c = CHR '','' then map_option (\<lambda>(ms, r). ((key, v) # ms, r)) (jmembers n d t)
                             else if c = CHR ''}'' then Some ([(key, v)], t) else None))))"

subsection \<open>Reading a cursor\<close>

text \<open>A key that is no field by its exact name is compared without case; the long s folds to S.\<close>

fun fold_key :: "string \<Rightarrow> string" where
  "fold_key [] = []"
| "fold_key (c # s) =
     (if has_prefix (c # s) (bytes [0xC5, 0xBF]) then CHR ''S'' # fold_key (drop 1 s)
      else (if 97 \<le> byte c \<and> byte c \<le> 122 then char_of (byte c - 32) else c) # fold_key s)"

definition num_value :: "jnum \<Rightarrow> rat option" where
  "num_value v =
     (let a = of_nat (atou 0 (whole v @ fraction v)) * 10 powi (exponent v - int (length (fraction v)));
          r = rnd64 (if negative v then - a else a)
      in if \<bar>r\<bar> \<ge> 2 ^ 1024 then None else Some r)"

fun set_ts :: "jval \<Rightarrow> Cursor \<Rightarrow> Cursor option" where
  "set_ts (VNum v) c = map_option (\<lambda>x. c\<lparr>TS := x\<rparr>) (num_value v)"
| "set_ts VNull c = Some c"
| "set_ts _ c = None"

fun set_id :: "jval \<Rightarrow> Cursor \<Rightarrow> Cursor option" where
  "set_id (VStr s) c = Some (c\<lparr>ID := s\<rparr>)"
| "set_id VNull c = Some c"
| "set_id _ c = None"

fun set_fields :: "(string \<times> jval) list \<Rightarrow> Cursor \<Rightarrow> Cursor option" where
  "set_fields [] c = Some c"
| "set_fields ((k, v) # ms) c =
     (case (if k = ''ts'' \<or> (k \<noteq> ''id'' \<and> fold_key k = ''TS'') then set_ts v c
            else if k = ''id'' \<or> fold_key k = ''ID'' then set_id v c
            else Some c) of
        None \<Rightarrow> None
      | Some c' \<Rightarrow> set_fields ms c')"

definition json_Unmarshal :: "string \<Rightarrow> Cursor option" where
  "json_Unmarshal s =
     (case jvalue (2 * length s + 2) 0 s of
        None \<Rightarrow> None
      | Some (v, r) \<Rightarrow>
          if skip_ws r \<noteq> [] then None
          else (case v of
                  VObj ms \<Rightarrow> set_fields ms \<lparr>TS = 0, ID = []\<rparr>
                | VNull \<Rightarrow> Some \<lparr>TS = 0, ID = []\<rparr>
                | _ \<Rightarrow> None))"

definition DecodeCursor :: "string \<Rightarrow> Cursor option" where
  "DecodeCursor raw = (case b64_DecodeString raw of None \<Rightarrow> None | Some data \<Rightarrow> json_Unmarshal data)"

section \<open>Lemmas\<close>

subsection \<open>Base64\<close>

lemma b64_val_char: "n < 64 \<Longrightarrow> b64_val (b64_char n) = Some n"
  by (auto simp: b64_val_def b64_char_def Let_def)

lemma b64_char_plain: "n < 64 \<Longrightarrow> b64_char n \<noteq> CHR ''='' \<and> b64_char n \<noteq> CHR 0x0A \<and> b64_char n \<noteq> CHR 0x0D"
  using b64_val_char [of n] by (auto simp: b64_val_def)

lemma b64_bits:
  assumes "x < 256" "y < 256" "z < 256"
  shows "x div 4 < (64 :: nat)" "x mod 4 * 16 < (64 :: nat)" "x mod 4 * 16 + y div 16 < (64 :: nat)" "y mod 16 * 4 < (64 :: nat)"
    "y mod 16 * 4 + z div 64 < (64 :: nat)" "z mod 64 < (64 :: nat)"
    "x div 4 * 4 + (x mod 4 * 16 + y div 16) div 16 = x" "(x mod 4 * 16 + y div 16) mod 16 * 16 + (y mod 16 * 4 + z div 64) div 4 = y"
    "(y mod 16 * 4 + z div 64) mod 4 * 64 + z mod 64 = z" "x div 4 * 4 + x mod 4 * 16 div 16 = x"
    "(x mod 4 * 16 + y div 16) mod 16 * 16 + y mod 16 * 4 div 4 = y"
proof -
  have m: "x mod 4 < 4" "y mod 16 < 16" "z mod 64 < 64" "x div 4 < 64" "y div 16 < 16" "z div 64 < 4" using assms by (simp_all add: div_less_iff_less_mult)
  then show "x div 4 < (64 :: nat)" "x mod 4 * 16 < (64 :: nat)" "x mod 4 * 16 + y div 16 < (64 :: nat)" "y mod 16 * 4 < (64 :: nat)"
    "y mod 16 * 4 + z div 64 < (64 :: nat)" "z mod 64 < (64 :: nat)" by linarith+
  have d: "(a * 16 + b) div 16 = a" "(a * 16 + b) mod 16 = b" if "b < 16" for a b :: nat using that by simp_all
  have d4: "(a * 4 + b) div 4 = a" "(a * 4 + b) mod 4 = b" if "b < 4" for a b :: nat using that by simp_all
  show "x div 4 * 4 + (x mod 4 * 16 + y div 16) div 16 = x" "x div 4 * 4 + x mod 4 * 16 div 16 = x"
    using m(5) d(1) [of "y div 16" "x mod 4"] by simp_all
  show "(x mod 4 * 16 + y div 16) mod 16 * 16 + (y mod 16 * 4 + z div 64) div 4 = y" "(x mod 4 * 16 + y div 16) mod 16 * 16 + y mod 16 * 4 div 4 = y"
    using m d(2) [of "y div 16" "x mod 4"] d4(1) [of "z div 64" "y mod 16"] by simp_all
  show "(y mod 16 * 4 + z div 64) mod 4 * 64 + z mod 64 = z" using m d4(2) [of "z div 64" "y mod 16"] by simp
qed

lemma b64_group_full:
  "a < 64 \<Longrightarrow> b < 64 \<Longrightarrow> c < 64 \<Longrightarrow> d < 64 \<Longrightarrow> b64_groups (b64_char a # b64_char b # b64_char c # b64_char d # s) =
     map_option (\<lambda>r. (a * 4 + b div 16) # (b mod 16 * 16 + c div 4) # (c mod 4 * 64 + d) # r) (b64_groups s)"
  by (simp add: b64_val_char b64_char_plain)

lemma b64_group_two:
  "a < 64 \<Longrightarrow> b < 64 \<Longrightarrow> c < 64 \<Longrightarrow> b64_groups [b64_char a, b64_char b, b64_char c, CHR ''=''] = Some [a * 4 + b div 16, b mod 16 * 16 + c div 4]"
  by (simp add: b64_val_char b64_char_plain)

lemma b64_group_one: "a < 64 \<Longrightarrow> b < 64 \<Longrightarrow> b64_groups [b64_char a, b64_char b, CHR ''='', CHR ''=''] = Some [a * 4 + b div 16]"
  by (simp add: b64_val_char)

lemma b64_groups_encode: "\<forall>x \<in> set xs. x < 256 \<Longrightarrow> b64_groups (b64_encode xs) = Some xs"
proof (induction xs rule: b64_encode.induct)
  case (2 x)
  then have x: "x < 256" by simp
  show ?case unfolding b64_encode.simps b64_group_one [OF b64_bits(1,2) [OF x x x]] b64_bits(10) [OF x x x] ..
next
  case (3 x y)
  then have x: "x < 256" and y: "y < 256" by simp_all
  show ?case unfolding b64_encode.simps b64_group_two [OF b64_bits(1,3,4) [OF x y y]] b64_bits(7,11) [OF x y y] ..
next
  case (4 x y z s)
  then have x: "x < 256" and y: "y < 256" and z: "z < 256" and s: "b64_groups (b64_encode s) = Some s" by simp_all
  show ?case
    unfolding b64_encode.simps b64_group_full [OF b64_bits(1,3,5,6) [OF x y z]] s option.map b64_bits(7,8,9) [OF x y z] ..
qed simp

lemma b64_encode_no_newline: "\<forall>x \<in> set xs. x < 256 \<Longrightarrow> list_all (\<lambda>c. c \<noteq> CHR 0x0A \<and> c \<noteq> CHR 0x0D) (b64_encode xs)"
proof (induction xs rule: b64_encode.induct)
  case (2 x)
  then have x: "x < 256" by simp
  show ?case by (simp add: b64_char_plain b64_bits(1,2) [OF x x x])
next
  case (3 x y)
  then have x: "x < 256" and y: "y < 256" by simp_all
  show ?case by (simp add: b64_char_plain b64_bits(1,3,4) [OF x y y])
next
  case (4 x y z s)
  then have x: "x < 256" and y: "y < 256" and z: "z < 256" and s: "list_all (\<lambda>c. c \<noteq> CHR 0x0A \<and> c \<noteq> CHR 0x0D) (b64_encode s)" by simp_all
  show ?case by (simp add: s b64_char_plain b64_bits(1,3,5,6) [OF x y z])
qed simp

lemma b64_round_trip: "b64_DecodeString (b64_EncodeToString s) = Some s"
proof -
  let ?xs = "map of_char s :: nat list"
  have r: "\<forall>x \<in> set ?xs. x < 256" by auto
  have "filter (\<lambda>c. c \<noteq> CHR 0x0A \<and> c \<noteq> CHR 0x0D) (b64_encode ?xs) = b64_encode ?xs"
    using b64_encode_no_newline [OF r] by (simp add: filter_id_conv list_all_iff)
  then show ?thesis using b64_groups_encode [OF r] by (simp add: b64_DecodeString_def b64_EncodeToString_def comp_def)
qed

subsection \<open>Strings\<close>

text \<open>A request id of printable ASCII characters.\<close>

definition printable :: "string \<Rightarrow> bool" where
  "printable s = list_all (\<lambda>c. 32 \<le> byte c \<and> byte c < 127) s"

declare lit.simps [simp del]

lemma lit_simple: "simple_escape e = Some d \<Longrightarrow> lit (bs # e # t) = map_option (\<lambda>(x, v). (d # x, v)) (lit t)"
  by (subst lit.simps) (auto simp: simple_escape_def bs_def dquote_def byte_def split: if_splits)

lemma lit_rune: "escaped_rune t = Some (r, u) \<Longrightarrow> lit (bs # CHR ''u'' # t) = map_option (\<lambda>(x, v). (r @ x, v)) (lit u)"
  by (subst lit.simps) (simp add: bs_def dquote_def byte_def)

lemma lit_html:
  assumes "c \<in> set ''<>&''"
  shows "lit (bs # ''u00'' @ hex_char (byte c div 16) # hex_char (byte c mod 16) # t) = map_option (\<lambda>(x, v). (c # x, v)) (lit t)"
proof -
  have "escaped_rune (''00'' @ hex_char (byte c div 16) # hex_char (byte c mod 16) # t) = Some ([c], t)"
  proof -
    have h: "hex4 (CHR ''0'' # CHR ''0'' # a # b # t) = Some (n, t) \<Longrightarrow> n < 128 \<Longrightarrow> escaped_rune (CHR ''0'' # CHR ''0'' # a # b # t) = Some ([char_of n], t)" for a b n
      by (simp add: escaped_rune_def utf8_of_def bytes_def del: hex4.simps)
    have v: "hex_digit_val CHR ''0'' = Some 0" "hex_digit_val CHR ''2'' = Some 2" "hex_digit_val CHR ''3'' = Some 3" "hex_digit_val CHR ''6'' = Some 6" "hex_digit_val CHR ''c'' = Some 12" "hex_digit_val CHR ''e'' = Some 14"
      by (simp_all add: hex_digit_val_def byte_def)
    have x: "hex_char 2 = CHR ''2''" "hex_char 3 = CHR ''3''" "hex_char 6 = CHR ''6''" "hex_char 12 = CHR ''c''" "hex_char 14 = CHR ''e''"
      unfolding hex_char_def by code_simp+
    have b: "byte CHR ''<'' = 60" "byte CHR ''>'' = 62" "byte CHR ''&'' = 38" by (simp_all add: byte_def)
    have c: "char_of (60 :: nat) = CHR ''<''" "char_of (62 :: nat) = CHR ''>''" "char_of (38 :: nat) = CHR ''&''" by code_simp+
    consider "c = CHR ''<''" | "c = CHR ''>''" | "c = CHR ''&''" using assms by auto
    then show ?thesis
      using h [of "CHR ''3''" "CHR ''c''" 60] h [of "CHR ''3''" "CHR ''e''" 62] h [of "CHR ''2''" "CHR ''6''" 38]
      by cases (simp_all add: v x b c)
  qed
  then show ?thesis using lit_rune by simp
qed

lemma lit_quote_byte:
  assumes "32 \<le> byte c" "byte c < 127"
  shows "lit (quote_byte c @ t) = map_option (\<lambda>(x, v). (c # x, v)) (lit t)"
proof -
  consider "c = bs \<or> c = dquote" | "c \<in> set ''<>&''" | "c \<noteq> bs" "c \<noteq> dquote" "c \<notin> set ''<>&''" by blast
  then show ?thesis
  proof cases
    case 1
    then have "quote_byte c = [bs, c]" "simple_escape c = Some c" by (auto simp: quote_byte_def Let_def simple_escape_def)
    then show ?thesis using lit_simple by simp
  next
    case 2
    then have "quote_byte c = bs # ''u00'' @ [hex_char (byte c div 16), hex_char (byte c mod 16)]"
      using assms(1) by (auto simp: quote_byte_def Let_def bs_def dquote_def)
    then show ?thesis using lit_html [OF 2] by simp
  next
    case 3
    then have "quote_byte c = [c]" using assms by (simp add: quote_byte_def Let_def)
    then show ?thesis using 3 assms by (simp add: lit.simps(2) [of c])
  qed
qed

lemma lit_json_chars: "printable s \<Longrightarrow> lit (json_chars s @ dquote # t) = Some (s, t)"
proof (induction s)
  case (Cons c s)
  then have c: "32 \<le> byte c" "byte c < 127" and s: "printable s" by (simp_all add: printable_def)
  have "json_chars (c # s) @ dquote # t = quote_byte c @ json_chars s @ dquote # t" using c by simp
  then show ?case using lit_quote_byte [OF c] Cons.IH [OF s] by simp
qed (simp add: lit.simps)

subsection \<open>Numbers\<close>

lemma shortest_reads_back: "shortest x = Some (k, m) \<Longrightarrow> rnd64 (of_int m * 10 powi (- k)) = x \<and> (m = \<lfloor>x * 10 powi k\<rfloor> \<or> m = \<lceil>x * 10 powi k\<rceil>)"
proof -
  assume "shortest x = Some (k, m)"
  then obtain i where i: "i < length (candidates x)" "candidates x ! i = (k, m)" "rnd64 (of_int m * 10 powi (- k)) = x"
    unfolding shortest_def find_Some_iff by auto
  then have "(k, m) \<in> set (candidates x)" by (metis nth_mem)
  then obtain j where "(k, m) \<in> set (decimals x j)" unfolding candidates_def set_concat set_map by blast
  then show ?thesis using i(3) by (auto simp: decimals_def Let_def split: if_splits)
qed

text \<open>A time of the clock in nanoseconds has a decimal form with nine decimals that reads back.\<close>

lemma nine_decimals:
  assumes "x = rnd64 (of_int n / 10 ^ 9)"
  shows "rnd64 (of_int \<lfloor>x * 10 ^ 9\<rfloor> / 10 ^ 9) = x \<or> rnd64 (of_int \<lceil>x * 10 ^ 9\<rceil> / 10 ^ 9) = x"
proof (cases "of_int n / 10 ^ 9 \<le> x")
  case True
  then have "of_int n \<le> x * 10 ^ 9" by (simp add: field_simps)
  then have "n \<le> \<lfloor>x * 10 ^ 9\<rfloor>" by (simp add: le_floor_iff)
  then have "(of_int n :: rat) \<le> of_int \<lfloor>x * 10 ^ 9\<rfloor>" by (simp only: of_int_le_iff)
  then have lo: "(of_int n :: rat) / 10 ^ 9 \<le> of_int \<lfloor>x * 10 ^ 9\<rfloor> / 10 ^ 9" by (intro divide_right_mono) simp_all
  have "of_int \<lfloor>x * 10 ^ 9\<rfloor> \<le> x * 10 ^ 9" by (rule of_int_floor_le)
  then have hi: "of_int \<lfloor>x * 10 ^ 9\<rfloor> / 10 ^ 9 \<le> x" by (simp add: pos_divide_le_eq)
  show ?thesis using rnd64_mono [OF lo] rnd64_mono [OF hi] assms rnd64_rnd64 by (intro disjI1 antisym) simp_all
next
  case False
  then have "x * 10 ^ 9 \<le> of_int n" by (simp add: field_simps)
  then have "\<lceil>x * 10 ^ 9\<rceil> \<le> n" by (simp add: ceiling_le_iff)
  then have "(of_int \<lceil>x * 10 ^ 9\<rceil> :: rat) \<le> of_int n" by (simp only: of_int_le_iff)
  then have hi: "(of_int \<lceil>x * 10 ^ 9\<rceil> :: rat) / 10 ^ 9 \<le> of_int n / 10 ^ 9" by (intro divide_right_mono) simp_all
  have "x * 10 ^ 9 \<le> of_int \<lceil>x * 10 ^ 9\<rceil>" by (rule le_of_int_ceiling)
  then have lo: "x \<le> of_int \<lceil>x * 10 ^ 9\<rceil> / 10 ^ 9" by (simp add: pos_le_divide_eq)
  show ?thesis using rnd64_mono [OF lo] rnd64_mono [OF hi] assms rnd64_rnd64 by (intro disjI2 antisym) simp_all
qed

lemma shortest_found: "(k, m) \<in> set (candidates x) \<Longrightarrow> rnd64 (of_int m * 10 powi (- k)) = x \<Longrightarrow> shortest x \<noteq> None"
  unfolding shortest_def find_None_iff by blast

lemma candidates_nine: "(9, \<lfloor>x * 10 ^ 9\<rfloor>) \<in> set (candidates x)" "(9, \<lceil>x * 10 ^ 9\<rceil>) \<in> set (candidates x)"
proof -
  have "(9 :: int) \<in> set [-330..400]" unfolding set_upto by simp
  then have "set (decimals x 9) \<subseteq> set (candidates x)" unfolding candidates_def set_concat set_map by blast
  moreover have "(10 :: rat) powi 9 = 10 ^ 9" by (simp add: power_int_def)
  then have "(9, \<lfloor>x * 10 ^ 9\<rfloor>) \<in> set (decimals x 9)" "(9, \<lceil>x * 10 ^ 9\<rceil>) \<in> set (decimals x 9)" by (auto simp: decimals_def Let_def)
  ultimately show "(9, \<lfloor>x * 10 ^ 9\<rfloor>) \<in> set (candidates x)" "(9, \<lceil>x * 10 ^ 9\<rceil>) \<in> set (candidates x)" by blast+
qed

lemma shortest_exists:
  assumes "x = rnd64 (of_int n / 10 ^ 9)"
  obtains k m where "shortest x = Some (k, m)"
proof -
  have "(10 :: rat) powi (- 9) = 1 / 10 ^ 9" unfolding power_int_def by (simp add: power_divide)
  then have e: "(of_int m :: rat) * 10 powi (- 9) = of_int m / 10 ^ 9" for m by (simp only: times_divide_eq_right mult_1_right)
  have "shortest x \<noteq> None"
    using nine_decimals [OF assms]
  proof
    assume "rnd64 (of_int \<lfloor>x * 10 ^ 9\<rfloor> / 10 ^ 9) = x"
    then show ?thesis using shortest_found [OF candidates_nine(1)] e by metis
  next
    assume "rnd64 (of_int \<lceil>x * 10 ^ 9\<rceil> / 10 ^ 9) = x"
    then show ?thesis using shortest_found [OF candidates_nine(2)] e by metis
  qed
  then show ?thesis using that by auto
qed

lemma atou_shift: "atou a s = a * 10 ^ length s + atou 0 s"
proof (induction s arbitrary: a)
  case (Cons c s)
  show ?case using Cons [of "10 * a + digit_val c"] Cons [of "digit_val c"] by (simp add: algebra_simps)
qed simp

lemma utoa_all_digits: "list_all is_digit (utoa n)"
  by (simp add: list_all_iff utoa_digits)

lemma zero_pad_props:
  assumes "n < 10 ^ w" "0 < w"
  shows "length (zero_pad w n) = w" "atou 0 (zero_pad w n) = n" "list_all is_digit (zero_pad w n)"
  using length_utoa [OF assms] utoa_all_digits [of n] by (auto simp: zero_pad_def atou_zeros atou_utoa list_all_iff is_digit_def)

lemma digits_append: "list_all is_digit s \<Longrightarrow> \<not> is_digit c \<Longrightarrow> digits (s @ c # r) = (s, c # r)"
  by (induction s) (auto simp: digits_def)

lemma utoa_no_leading_zero: "\<not> (length (utoa n) > 1 \<and> hd (utoa n) = CHR ''0'')"
  using utoa_hd [of n] length_utoa [of n 1] by (cases "10 \<le> n") auto

lemma digit_not_minus: "list_all is_digit s \<Longrightarrow> s \<noteq> [] \<Longrightarrow> \<not> has_prefix (s @ r) ''-''"
  by (cases s) (auto simp: has_prefix_def is_digit_def)

text \<open>The text of a number reads as its value.\<close>

lemma json_num_whole: "json_num (utoa n @ CHR '','' # r) = Some (\<lparr>negative = False, whole = utoa n, fraction = [], exponent = 0\<rparr>, CHR '','' # r)"
proof -
  have "\<not> is_digit CHR '',''" by (simp add: is_digit_def)
  then have d: "digits (utoa n @ CHR '','' # r) = (utoa n, CHR '','' # r)" using digits_append utoa_all_digits by blast
  have "\<not> has_prefix (utoa n @ CHR '','' # r) ''-''" using digit_not_minus utoa_all_digits by simp
  then show ?thesis using utoa_no_leading_zero [of n] by (simp add: json_num_def d Let_def json_exponent_def has_prefix_def)
qed

lemma json_num_point:
  assumes "list_all is_digit s" "s \<noteq> []"
  shows "json_num (utoa n @ CHR ''.'' # s @ CHR '','' # r) = Some (\<lparr>negative = False, whole = utoa n, fraction = s, exponent = 0\<rparr>, CHR '','' # r)"
proof -
  have "\<not> is_digit CHR '',''" by (simp add: is_digit_def)
  then have d: "digits (s @ CHR '','' # r) = (s, CHR '','' # r)" using digits_append assms(1) by blast
  have d0: "digits (utoa n @ CHR ''.'' # s @ CHR '','' # r) = (utoa n, CHR ''.'' # s @ CHR '','' # r)" using digits_append utoa_all_digits by simp
  have "\<not> has_prefix (utoa n @ CHR ''.'' # s @ CHR '','' # r) ''-''" using digit_not_minus utoa_all_digits by simp
  then show ?thesis using utoa_no_leading_zero [of n] assms(2) by (simp add: json_num_def d d0 Let_def json_exponent_def has_prefix_def)
qed

lemma fixed_text_reads:
  "\<exists>v. json_num (fixed_text k m @ CHR '','' # r) = Some (v, CHR '','' # r) \<and> num_value v = (let x = rnd64 (of_nat m * 10 powi (- k)) in if \<bar>x\<bar> \<ge> 2 ^ 1024 then None else Some x)"
proof (cases "k \<le> 0")
  case True
  then have "(10 :: rat) powi (- k) = 10 ^ nat (- k)" by (simp add: power_int_def)
  then show ?thesis using True by (simp add: fixed_text_def json_num_whole num_value_def atou_utoa Let_def)
next
  case False
  define w q where "w = nat k" and "q = m div 10 ^ w"
  have w: "0 < w" and p: "m mod 10 ^ w < 10 ^ w" using False by (simp_all add: w_def)
  have "atou 0 (utoa q @ zero_pad w (m mod 10 ^ w)) = m"
    unfolding atou_append atou_utoa using atou_shift [of q "zero_pad w (m mod 10 ^ w)"] zero_pad_props(1,2) [OF p w] div_mult_mod_eq [of m "10 ^ w"] by (simp add: q_def)
  moreover have "zero_pad w (m mod 10 ^ w) \<noteq> []" using zero_pad_props(1) [OF p w] w by auto
  moreover have "fixed_text k m @ CHR '','' # r = utoa q @ CHR ''.'' # zero_pad w (m mod 10 ^ w) @ CHR '','' # r" using False by (simp add: fixed_text_def w_def q_def)
  moreover have "- int w = - k" using False by (simp add: w_def)
  ultimately show ?thesis using json_num_point [OF zero_pad_props(3) [OF p w]] zero_pad_props(1) [OF p w] by (simp add: num_value_def Let_def)
qed

subsection \<open>Cursors\<close>

lemma json_float_reads:
  assumes "x = rnd64 (of_int n / 10 ^ 9)" "1 / 10 ^ 6 \<le> x" "x < 10 ^ 21"
  shows "\<exists>v. json_num (json_float x @ CHR '','' # r) = Some (v, CHR '','' # r) \<and> num_value v = Some x"
proof -
  obtain k m where sh: "shortest x = Some (k, m)" using shortest_exists [OF assms(1)] .
  have pos: "0 < x" using assms(2) by (rule less_le_trans [rotated]) simp
  have rb: "rnd64 (of_int m * 10 powi (- k)) = x" "m = \<lfloor>x * 10 powi k\<rfloor> \<or> m = \<lceil>x * 10 powi k\<rceil>" using shortest_reads_back [OF sh] by simp_all
  have "0 \<le> x * 10 powi k" using pos by simp
  then have m: "0 \<le> m" using rb(2) by auto
  have "x < 2 ^ 1024" using assms(3) by (rule less_trans) simp
  moreover have "json_float x = fixed_text k (nat m)" using pos assms(2,3) m sh by (simp add: json_float_def)
  moreover have "(of_nat (nat m) :: rat) = of_int m" using m by simp
  ultimately show ?thesis using fixed_text_reads [of k "nat m" r] rb(1) pos by (simp add: Let_def)
qed

lemma skip_ws_char: "byte c \<notin> {32, 9, 10, 13} \<Longrightarrow> skip_ws (c # s) = c # s"
  by (simp add: skip_ws_def)

lemma json_num_head: "json_num (c # s) = Some (v, r) \<Longrightarrow> is_digit c \<or> c = CHR ''-''"
  by (auto simp: json_num_def digits_def Let_def has_prefix_def split: if_splits prod.splits)

lemma jvalue_num:
  assumes "json_num s = Some (v, r)"
  shows "jvalue (Suc n) d s = Some (VNum v, r)"
proof -
  have "json_num [] = None" by (simp add: json_num_def digits_def has_prefix_def)
  then obtain c t where s: "s = c # t" using assms by (cases s) auto
  have c: "is_digit c \<or> c = CHR ''-''" using json_num_head assms s by blast
  then have n: "c \<noteq> CHR ''{''" "c \<noteq> CHR ''[''" "c \<noteq> dquote" "c \<noteq> CHR ''t''" "c \<noteq> CHR ''f''" "c \<noteq> CHR ''n''"
    by (auto simp: is_digit_def dquote_def)
  have "byte c \<notin> {32, 9, 10, 13}" using c by (auto simp: byte_def is_digit_def)
  then show ?thesis using n assms s by (simp add: skip_ws_char has_prefix_def)
qed

lemma jvalue_str: "lit t = Some (x, r) \<Longrightarrow> jvalue (Suc n) d (dquote # t) = Some (VStr x, r)"
  by (simp add: skip_ws_char byte_def dquote_def)

lemma lit_plain: "c \<noteq> dquote \<Longrightarrow> c \<noteq> bs \<Longrightarrow> 32 \<le> byte c \<Longrightarrow> byte c < 0x80 \<Longrightarrow> lit (c # s) = map_option (\<lambda>(x, v). (c # x, v)) (lit s)"
  by (simp add: lit.simps(2) [of c])

lemma lit_keys: "lit (''ts'' @ dquote # r) = Some (''ts'', r)" "lit (''id'' @ dquote # r) = Some (''id'', r)"
proof -
  have "printable ''ts''" "json_chars ''ts'' = ''ts''" "printable ''id''" "json_chars ''id'' = ''id''" by code_simp+
  then show "lit (''ts'' @ dquote # r) = Some (''ts'', r)" "lit (''id'' @ dquote # r) = Some (''id'', r)"
    using lit_json_chars [of "''ts''" r] lit_json_chars [of "''id''" r] by simp_all
qed

lemma jmember_more:
  assumes "lit s1 = Some (key, CHR '':'' # s2)" "jvalue n d s2 = Some (v, CHR '','' # t)" "jmembers n d t = Some (ms, r)"
  shows "jmembers (Suc n) d (dquote # s1) = Some ((key, v) # ms, r)"
  using assms by (simp add: skip_ws_char byte_def dquote_def has_prefix_def)

lemma jmember_last:
  assumes "lit s1 = Some (key, CHR '':'' # s2)" "jvalue n d s2 = Some (v, CHR ''}'' # t)"
  shows "jmembers (Suc n) d (dquote # s1) = Some ([(key, v)], t)"
  using assms by (simp add: skip_ws_char byte_def dquote_def has_prefix_def)

lemma jvalue_object:
  assumes "jmembers n 1 (dquote # s) = Some (ms, r)"
  shows "jvalue (Suc n) 0 (CHR ''{'' # dquote # s) = Some (VObj ms, r)"
proof -
  have "skip_ws (CHR ''{'' # dquote # s) = CHR ''{'' # dquote # s" "skip_ws (dquote # s) = dquote # s" by (simp_all add: skip_ws_char byte_def dquote_def)
  then show ?thesis using assms by (simp add: has_prefix_def max_depth_def dquote_def)
qed

lemma json_round_trip:
  assumes "TS c = rnd64 (of_int n / 10 ^ 9)" "1 / 10 ^ 6 \<le> TS c" "TS c < 10 ^ 21" "printable (ID c)"
  shows "json_Unmarshal (json_Marshal c) = Some c"
proof -
  define tail1 where "tail1 = dquote # ''id'' @ dquote # CHR '':'' # dquote # json_chars (ID c) @ dquote # ''}''"
  obtain v where v: "json_num (json_float (TS c) @ CHR '','' # tail1) = Some (v, CHR '','' # tail1)" "num_value v = Some (TS c)"
    using json_float_reads [OF assms(1-3)] by blast
  have written: "json_Marshal c = CHR ''{'' # dquote # ''ts'' @ dquote # CHR '':'' # json_float (TS c) @ CHR '','' # tail1" by (simp add: json_Marshal_def tail1_def)
  have "jvalue (Suc i) 1 (dquote # json_chars (ID c) @ dquote # ''}'') = Some (VStr (ID c), ''}'')" for i
    using jvalue_str lit_json_chars [OF assms(4)] by blast
  then have m2: "jmembers (Suc (Suc i)) 1 tail1 = Some ([(''id'', VStr (ID c))], [])" for i
    unfolding tail1_def by (intro jmember_last [OF lit_keys(2)])
  have m1: "jmembers (Suc (Suc (Suc i))) 1 (dquote # ''ts'' @ dquote # CHR '':'' # json_float (TS c) @ CHR '','' # tail1) =
      Some ([(''ts'', VNum v), (''id'', VStr (ID c))], [])" for i
    by (intro jmember_more [OF lit_keys(1) jvalue_num [OF v(1)] m2])
  have j: "jvalue (Suc (Suc (Suc (Suc i)))) 0 (json_Marshal c) = Some (VObj [(''ts'', VNum v), (''id'', VStr (ID c))], [])" for i
    unfolding written by (rule jvalue_object [OF m1])
  have "2 * length (json_Marshal c) + 2 = Suc (Suc (Suc (Suc (2 * length (json_Marshal c) - 2))))" by (simp add: json_Marshal_def)
  then have "jvalue (2 * length (json_Marshal c) + 2) 0 (json_Marshal c) = Some (VObj [(''ts'', VNum v), (''id'', VStr (ID c))], [])" by (simp only: j)
  then show ?thesis using v(2) by (simp add: json_Unmarshal_def skip_ws_def del: jvalue.simps)
qed

text \<open>
  A record as the server makes it: the time is the clock's \<^verbatim>\<open>int64\<close> of nanoseconds, from the second second of 1970
  on, divided as float64; the request id is printable ASCII.
\<close>

definition ordinary :: "ConversionRecord \<Rightarrow> bool" where
  "ordinary r \<longleftrightarrow> (\<exists>n. 10 ^ 9 \<le> n \<and> n < 2 ^ 63 \<and> CompletionTS r = nowEpoch n) \<and> printable (RequestID r)"

lemma fl_is_int: "0 < n \<Longrightarrow> \<exists>i. fl n = of_int i"
proof (cases "n < 2 ^ 53")
  case True
  moreover assume "0 < n"
  ultimately have "fl n = of_int n" by (intro fl_int) simp
  then show ?thesis by blast
next
  case False
  define x :: rat where "x = of_int n"
  have "(of_int (2 ^ 53) :: rat) \<le> of_int n" using False by (simp only: of_int_le_iff not_less)
  then have x: "2 ^ 53 \<le> x" by (simp add: x_def)
  then have pos: "0 < x" by (rule less_le_trans [rotated]) simp
  have "(2 :: rat) powi 53 = 2 ^ 53" by (simp add: power_int_def)
  then have "(2 :: rat) powi 53 < 2 powi (binade x + 1)" using x binade_bounds(2) [OF pos] by linarith
  then have "53 < binade x + 1" using power_int_increasing [of "binade x + 1" 53 "2 :: rat"] by (cases "53 < binade x + 1") auto
  then have "ulp x = of_int (2 ^ nat (binade x - 52))" using pos by (simp add: ulp_def power_int_def)
  then have "fl n = of_int (round_even (x / ulp x) * 2 ^ nat (binade x - 52))" using pos by (simp add: fl_def rnd64_def flip: x_def)
  then show ?thesis by blast
qed

lemma nowEpoch_form:
  assumes "10 ^ 9 \<le> n" "n < 2 ^ 63"
  obtains i where "nowEpoch n = rnd64 (of_int i / 10 ^ 9)" "1 \<le> nowEpoch n" "nowEpoch n < 10 ^ 21"
proof -
  obtain i where i: "fl n = of_int i" using fl_is_int [of n] assms(1) by fastforce
  have "fl (10 ^ 9) \<le> fl n" using assms(1) by (rule fl_mono)
  then have "10 ^ 9 \<le> fl n" by (simp add: fl_int)
  then have "1 \<le> fl n / 10 ^ 9" by simp
  then have lo: "1 \<le> nowEpoch n" using rnd64_mono [of 1 "fl n / 10 ^ 9"] rnd64_of_int [of 1] by (simp add: nowEpoch_def fdiv_def)
  have "fl n \<le> fl (2 ^ 63)" using assms(2) by (intro fl_mono) simp
  moreover have "fl (2 ^ 63) = 2 ^ 63" using rnd64_exact [of 1 63] by (simp add: fl_def power_int_def)
  ultimately have "fl n / 10 ^ 9 \<le> 2 ^ 40" by simp
  then have "nowEpoch n \<le> rnd64 (2 ^ 40)" by (auto simp: nowEpoch_def fdiv_def intro: rnd64_mono)
  also have "rnd64 (2 ^ 40) = 2 ^ 40" using rnd64_of_int [of "2 ^ 40"] by simp
  also have "(2 ^ 40 :: rat) < 10 ^ 21" by simp
  finally show ?thesis using that [of i] i lo by (simp add: nowEpoch_def fdiv_def)
qed

lemma cursor_round_trip:
  assumes "ordinary r"
  shows "DecodeCursor (Encode (cursor_of r)) = Some (cursor_of r)"
proof -
  obtain n where n: "10 ^ 9 \<le> n" "n < 2 ^ 63" "CompletionTS r = nowEpoch n" and p: "printable (RequestID r)" using assms by (auto simp: ordinary_def)
  obtain i where i: "nowEpoch n = rnd64 (of_int i / 10 ^ 9)" "1 \<le> nowEpoch n" "nowEpoch n < 10 ^ 21" using nowEpoch_form [OF n(1,2)] .
  have "1 / 10 ^ 6 \<le> nowEpoch n" using i(2) by (rule order_trans [rotated]) simp
  then have "json_Unmarshal (json_Marshal (cursor_of r)) = Some (cursor_of r)"
    using json_round_trip [of "cursor_of r" i] i(1,3) n(3) p by (simp add: cursor_of_def)
  then show ?thesis by (simp add: DecodeCursor_def Encode_def b64_round_trip)
qed

section \<open>Properties\<close>

text \<open>
  C32: The pagination of the recent conversions is complete with its real tokens. A client that follows the cursors the
  server hands out (URL-safe base64 of JSON, the time as the shortest decimal of the float64) over an unchanged,
  strictly descending history of ordinary records receives every record exactly once, in order, for every page size,
  and stops after at most one request per record.
\<close>

theorem history_walk_complete:
  assumes "descending items" "0 < limit" "\<forall>r \<in> set items. ordinary r" "length items < n"
  shows "walk Encode DecodeCursor items limit n None = Some items"
  using assms(1,2,4) cursor_round_trip assms(3) by (intro paginate_walk_complete) auto

text \<open>The witness: two conversions, one record per page.\<close>

theorem history_walk_complete_witness:
  "walk Encode DecodeCursor [finished (nowEpoch (2 * 10 ^ 9)) ''b'', finished (nowEpoch (10 ^ 9)) ''a''] 1 3 None =
     Some [finished (nowEpoch (2 * 10 ^ 9)) ''b'', finished (nowEpoch (10 ^ 9)) ''a'']"
proof (rule history_walk_complete)
  have e: "nowEpoch (2 * 10 ^ 9) = 2" "nowEpoch (10 ^ 9) = 1"
    using rnd64_of_int [of 2] rnd64_of_int [of 1] by (simp_all add: nowEpoch_def fdiv_def fl_int)
  show "descending [finished (nowEpoch (2 * 10 ^ 9)) ''b'', finished (nowEpoch (10 ^ 9)) ''a'']"
    unfolding e by (simp add: descending_def lessTuple_def finished_def)
  have "printable ''a''" "printable ''b''" by code_simp+
  then show "\<forall>r \<in> set [finished (nowEpoch (2 * 10 ^ 9)) ''b'', finished (nowEpoch (10 ^ 9)) ''a'']. ordinary r"
    by (auto simp: ordinary_def finished_def intro: exI [of _ "2 * 10 ^ 9"] exI [of _ "10 ^ 9"])
qed simp_all

end
