(* ===== verification/Fs.thy ===== *)
theory Fs
  imports Errors "HOL-Library.Sublist"
begin

text \<open>
  The operating system as the code uses it. A file system is a map from paths to contents;
  directories are not represented, so \<^verbatim>\<open>os.MkdirAll\<close> has no effect on it. An operation may fail
  for a reason outside the program (permissions, a full disk): a record \<open>os_faults\<close> says which
  paths fail and with which text. A file operation also yields the states it passes through, one
  per atomic step, so that crash and concurrent-reader properties can be stated: \<open>'a io\<close> is a
  function from a file system to the result and the list of states. A subprocess is a function
  from its argument vector and the file system to an outcome (and, for the workers, a new file
  system). A destination writer accepts bytes until it fails.
\<close>

section \<open>Definitions\<close>

type_synonym fs = "string \<rightharpoonup> string"

record os_faults =
  open_err :: "string \<Rightarrow> string option"
  create_err :: "string \<Rightarrow> string option"
  write_err :: "string \<Rightarrow> (nat \<times> string) option"
  rename_err :: "string \<Rightarrow> string option"
  remove_err :: "string \<Rightarrow> string option"
  mkdir_err :: "string \<Rightarrow> string option"

definition no_faults :: os_faults where
  "no_faults =
     \<lparr>open_err = (\<lambda>_. None), create_err = (\<lambda>_. None), write_err = (\<lambda>_. None), rename_err = (\<lambda>_. None),
      remove_err = (\<lambda>_. None), mkdir_err = (\<lambda>_. None)\<rparr>"

type_synonym 'a io = "fs \<Rightarrow> 'a \<times> fs list"

definition final_fs :: "fs \<Rightarrow> fs list \<Rightarrow> fs" where
  "final_fs s tr = last (s # tr)"

definition io_return :: "'a \<Rightarrow> 'a io" where
  "io_return a = (\<lambda>s. (a, []))"

definition io_bind :: "'a io \<Rightarrow> ('a \<Rightarrow> 'b io) \<Rightarrow> 'b io" where
  "io_bind m k =
     (\<lambda>s. let (a, tr) = m s; (b, tr') = k a (final_fs s tr) in (b, tr @ tr'))"

definition run_io :: "'a io \<Rightarrow> fs \<Rightarrow> 'a \<times> fs" where
  "run_io m s = (let (a, tr) = m s in (a, final_fs s tr))"

text \<open>The primitives. \<^verbatim>\<open>io.Copy\<close> passes through every prefix of the content.\<close>

definition os_Open :: "os_faults \<Rightarrow> string \<Rightarrow> (string, string) result io" where
  "os_Open os p = (\<lambda>s.
     (case open_err os p of
        Some e \<Rightarrow> (Err e, [])
      | None \<Rightarrow> (case s p of None \<Rightarrow> (Err (''open '' @ p @ '': no such file or directory''), [])
                          | Some c \<Rightarrow> (Ok c, []))))"

definition os_Create :: "os_faults \<Rightarrow> string \<Rightarrow> string option io" where
  "os_Create os p = (\<lambda>s.
     (case create_err os p of Some e \<Rightarrow> (Some e, []) | None \<Rightarrow> (None, [s(p \<mapsto> '''')])))"

definition io_Copy :: "os_faults \<Rightarrow> string \<Rightarrow> string \<Rightarrow> string option io" where
  "io_Copy os p c = (\<lambda>s.
     (case write_err os p of
        Some (n, e) \<Rightarrow>
          if n < length c then (Some e, map (\<lambda>k. s(p \<mapsto> take k c)) [1..<Suc n])
          else (None, map (\<lambda>k. s(p \<mapsto> take k c)) [1..<Suc (length c)])
      | None \<Rightarrow> (None, map (\<lambda>k. s(p \<mapsto> take k c)) [1..<Suc (length c)])))"

definition os_Rename :: "os_faults \<Rightarrow> string \<Rightarrow> string \<Rightarrow> string option io" where
  "os_Rename os p q = (\<lambda>s.
     (case rename_err os q of
        Some e \<Rightarrow> (Some e, [])
      | None \<Rightarrow> (case s p of
          None \<Rightarrow> (Some (''rename '' @ p @ '' '' @ q @ '': no such file or directory''), [])
        | Some c \<Rightarrow> (None, [(s(p := None))(q \<mapsto> c)]))))"

definition os_Remove :: "os_faults \<Rightarrow> string \<Rightarrow> string option io" where
  "os_Remove os p = (\<lambda>s.
     (case remove_err os p of
        Some e \<Rightarrow> (Some e, [])
      | None \<Rightarrow> (case s p of
          None \<Rightarrow> (Some (''remove '' @ p @ '': no such file or directory''), [])
        | Some c \<Rightarrow> (None, [s(p := None)]))))"

definition os_Stat :: "string \<Rightarrow> fs \<Rightarrow> bool" where
  "os_Stat p s = (s p \<noteq> None)"

subsection \<open>Paths\<close>

text \<open>
  \<^verbatim>\<open>filepath.Clean\<close>, \<^verbatim>\<open>filepath.Join\<close> and \<^verbatim>\<open>filepath.Dir\<close> on Unix: the components of a path
  with empty and \<open>.\<close> components dropped and \<open>..\<close> resolved; \<open>st\<close> is the stack of components, last first.
\<close>

definition push_comp :: "bool \<Rightarrow> string \<Rightarrow> string list \<Rightarrow> string list" where
  "push_comp rooted w st =
     (if w = '''' \<or> w = ''.'' then st
      else if w = ''..'' then
        (case st of
           [] \<Rightarrow> if rooted then [] else [''..'']
         | t # ts \<Rightarrow> if t = ''..'' then ''..'' # st else ts)
      else w # st)"

definition rooted :: "string \<Rightarrow> bool" where
  "rooted p = has_prefix p ''/''"

definition path_comps :: "string \<Rightarrow> string list" where
  "path_comps p = rev (fold (push_comp (rooted p)) (split CHR ''/'' p) [])"

definition path_text :: "bool \<Rightarrow> string list \<Rightarrow> string" where
  "path_text r cs = (if r then ''/'' @ join ''/'' cs else if cs = [] then ''.'' else join ''/'' cs)"

definition clean :: "string \<Rightarrow> string" where
  "clean p = path_text (rooted p) (path_comps p)"

definition path_join :: "string list \<Rightarrow> string" where
  "path_join ps =
     (let es = filter (\<lambda>p. p \<noteq> '''') ps in if es = [] then '''' else clean (join ''/'' es))"

definition path_dir :: "string \<Rightarrow> string" where
  "path_dir p = (case cut_last CHR ''/'' p of None \<Rightarrow> ''.'' | Some (d, _) \<Rightarrow> clean d)"

subsection \<open>Processes and writers\<close>

datatype proc =
    SpawnFailed string
  | TimedOut
  | Exited int string string

text \<open>
  \<open>w_cap\<close> is the number of bytes the destination accepts before its \<^verbatim>\<open>Write\<close> fails (a client that
  goes away), \<open>None\<close> when it never fails; \<open>w_called\<close> says that \<^verbatim>\<open>Write\<close> has been called. Copying nothing
  makes no call.
\<close>

record Writer =
  written :: string
  w_cap :: "nat option"
  w_called :: bool

definition write_to :: "Writer \<Rightarrow> string \<Rightarrow> Writer \<times> bool" where
  "write_to w p =
     (case w_cap w of
        None \<Rightarrow> (w\<lparr>written := written w @ p, w_called := w_called w \<or> p \<noteq> ''''\<rparr>, True)
      | Some k \<Rightarrow>
          (w\<lparr>written := written w @ take k p, w_cap := Some (k - length p), w_called := w_called w \<or> p \<noteq> ''''\<rparr>, length p \<le> k))"

section \<open>Lemmas\<close>

lemma final_fs_simps [simp]:
  "final_fs s [] = s" "final_fs s (tr @ [t]) = t" "final_fs s (tr @ x # tr') = final_fs x tr'"
  by (simp_all add: final_fs_def)

lemma final_fs_Cons: "final_fs s (x # tr) = final_fs x tr"
  by (simp add: final_fs_def)

lemma final_fs_append: "final_fs s (tr @ tr') = final_fs (final_fs s tr) tr'"
  by (cases tr' rule: rev_cases) (simp_all add: final_fs_def)

lemma run_io_bind: "run_io (io_bind m k) s = (let (a, s') = run_io m s in run_io (k a) s')"
  by (simp add: run_io_def io_bind_def final_fs_append split: prod.split)

lemma run_io_return [simp]: "run_io (io_return a) s = (a, s)"
  by (simp add: run_io_def io_return_def)

lemma run_Open [fs_simps]:
  "open_err os p = None \<Longrightarrow> s p = Some c \<Longrightarrow> run_io (os_Open os p) s = (Ok c, s)"
  by (simp add: run_io_def os_Open_def)

lemma run_Create [fs_simps]:
  "create_err os p = None \<Longrightarrow> run_io (os_Create os p) s = (None, s(p \<mapsto> ''''))"
  by (simp add: run_io_def os_Create_def final_fs_Cons)

lemma final_prefixes: "s p = Some [] \<Longrightarrow> n \<le> length c \<Longrightarrow> final_fs s (map (\<lambda>k. s(p \<mapsto> take k c)) [1..<Suc n]) = s(p \<mapsto> take n c)"
  by (cases n) (auto simp: final_fs_def fun_upd_idem)

lemma run_Copy [fs_simps]:
  "write_err os p = None \<Longrightarrow> s p = Some [] \<Longrightarrow> run_io (io_Copy os p c) s = (None, s(p \<mapsto> c))"
  using final_prefixes [of s p "length c" c] by (simp add: run_io_def io_Copy_def del: upt_Suc)

lemma run_Rename [fs_simps]:
  "rename_err os q = None \<Longrightarrow> s p = Some c \<Longrightarrow> run_io (os_Rename os p q) s = (None, (s(p := None))(q \<mapsto> c))"
  by (simp add: run_io_def os_Rename_def final_fs_Cons)

text \<open>A destination that has taken all of \<open>c\<close> and never fails.\<close>

definition received :: "Writer \<Rightarrow> string \<Rightarrow> Writer" where
  "received w c = w\<lparr>written := written w @ c, w_called := w_called w \<or> c \<noteq> ''''\<rparr>"

lemma received_sel [simp]:
  "written (received w c) = written w @ c" "w_cap (received w c) = w_cap w" "w_called (received w c) = (w_called w \<or> c \<noteq> '''')"
  by (simp_all add: received_def)

lemma write_to_uncapped [simp]: "w_cap w = None \<Longrightarrow> write_to w p = (received w p, True)"
  by (simp add: write_to_def received_def)

lemma no_faults_sel [simp]:
  "open_err no_faults p = None" "create_err no_faults p = None" "write_err no_faults p = None"
  "rename_err no_faults p = None" "remove_err no_faults p = None" "mkdir_err no_faults p = None"
  by (simp_all add: no_faults_def)

subsection \<open>Paths\<close>

text \<open>A plain file name: one component that \<^verbatim>\<open>Clean\<close> keeps.\<close>

definition plain_name :: "string \<Rightarrow> bool" where
  "plain_name w = (w \<noteq> '''' \<and> w \<noteq> ''.'' \<and> w \<noteq> ''..'' \<and> CHR ''/'' \<notin> set w)"

lemma push_plain: "plain_name w \<Longrightarrow> push_comp r w st = w # st"
  by (simp add: push_comp_def plain_name_def)

lemma rooted_append: "p \<noteq> '''' \<Longrightarrow> rooted (p @ q) = rooted p"
  by (cases p) (simp_all add: rooted_def has_prefix_def)

lemma path_comps_append:
  assumes "p \<noteq> ''''" "plain_name w"
  shows "path_comps (p @ ''/'' @ w) = path_comps p @ [w]"
proof -
  have "split CHR ''/'' (p @ ''/'' @ w) = split CHR ''/'' p @ [w]"
    using assms(2) split_append [of "CHR ''/''" p w] by (simp add: plain_name_def split_no_sep)
  then show ?thesis using assms by (simp add: path_comps_def rooted_append push_plain)
qed

lemma push_comp_slash:
  "CHR ''/'' \<notin> set w \<Longrightarrow> \<forall>x \<in> set st. CHR ''/'' \<notin> set x \<Longrightarrow> \<forall>x \<in> set (push_comp r w st). CHR ''/'' \<notin> set x"
  by (auto simp: push_comp_def split: list.splits if_splits)

lemma path_comps_slash: "x \<in> set (path_comps p) \<Longrightarrow> CHR ''/'' \<notin> set x"
proof -
  have "\<forall>x \<in> set (fold (push_comp r) ws st). CHR ''/'' \<notin> set x"
    if "\<forall>w \<in> set ws. CHR ''/'' \<notin> set w" "\<forall>x \<in> set st. CHR ''/'' \<notin> set x" for r ws st
    using that
  proof (induction ws arbitrary: st)
    case (Cons w ws)
    from Cons.prems have "\<forall>x \<in> set (push_comp r w st). CHR ''/'' \<notin> set x" by (intro push_comp_slash) auto
    with Cons.prems show ?case using Cons.IH [of "push_comp r w st"] by simp
  qed simp
  from this [of "split CHR ''/'' p" "[]" "rooted p"] show "x \<in> set (path_comps p) \<Longrightarrow> CHR ''/'' \<notin> set x"
    using split_pieces by (auto simp: path_comps_def)
qed

lemma path_text_inj:
  assumes "path_text r cs = path_text r cs'" "cs \<noteq> []" "cs' \<noteq> []"
    and "\<forall>x \<in> set cs. CHR ''/'' \<notin> set x" "\<forall>x \<in> set cs'. CHR ''/'' \<notin> set x"
  shows "cs = cs'"
proof -
  have "join ''/'' cs = join ''/'' cs'" using assms by (simp add: path_text_def split: if_splits)
  then have "split CHR ''/'' (join ''/'' cs) = split CHR ''/'' (join ''/'' cs')" by simp
  then show ?thesis using assms(2-5) by (simp add: split_join)
qed

lemma join_snoc: "xs \<noteq> [] \<Longrightarrow> join sep (xs @ [y]) = join sep xs @ sep @ y"
  by (induction sep xs rule: join.induct) auto

lemma join_not_Nil: "xs \<noteq> [] \<Longrightarrow> \<forall>x \<in> set xs. x \<noteq> [] \<Longrightarrow> join sep xs \<noteq> []"
  by (induction sep xs rule: join.induct) auto

text \<open>
  \<^verbatim>\<open>filepath.Join\<close> of a non-empty directory and two plain names keeps the names as the last two
  components, so it is injective in them.
\<close>

definition base_text :: "string \<Rightarrow> string \<Rightarrow> string" where
  "base_text d v = join ''/'' (filter (\<lambda>p. p \<noteq> '''') [d, v])"

lemma base_text_not_Nil: "d \<noteq> '''' \<Longrightarrow> base_text d v \<noteq> ''''"
  by (simp add: base_text_def)

lemma path_join_form:
  assumes "d \<noteq> ''''" "plain_name x" "plain_name y"
  shows "path_join [d, v, x, y] = path_text (rooted (base_text d v)) (path_comps (base_text d v) @ [x, y])"
proof -
  define es where "es = filter (\<lambda>p. p \<noteq> '''') [d, v]"
  define e where "e = base_text d v"
  have es: "es \<noteq> []" and e: "e = join ''/'' es" "e \<noteq> ''''"
    using assms(1) by (auto simp: es_def e_def base_text_def)
  have "filter (\<lambda>p. p \<noteq> '''') [d, v, x, y] = (es @ [x]) @ [y]"
    using assms by (simp add: es_def plain_name_def)
  moreover have "join ''/'' ((es @ [x]) @ [y]) = (e @ ''/'' @ x) @ ''/'' @ y"
    using es join_snoc [of "es @ [x]" "''/''" y] join_snoc [of es "''/''" x] by (simp add: e)
  ultimately have "path_join [d, v, x, y] = clean ((e @ ''/'' @ x) @ ''/'' @ y)"
    by (simp add: path_join_def)
  also have "path_comps ((e @ ''/'' @ x) @ ''/'' @ y) = path_comps e @ [x, y]"
    using assms \<open>e \<noteq> ''''\<close> path_comps_append [of "e @ ''/'' @ x" y] path_comps_append [of e x] by simp
  then have "clean ((e @ ''/'' @ x) @ ''/'' @ y) = path_text (rooted e) (path_comps e @ [x, y])"
    using \<open>e \<noteq> ''''\<close> by (simp add: clean_def rooted_append)
  finally show ?thesis by (simp add: e_def)
qed

lemma path_join_names_inj:
  assumes "path_join [d, v, a, b] = path_join [d, v, a', b']"
    and "d \<noteq> ''''" "plain_name a" "plain_name b" "plain_name a'" "plain_name b'"
  shows "a = a' \<and> b = b'"
proof -
  let ?e = "base_text d v"
  have "path_comps ?e @ [a, b] = path_comps ?e @ [a', b']"
    using assms by (intro path_text_inj [of "rooted ?e"]) (auto simp: path_join_form plain_name_def dest: path_comps_slash)
  then show ?thesis by simp
qed

lemma path_join_suffix:
  assumes "d \<noteq> ''''" "plain_name x" "plain_name y" "plain_name (y @ suf)"
  shows "path_join [d, v, x, y] @ suf = path_join [d, v, x, y @ suf]"
proof -
  have "join ''/'' (cs @ [x, y]) @ suf = join ''/'' (cs @ [x, y @ suf])" for cs
    using join_snoc [of "cs @ [x]" "''/''"] by simp
  then show ?thesis using assms by (simp add: path_join_form path_text_def)
qed

end
