(* ===== verification/Cache.thy ===== *)
theory Cache
  imports Fs
begin

text \<open>
  \<^verbatim>\<open>internal/cache/cache.go\<close>: the content-addressed PDF cache on the file system. The random part
  and process id of a temporary name are the arguments \<open>pid\<close> and \<open>rnd\<close>. \<^verbatim>\<open>Clear\<close> takes the
  sequence of visits that \<^verbatim>\<open>filepath.Walk\<close> makes; directories are not part of the file system
  model, so their removal has no effect on it. The lemmas show that a store is crash-safe (a reader
  sees the old file or the complete new one in every intermediate state), and, through the locale
  \<open>content_store\<close>, that each layer of the cache is a map from keys to contents.
\<close>

section \<open>Definitions\<close>

record Manager =
  cache_dir :: string
  asposeVersion :: string

definition Enabled :: "Manager \<Rightarrow> bool" where
  "Enabled m = (cache_dir m \<noteq> '''')"

definition NewManager :: "os_faults \<Rightarrow> string \<Rightarrow> string \<Rightarrow> (string, Manager) result" where
  "NewManager os dir version =
     (let m = \<lparr>cache_dir = dir, asposeVersion = version\<rparr>
      in if dir \<noteq> ''''
         then (case mkdir_err os (path_join [dir, version, ''final'']) of
                 Some e \<Rightarrow> Err e
               | None \<Rightarrow> (case mkdir_err os (path_join [dir, version, ''chunks'']) of Some e \<Rightarrow> Err e | None \<Rightarrow> Ok m))
         else Ok m)"

definition finalPath :: "Manager \<Rightarrow> string \<Rightarrow> string" where
  "finalPath m sourceSHA256 = path_join [cache_dir m, asposeVersion m, ''final'', sourceSHA256 @ ''.pdf'']"

definition chunkPath :: "Manager \<Rightarrow> string \<Rightarrow> string" where
  "chunkPath m chunkSHA256 = path_join [cache_dir m, asposeVersion m, ''chunks'', chunkSHA256 @ ''.pdf'']"

definition GetFinal :: "Manager \<Rightarrow> string \<Rightarrow> fs \<Rightarrow> string" where
  "GetFinal m sourceSHA256 s =
     (if \<not> Enabled m then ''''
      else (let p = finalPath m sourceSHA256 in if os_Stat p s then p else ''''))"

definition GetChunk :: "Manager \<Rightarrow> string \<Rightarrow> fs \<Rightarrow> string" where
  "GetChunk m chunkSHA256 s =
     (if \<not> Enabled m then ''''
      else (let p = chunkPath m chunkSHA256 in if os_Stat p s then p else ''''))"

definition tempName :: "int \<Rightarrow> string \<Rightarrow> string \<Rightarrow> string" where
  "tempName pid rnd target = target @ ''.tmp.'' @ itoa pid @ ''.'' @ rnd"

definition copyFile :: "os_faults \<Rightarrow> string \<Rightarrow> string \<Rightarrow> string option io" where
  "copyFile os src dst =
     io_bind (os_Open os src) (\<lambda>r. case r of
       Err e \<Rightarrow> io_return (Some e)
     | Ok c \<Rightarrow> io_bind (os_Create os dst) (\<lambda>e. case e of
         Some e \<Rightarrow> io_return (Some e)
       | None \<Rightarrow> io_Copy os dst c))"

text \<open>The deferred removal of the temporary file on an error.\<close>

definition remove_on_error :: "os_faults \<Rightarrow> string \<Rightarrow> string option \<Rightarrow> string option io" where
  "remove_on_error os tmp err =
     (case err of
        None \<Rightarrow> io_return None
      | Some e \<Rightarrow> io_bind (os_Remove os tmp) (\<lambda>_. io_return (Some e)))"

definition AtomicWrite :: "os_faults \<Rightarrow> int \<Rightarrow> string \<Rightarrow> string \<Rightarrow> string \<Rightarrow> string option io" where
  "AtomicWrite os pid rnd target source =
     (case mkdir_err os (path_dir target) of
        Some e \<Rightarrow> io_return (Some e)
      | None \<Rightarrow>
          (let tmp = tempName pid rnd target
           in io_bind (io_bind (copyFile os source tmp) (\<lambda>e. case e of
                  Some e \<Rightarrow> io_return (Some e)
                | None \<Rightarrow> os_Rename os tmp target))
                (remove_on_error os tmp)))"

definition PutFinal :: "os_faults \<Rightarrow> int \<Rightarrow> string \<Rightarrow> Manager \<Rightarrow> string \<Rightarrow> string \<Rightarrow> string option io" where
  "PutFinal os pid rnd m sourceSHA256 pdfPath =
     (if \<not> Enabled m then io_return None
      else AtomicWrite os pid rnd (finalPath m sourceSHA256) pdfPath)"

definition PutChunk :: "os_faults \<Rightarrow> int \<Rightarrow> string \<Rightarrow> Manager \<Rightarrow> string \<Rightarrow> string \<Rightarrow> string option io" where
  "PutChunk os pid rnd m chunkSHA256 pdfPath =
     (if \<not> Enabled m then io_return None
      else AtomicWrite os pid rnd (chunkPath m chunkSHA256) pdfPath)"

definition FinalTempPath :: "os_faults \<Rightarrow> int \<Rightarrow> string \<Rightarrow> Manager \<Rightarrow> string \<Rightarrow> string \<times> string option" where
  "FinalTempPath os pid rnd m sourceSHA256 =
     (if \<not> Enabled m then ('''', None)
      else (let target = finalPath m sourceSHA256
            in case mkdir_err os (path_dir target) of
                 Some e \<Rightarrow> ('''', Some e)
               | None \<Rightarrow> (tempName pid rnd target, None)))"

definition FinalizeFinal :: "os_faults \<Rightarrow> Manager \<Rightarrow> string \<Rightarrow> string \<Rightarrow> string option io" where
  "FinalizeFinal os m sourceSHA256 tempPath =
     (if \<not> Enabled m then io_bind (os_Remove os tempPath) (\<lambda>_. io_return None)
      else os_Rename os tempPath (finalPath m sourceSHA256))"

record ClearResult =
  ClearEnabled :: bool
  FilesDeleted :: int
  BytesFreed :: int
  ClearErrors :: int

text \<open>What \<^verbatim>\<open>filepath.Walk\<close> passes to its callback: an error, a directory, or a file and its size.\<close>

datatype visit = WalkErr | WalkDir string | WalkFile string int

fun clear_visit :: "os_faults \<Rightarrow> visit \<Rightarrow> ClearResult \<times> fs \<Rightarrow> ClearResult \<times> fs" where
  "clear_visit os WalkErr (res, s) = (res\<lparr>ClearErrors := ClearErrors res + 1\<rparr>, s)"
| "clear_visit os (WalkDir p) (res, s) = (res, s)"
| "clear_visit os (WalkFile p sz) (res, s) =
     (let res1 = res\<lparr>BytesFreed := BytesFreed res + sz\<rparr>
      in case run_io (os_Remove os p) s of
           (Some e, s') \<Rightarrow>
             (res1\<lparr>ClearErrors := ClearErrors res1 + 1, BytesFreed := BytesFreed res1 - sz\<rparr>, s')
         | (None, s') \<Rightarrow> (res1\<lparr>FilesDeleted := FilesDeleted res1 + 1\<rparr>, s'))"

definition Clear :: "os_faults \<Rightarrow> Manager \<Rightarrow> visit list \<Rightarrow> fs \<Rightarrow> ClearResult \<times> fs" where
  "Clear os m visits s =
     (if \<not> Enabled m
      then (\<lparr>ClearEnabled = False, FilesDeleted = 0, BytesFreed = 0, ClearErrors = 0\<rparr>, s)
      else fold (clear_visit os) visits
             (\<lparr>ClearEnabled = True, FilesDeleted = 0, BytesFreed = 0, ClearErrors = 0\<rparr>, s))"

text \<open>
  The interface of a keyed content store: a store under a key is read back under that key and
  leaves the other keys alone.
\<close>

locale content_store =
  fixes get :: "'k \<Rightarrow> 's \<Rightarrow> 'v option"
    and put :: "'k \<Rightarrow> 'v \<Rightarrow> 's \<Rightarrow> 's"
    and key_ok :: "'k \<Rightarrow> bool"
  assumes get_put: "key_ok k \<Longrightarrow> key_ok k' \<Longrightarrow> get k' (put k v s) = (if k' = k then Some v else get k' s)"
begin

lemma get_puts:
  assumes "\<forall>(k, v) \<in> set kvs. key_ok k" "key_ok k'"
  shows "get k' (fold (\<lambda>(k, v). put k v) kvs s) = (case map_of (rev kvs) k' of Some v \<Rightarrow> Some v | None \<Rightarrow> get k' s)"
  using assms
proof (induction kvs arbitrary: s)
  case (Cons kv kvs)
  then show ?case by (cases kv) (auto simp: get_put map_add_def split: option.split)
qed simp

lemma put_put_same: "key_ok k \<Longrightarrow> key_ok k' \<Longrightarrow> get k' (put k v (put k u s)) = get k' (put k v s)"
  by (simp add: get_put)

end

section \<open>Atomic writes\<close>

text \<open>The states in which only the path \<open>p\<close> may differ from \<open>s\<close>.\<close>

definition only_at :: "string \<Rightarrow> fs \<Rightarrow> fs \<Rightarrow> bool" where
  "only_at p s s' = (\<forall>q. q \<noteq> p \<longrightarrow> s' q = s q)"

lemma only_at_refl [simp]: "only_at p s s"
  by (simp add: only_at_def)

lemma only_at_upd [simp]: "only_at p s (s'(p := x)) \<longleftrightarrow> only_at p s s'"
  by (auto simp: only_at_def)

lemma final_mem: "final_fs s tr = s \<or> final_fs s tr \<in> set tr"
  by (cases tr rule: rev_cases) (auto simp: final_fs_def)

lemma remove_trace: "snd (remove_on_error os tmp e s) = [] \<or> snd (remove_on_error os tmp e s) = [s(tmp := None)]"
  by (auto simp: remove_on_error_def os_Remove_def io_bind_def io_return_def split: option.splits)

lemma remove_result [simp]: "fst (remove_on_error os tmp e s) = e"
  by (simp add: remove_on_error_def io_bind_def io_return_def split: option.split prod.split)

lemma Copy_trace: "st \<in> set (snd (io_Copy os p c s)) \<Longrightarrow> only_at p s st"
  by (auto simp: io_Copy_def split: option.splits if_splits)

lemma Copy_final:
  assumes "fst (io_Copy os p c s) = None" "s p = Some []"
  shows "final_fs s (snd (io_Copy os p c s)) = s(p \<mapsto> c)"
  using assms final_prefixes [of s p "length c" c]
  by (auto simp: io_Copy_def split: option.splits if_splits simp del: upt_Suc)

lemma copyFile_trace:
  "(\<forall>st \<in> set (snd (copyFile os src tmp s)). only_at tmp s st) \<and>
   (fst (copyFile os src tmp s) = None \<longrightarrow>
      (\<exists>c. s src = Some c \<and> final_fs s (snd (copyFile os src tmp s)) = s(tmp \<mapsto> c)))"
proof (cases "fst (os_Open os src s)")
  case (Inl e)
  then show ?thesis
    by (auto simp: copyFile_def io_bind_def os_Open_def io_return_def split: option.splits)
next
  case (Inr c)
  then have src: "s src = Some c" and op: "os_Open os src s = (Ok c, [])"
    by (auto simp: os_Open_def split: option.splits)
  show ?thesis
  proof (cases "create_err os tmp")
    case (Some e)
    then show ?thesis by (simp add: copyFile_def io_bind_def op os_Create_def io_return_def)
  next
    case None
    define s1 where "s1 = s(tmp \<mapsto> [])"
    have run: "copyFile os src tmp s = (fst (io_Copy os tmp c s1), s1 # snd (io_Copy os tmp c s1))"
      by (simp add: copyFile_def io_bind_def op os_Create_def None s1_def final_fs_Cons split: prod.split)
    have "only_at tmp s st" if "st \<in> set (snd (io_Copy os tmp c s1))" for st
      using Copy_trace [OF that] by (simp add: s1_def only_at_def)
    moreover have "final_fs s1 (snd (io_Copy os tmp c s1)) = s1(tmp \<mapsto> c)" if "fst (io_Copy os tmp c s1) = None"
      using Copy_final [OF that] by (simp add: s1_def)
    ultimately show ?thesis using src by (auto simp: run final_fs_Cons s1_def)
  qed
qed

lemma io_bind_pair:
  "io_bind m k s = (fst (k (fst (m s)) (final_fs s (snd (m s)))), snd (m s) @ snd (k (fst (m s)) (final_fs s (snd (m s)))))"
  by (simp add: io_bind_def Let_def split_beta)

lemma tempName_ne: "tempName pid rnd target \<noteq> target"
  by (simp add: tempName_def)

text \<open>The body of \<^verbatim>\<open>AtomicWrite\<close> before the deferred removal.\<close>

lemma rename_body:
  fixes os :: os_faults and source tmp target :: string and s :: fs
  assumes "tmp \<noteq> target"
  defines "body \<equiv> io_bind (copyFile os source tmp) (\<lambda>e. case e of Some e \<Rightarrow> io_return (Some e) | None \<Rightarrow> os_Rename os tmp target)"
  shows "(\<forall>st \<in> set (snd (body s)). only_at tmp s st \<or> (\<exists>c. s source = Some c \<and> st = (s(tmp := None))(target \<mapsto> c))) \<and>
    (fst (body s) \<noteq> None \<longrightarrow> only_at tmp s (final_fs s (snd (body s)))) \<and>
    (fst (body s) = None \<longrightarrow> (\<exists>c. s source = Some c \<and> final_fs s (snd (body s)) = (s(tmp := None))(target \<mapsto> c)))"
proof -
  define r tr where "r = fst (copyFile os source tmp s)" and "tr = snd (copyFile os source tmp s)"
  have cp: "copyFile os source tmp s = (r, tr)" by (simp add: r_def tr_def)
  have tr: "\<forall>st \<in> set tr. only_at tmp s st"
    and fin: "r = None \<Longrightarrow> \<exists>c. s source = Some c \<and> final_fs s tr = s(tmp \<mapsto> c)"
    using copyFile_trace [of os source tmp s] by (simp_all add: r_def tr_def)
  have at_end: "only_at tmp s (final_fs s tr)" using final_mem [of s tr] tr by auto
  show ?thesis
  proof (cases r)
    case (Some e)
    then have "body s = (Some e, tr)" by (simp add: body_def io_bind_def cp io_return_def)
    with tr at_end show ?thesis by simp
  next
    case None
    then obtain c where c: "s source = Some c" "final_fs s tr = s(tmp \<mapsto> c)" using fin by blast
    show ?thesis
    proof (cases "rename_err os target")
      case (Some e)
      then have "body s = (Some e, tr)" by (simp add: body_def io_bind_def cp None c(2) os_Rename_def)
      with tr at_end show ?thesis by simp
    next
      case none: None
      then have "body s = (None, tr @ [(s(tmp := None))(target \<mapsto> c)])"
        by (simp add: body_def io_bind_def cp None c(2) os_Rename_def)
      with tr c(1) show ?thesis by auto
    qed
  qed
qed

lemma AtomicWrite_trace:
  fixes os :: os_faults and pid :: int and rnd target source :: string and s :: fs
  defines "tr \<equiv> snd (AtomicWrite os pid rnd target source s)" and "tmp \<equiv> tempName pid rnd target"
  shows "(\<forall>st \<in> set tr. only_at tmp s st \<or> (\<exists>c. s source = Some c \<and> only_at tmp (s(target \<mapsto> c)) st)) \<and>
    (fst (AtomicWrite os pid rnd target source s) \<noteq> None \<longrightarrow> only_at tmp s (final_fs s tr)) \<and>
    (fst (AtomicWrite os pid rnd target source s) = None \<longrightarrow>
       (\<exists>c. s source = Some c \<and> final_fs s tr = (s(tmp := None))(target \<mapsto> c)))"
proof (cases "mkdir_err os (path_dir target)")
  case (Some e)
  then show ?thesis by (simp add: tr_def AtomicWrite_def io_return_def)
next
  case None
  define body where "body = io_bind (copyFile os source tmp) (\<lambda>e. case e of Some e \<Rightarrow> io_return (Some e) | None \<Rightarrow> os_Rename os tmp target)"
  define rm where "rm = snd (remove_on_error os tmp (fst (body s)) (final_fs s (snd (body s))))"
  have ne: "tmp \<noteq> target" by (simp add: tmp_def tempName_ne)
  note B = rename_body [OF ne, of os source s, folded body_def]
  have aw: "AtomicWrite os pid rnd target source s = (fst (body s), snd (body s) @ rm)"
    unfolding AtomicWrite_def None option.case Let_def tmp_def [symmetric] body_def [symmetric] io_bind_pair [of body] rm_def
    by simp
  have shift: "only_at tmp (s(target \<mapsto> c)) ((s(tmp := None))(target \<mapsto> c))" for c
    using ne by (auto simp: only_at_def)
  show ?thesis
  proof (cases "fst (body s)")
    case none: None
    then have "rm = []" by (simp add: rm_def remove_on_error_def io_return_def)
    with B none aw shift show ?thesis by (force simp: tr_def)
  next
    case (Some e)
    let ?f = "final_fs s (snd (body s))"
    have "only_at tmp s ?f" using B Some by simp
    moreover have "rm = [] \<or> rm = [?f(tmp := None)]" unfolding rm_def by (rule remove_trace)
    ultimately have "\<forall>st \<in> set rm. only_at tmp s st" "only_at tmp s (final_fs ?f rm)"
      by (auto simp: final_fs_Cons)
    with B Some aw shift show ?thesis by (auto simp: tr_def final_fs_append)
  qed
qed

section \<open>The two layers as maps\<close>

text \<open>A cache key: a non-empty name without dots or slashes, such as a hexadecimal hash.\<close>

definition sha_key :: "string \<Rightarrow> bool" where
  "sha_key k = (k \<noteq> '''' \<and> CHR ''.'' \<notin> set k \<and> CHR ''/'' \<notin> set k)"

lemma sha_plain: "sha_key k \<Longrightarrow> CHR ''/'' \<notin> set suf \<Longrightarrow> plain_name (k @ ''.pdf'' @ suf)"
  by (auto simp: sha_key_def plain_name_def)

lemmas sha_plain_simp = sha_plain [unfolded append_Cons append_Nil]

lemma layer_plain: "plain_name ''final''" "plain_name ''chunks''"
  by (simp_all add: plain_name_def)

lemma pdf_name_inj:
  assumes "sha_key k" "sha_key k'" "k @ ''.pdf'' @ suf = k' @ ''.pdf'' @ suf'"
  shows "k = k' \<and> suf = suf'"
proof -
  have "k @ CHR ''.'' # (''pdf'' @ suf) = k' @ CHR ''.'' # (''pdf'' @ suf')" using assms(3) by simp
  then have "k = k' \<and> ''pdf'' @ suf = ''pdf'' @ suf'" using assms(1,2) by (intro append_sep_inj) (auto simp: sha_key_def)
  then show ?thesis by simp
qed

text \<open>A path of a layer, with what follows the name: the cached file or one of its temporaries.\<close>

definition layer_path :: "Manager \<Rightarrow> string \<Rightarrow> string \<Rightarrow> string \<Rightarrow> string" where
  "layer_path m layer k suf = path_join [cache_dir m, asposeVersion m, layer, k @ ''.pdf'' @ suf]"

lemma layer_path_eq:
  "finalPath m k = layer_path m ''final'' k ''''" "chunkPath m k = layer_path m ''chunks'' k ''''"
  by (simp_all add: finalPath_def chunkPath_def layer_path_def)

lemma layer_path_inj:
  assumes "layer_path m l k suf = layer_path m l' k' suf'" "Enabled m" "plain_name l" "plain_name l'"
    and "sha_key k" "sha_key k'" "CHR ''/'' \<notin> set suf" "CHR ''/'' \<notin> set suf'"
  shows "l = l' \<and> k = k' \<and> suf = suf'"
proof -
  have "l = l' \<and> k @ ''.pdf'' @ suf = k' @ ''.pdf'' @ suf'"
    using assms by (intro path_join_names_inj [of "cache_dir m" "asposeVersion m"]) (simp_all add: layer_path_def Enabled_def sha_plain_simp)
  then show ?thesis using pdf_name_inj [OF assms(5,6)] by blast
qed

definition tmp_suffix :: "int \<Rightarrow> string \<Rightarrow> string" where
  "tmp_suffix pid rnd = ''.tmp.'' @ itoa pid @ ''.'' @ rnd"

lemma tmp_suffix_slash: "CHR ''/'' \<notin> set rnd \<Longrightarrow> CHR ''/'' \<notin> set (tmp_suffix pid rnd)"
  using utoa_digits [of "CHR ''/''"] by (auto simp: tmp_suffix_def itoa_def is_digit_def)

lemma tempName_layer:
  assumes "Enabled m" "plain_name l" "sha_key k" "CHR ''/'' \<notin> set rnd"
  shows "tempName pid rnd (layer_path m l k '''') = layer_path m l k (tmp_suffix pid rnd)"
proof -
  have "plain_name (k @ ''.pdf'')" "plain_name ((k @ ''.pdf'') @ tmp_suffix pid rnd)"
    using assms(3,4) sha_plain [of k "''''"] sha_plain [of k "tmp_suffix pid rnd"] tmp_suffix_slash [of rnd pid] by simp_all
  with assms(1,2) have "path_join [cache_dir m, asposeVersion m, l, k @ ''.pdf''] @ tmp_suffix pid rnd =
      path_join [cache_dir m, asposeVersion m, l, (k @ ''.pdf'') @ tmp_suffix pid rnd]"
    by (intro path_join_suffix) (simp_all add: Enabled_def)
  then show ?thesis by (simp add: tempName_def layer_path_def tmp_suffix_def)
qed

text \<open>A faultless store of the content of \<open>p\<close>.\<close>

lemma AtomicWrite_ok:
  assumes "s p = Some c"
  shows "run_io (AtomicWrite no_faults pid rnd target p) s = (None, (s(tempName pid rnd target := None))(target \<mapsto> c))"
proof -
  let ?tmp = "tempName pid rnd target"
  have "run_io (copyFile no_faults p ?tmp) s = (None, s(?tmp \<mapsto> c))"
    using assms by (simp add: copyFile_def run_io_bind run_Open run_Create run_Copy)
  then show ?thesis
    by (simp add: AtomicWrite_def Let_def run_io_bind run_Rename remove_on_error_def)
qed

text \<open>
  Reading a layer, and storing a content under a key through a source file \<open>p\<close> that holds it, as
  the orchestrator does with a freshly rendered chunk or a teed result.
\<close>

definition chunk_get :: "Manager \<Rightarrow> string \<Rightarrow> fs \<Rightarrow> string option" where
  "chunk_get m k s = (if GetChunk m k s = '''' then None else s (GetChunk m k s))"

definition chunk_put :: "Manager \<Rightarrow> int \<Rightarrow> string \<Rightarrow> string \<Rightarrow> string \<Rightarrow> string \<Rightarrow> fs \<Rightarrow> fs" where
  "chunk_put m pid rnd p k c s = snd (run_io (PutChunk no_faults pid rnd m k p) (s(p \<mapsto> c)))"

definition final_get :: "Manager \<Rightarrow> string \<Rightarrow> fs \<Rightarrow> string option" where
  "final_get m k s = (if GetFinal m k s = '''' then None else s (GetFinal m k s))"

definition final_put :: "Manager \<Rightarrow> int \<Rightarrow> string \<Rightarrow> string \<Rightarrow> string \<Rightarrow> fs \<Rightarrow> fs" where
  "final_put m pid rnd k c s =
     (let tmp = fst (FinalTempPath no_faults pid rnd m k) in snd (run_io (FinalizeFinal no_faults m k tmp) (s(tmp \<mapsto> c))))"

definition store_key :: "Manager \<Rightarrow> string \<Rightarrow> string \<Rightarrow> string \<Rightarrow> bool" where
  "store_key m rnd p k =
     (Enabled m \<and> sha_key k \<and> CHR ''/'' \<notin> set rnd \<and> p \<noteq> chunkPath m k)"

lemma layer_path_slash: "Enabled m \<Longrightarrow> plain_name l \<Longrightarrow> sha_key k \<Longrightarrow> CHR ''/'' \<notin> set suf \<Longrightarrow> CHR ''/'' \<in> set (layer_path m l k suf)"
  using join_snoc [of "path_comps (base_text (cache_dir m) (asposeVersion m)) @ [l]" "''/''" "k @ ''.pdf'' @ suf"]
  by (simp add: layer_path_def path_join_form Enabled_def sha_plain_simp path_text_def)

lemma get_def':
  "Enabled m \<Longrightarrow> sha_key k \<Longrightarrow> chunk_get m k s = s (layer_path m ''chunks'' k '''')"
  "Enabled m \<Longrightarrow> sha_key k \<Longrightarrow> final_get m k s = s (layer_path m ''final'' k '''')"
  using layer_path_slash [of m "''chunks''" k "''''"] layer_path_slash [of m "''final''" k "''''"] layer_plain
  by (auto simp: chunk_get_def final_get_def GetChunk_def GetFinal_def os_Stat_def layer_path_eq Let_def split: if_splits)

lemma chunk_put_eq:
  assumes "store_key m rnd p k"
  shows "chunk_put m pid rnd p k c s =
    ((s(p \<mapsto> c))(layer_path m ''chunks'' k (tmp_suffix pid rnd) := None))(layer_path m ''chunks'' k '''' \<mapsto> c)"
  using assms by (simp add: chunk_put_def PutChunk_def store_key_def AtomicWrite_ok layer_path_eq tempName_layer layer_plain)

lemma final_put_eq:
  assumes "store_key m rnd p k"
  shows "final_put m pid rnd k c s =
    (s(layer_path m ''final'' k (tmp_suffix pid rnd) := None))(layer_path m ''final'' k '''' \<mapsto> c)"
  using assms by (simp add: final_put_def FinalTempPath_def FinalizeFinal_def store_key_def run_Rename layer_path_eq
      tempName_layer layer_plain)

lemma layer_tmp_ne:
  assumes "store_key m rnd p k" "store_key m rnd p k'" "plain_name l" "plain_name l'"
  shows "layer_path m l k '''' \<noteq> layer_path m l' k' (tmp_suffix pid rnd)"
  using layer_path_inj [of m l k "''''" l' k' "tmp_suffix pid rnd"] assms tmp_suffix_slash [of rnd pid]
  by (auto simp: store_key_def tmp_suffix_def)

interpretation chunk_layer: content_store "chunk_get m" "chunk_put m pid rnd p" "store_key m rnd p" for m pid rnd p
proof
  fix k k' v s assume ok: "store_key m rnd p k" "store_key m rnd p k'"
  have "layer_path m ''chunks'' k' '''' \<noteq> p"
    using ok by (auto simp: store_key_def layer_path_eq)
  moreover have "layer_path m ''chunks'' k' '''' = layer_path m ''chunks'' k '''' \<longleftrightarrow> k' = k"
    using ok layer_path_inj [of m "''chunks''" k' "''''" "''chunks''" k "''''"] layer_plain by (auto simp: store_key_def)
  ultimately show "chunk_get m k' (chunk_put m pid rnd p k v s) = (if k' = k then Some v else chunk_get m k' s)"
    using ok layer_tmp_ne [OF ok(2,1) layer_plain(2) layer_plain(2), of pid]
    by (simp add: chunk_put_eq get_def' store_key_def)
qed

interpretation final_layer: content_store "final_get m" "final_put m pid rnd" "store_key m rnd ''''" for m pid rnd
proof
  fix k k' v s assume ok: "store_key m rnd '''' k" "store_key m rnd '''' k'"
  have "layer_path m ''final'' k' '''' = layer_path m ''final'' k '''' \<longleftrightarrow> k' = k"
    using ok layer_path_inj [of m "''final''" k' "''''" "''final''" k "''''"] layer_plain by (auto simp: store_key_def)
  then show "final_get m k' (final_put m pid rnd k v s) = (if k' = k then Some v else final_get m k' s)"
    using ok layer_tmp_ne [OF ok(2,1) layer_plain(1) layer_plain(1), of pid]
    by (simp add: final_put_eq [OF ok(1)] get_def' store_key_def)
qed

section \<open>Clearing\<close>

fun visited_files :: "visit list \<Rightarrow> (string \<times> int) list" where
  "visited_files [] = []"
| "visited_files (WalkFile p sz # vs) = (p, sz) # visited_files vs"
| "visited_files (v # vs) = visited_files vs"

fun walk_errs :: "visit list \<Rightarrow> int" where
  "walk_errs [] = 0"
| "walk_errs (WalkErr # vs) = 1 + walk_errs vs"
| "walk_errs (v # vs) = walk_errs vs"

text \<open>The files a faulty or faultless clear removes: those that exist and whose removal does not fail.\<close>

definition removable :: "os_faults \<Rightarrow> fs \<Rightarrow> string \<times> int \<Rightarrow> bool" where
  "removable os s f = (remove_err os (fst f) = None \<and> s (fst f) \<noteq> None)"

lemma run_Remove:
  "run_io (os_Remove os p) s =
     (if removable os s (p, sz) then (None, s(p := None))
      else (fst (run_io (os_Remove os p) s), s)) \<and>
   (\<not> removable os s (p, sz) \<longrightarrow> fst (run_io (os_Remove os p) s) \<noteq> None)"
  by (auto simp: run_io_def os_Remove_def removable_def final_fs_Cons split: option.splits)

lemma clear_fold:
  assumes "distinct (map fst (visited_files vs))"
  shows "fold (clear_visit os) vs (res, s) =
    (res\<lparr>FilesDeleted := FilesDeleted res + int (length (filter (removable os s) (visited_files vs))),
         BytesFreed := BytesFreed res + sum_list (map snd (filter (removable os s) (visited_files vs))),
         ClearErrors := ClearErrors res + walk_errs vs + int (length (filter (\<lambda>f. \<not> removable os s f) (visited_files vs)))\<rparr>,
     (\<lambda>p. if p \<in> fst ` set (filter (removable os s) (visited_files vs)) then None else s p))"
  using assms
proof (induction vs arbitrary: res s)
  case (Cons v vs)
  show ?case
  proof (cases v)
    case (WalkFile p sz)
    let ?fs = "visited_files vs"
    have p: "p \<notin> fst ` set ?fs" using Cons.prems WalkFile by simp
    have same: "removable os (s(p := None)) f = removable os s f" if "f \<in> set ?fs" for f
      using that p by (auto simp: removable_def)
    then have eqs: "filter (removable os (s(p := None))) ?fs = filter (removable os s) ?fs"
      "filter (\<lambda>f. \<not> removable os (s(p := None)) f) ?fs = filter (\<lambda>f. \<not> removable os s f) ?fs"
      by (auto intro: filter_cong)
    show ?thesis
    proof (cases "removable os s (p, sz)")
      case True
      then have "run_io (os_Remove os p) s = (None, s(p := None))" using run_Remove [of os p s sz] by simp
      moreover have "(\<lambda>q. if q \<in> F then None else (s(p := None)) q) = (\<lambda>q. if q \<in> insert p F then None else s q)" for F
        by auto
      note IH = Cons.IH [of _ "s(p := None)", unfolded eqs this]
      ultimately show ?thesis using True Cons.prems WalkFile by (simp add: IH algebra_simps)
    next
      case False
      then obtain e where "run_io (os_Remove os p) s = (Some e, s)" using run_Remove [of os p s sz] by auto
      with False show ?thesis using Cons.IH [of _ s] Cons.prems WalkFile by simp
    qed
  qed (use Cons in simp_all)
qed simp

section \<open>Properties\<close>

text \<open>
  C13: \<^verbatim>\<open>AtomicWrite\<close> is crash-safe, whatever operation fails and wherever it stops: in every state it
  passes through, the target holds its old content or the complete content of the source, and no
  path other than the target and the temporary file is touched. It reports an error only with the
  target unchanged, and success only with the target equal to the source and the temporary file gone.
\<close>

theorem atomic_write_crash_safe:
  assumes "source \<noteq> tempName pid rnd target"
  shows "\<not> (\<exists>st \<in> set (snd (AtomicWrite os pid rnd target source s)).
      (st target \<noteq> s target \<and> (s source = None \<or> st target \<noteq> s source)) \<or>
      (\<exists>p. p \<noteq> target \<and> p \<noteq> tempName pid rnd target \<and> st p \<noteq> s p)) \<and>
    (case run_io (AtomicWrite os pid rnd target source) s of
       (Some e, s') \<Rightarrow> s' target = s target
     | (None, s') \<Rightarrow> s' target = s source \<and> s source \<noteq> None \<and> s' (tempName pid rnd target) = None)"
proof -
  note T = AtomicWrite_trace [where s = s and os = os and pid = pid and rnd = rnd and target = target and source = source]
  have ne: "tempName pid rnd target \<noteq> target" by (rule tempName_ne)
  have "only_at (tempName pid rnd target) s st \<or> (\<exists>c. s source = Some c \<and> only_at (tempName pid rnd target) (s(target \<mapsto> c)) st)"
    if "st \<in> set (snd (AtomicWrite os pid rnd target source s))" for st using T that by blast
  then have safe: "(st target = s target \<or> (s source \<noteq> None \<and> st target = s source)) \<and>
      (p \<noteq> target \<and> p \<noteq> tempName pid rnd target \<longrightarrow> st p = s p)"
    if "st \<in> set (snd (AtomicWrite os pid rnd target source s))" for st p
    using that ne by (fastforce simp: only_at_def)
  moreover have "case run_io (AtomicWrite os pid rnd target source) s of
       (Some e, s') \<Rightarrow> s' target = s target
     | (None, s') \<Rightarrow> s' target = s source \<and> s source \<noteq> None \<and> s' (tempName pid rnd target) = None"
  proof (cases "fst (AtomicWrite os pid rnd target source s)")
    case None
    then obtain c where "s source = Some c" "final_fs s (snd (AtomicWrite os pid rnd target source s)) =
        (s(tempName pid rnd target := None))(target \<mapsto> c)" using T by blast
    with None ne show ?thesis by (simp add: run_io_def split_beta)
  next
    case (Some e)
    then have "only_at (tempName pid rnd target) s (final_fs s (snd (AtomicWrite os pid rnd target source s)))"
      using T by simp
    with Some ne show ?thesis by (simp add: run_io_def split_beta only_at_def)
  qed
  ultimately show ?thesis by blast
qed

theorem atomic_write_crash_safe_witness:
  "case run_io (AtomicWrite (no_faults\<lparr>rename_err := (\<lambda>_. Some ''EIO'')\<rparr>) 7 ''ab'' ''/c/x.pdf'' ''/s/y'') [''/s/y'' \<mapsto> ''new'', ''/c/x.pdf'' \<mapsto> ''old''] of
     (Some e, s') \<Rightarrow> s' ''/c/x.pdf'' = Some ''old'' | (None, s') \<Rightarrow> s' ''/c/x.pdf'' = Some ''new''"
proof -
  have "''/s/y'' \<noteq> tempName 7 ''ab'' ''/c/x.pdf''" by (simp add: tempName_def)
  from atomic_write_crash_safe [OF this, of "no_faults\<lparr>rename_err := (\<lambda>_. Some ''EIO'')\<rparr>" "[''/s/y'' \<mapsto> ''new'', ''/c/x.pdf'' \<mapsto> ''old'']"]
  show ?thesis by (auto split: option.splits)
qed

text \<open>
  the chunk layer of an enabled cache is a map from chunk keys to contents: after any sequence of
  stores, each through the scratch file that holds the content, a lookup gives the content last
  stored under that key, or what the cache held before.
\<close>

theorem chunk_cache_is_map:
  assumes "\<forall>(k, c) \<in> set kcs. store_key m rnd p k" and "store_key m rnd p k'"
  shows "chunk_get m k' (fold (\<lambda>(k, c). chunk_put m pid rnd p k c) kcs s) =
    (case map_of (rev kcs) k' of Some c \<Rightarrow> Some c | None \<Rightarrow> chunk_get m k' s)"
  using assms by (rule chunk_layer.get_puts)

theorem chunk_cache_is_map_witness:
  "chunk_get \<lparr>cache_dir = ''/c'', asposeVersion = ''24''\<rparr> ''a1''
     (fold (\<lambda>(k, c). chunk_put \<lparr>cache_dir = ''/c'', asposeVersion = ''24''\<rparr> 1 ''f0'' ''/s/out.pdf'' k c)
       [(''a1'', ''one''), (''b2'', ''two'')] Map.empty) = Some ''one''"
proof -
  let ?m = "\<lparr>cache_dir = ''/c'', asposeVersion = ''24''\<rparr>"
  have "store_key ?m ''f0'' ''/s/out.pdf'' k" if "k = ''a1'' \<or> k = ''b2''" for k
    using that by (auto simp: store_key_def Enabled_def sha_key_def chunkPath_def path_join_def clean_def path_text_def
        path_comps_def push_comp_def rooted_def has_prefix_def)
  then show ?thesis
    using chunk_cache_is_map [of "[(''a1'', ''one''), (''b2'', ''two'')]" ?m "''f0''" "''/s/out.pdf''" "''a1''" 1 Map.empty] by simp
qed

text \<open>
  a result teed to the final temporary path and finalized is what \<^verbatim>\<open>GetFinal\<close> then finds under
  its source hash; the final results under the other hashes and the whole chunk layer keep their
  contents.
\<close>

theorem final_cache_put_get:
  assumes "store_key m rnd '''' k" and "store_key m rnd '''' k'"
  shows "final_get m k' (final_put m pid rnd k c s) = (if k' = k then Some c else final_get m k' s) \<and>
    chunk_get m k' (final_put m pid rnd k c s) = chunk_get m k' s"
proof -
  have "layer_path m ''chunks'' k' '''' \<noteq> layer_path m ''final'' k ''''"
    using assms layer_path_inj [of m "''chunks''" k' "''''" "''final''" k "''''"] layer_plain by (auto simp: store_key_def)
  then have "chunk_get m k' (final_put m pid rnd k c s) = chunk_get m k' s"
    using assms layer_tmp_ne [OF assms(2,1) layer_plain(2) layer_plain(1), of pid]
    by (simp add: final_put_eq [OF assms(1)] get_def' store_key_def)
  with final_layer.get_put [OF assms] show ?thesis by simp
qed

theorem final_cache_put_get_witness:
  "final_get \<lparr>cache_dir = ''/c'', asposeVersion = ''24''\<rparr> ''a1''
     (final_put \<lparr>cache_dir = ''/c'', asposeVersion = ''24''\<rparr> 1 ''f0'' ''a1'' ''pdf'' Map.empty) = Some ''pdf''"
proof -
  have "store_key \<lparr>cache_dir = ''/c'', asposeVersion = ''24''\<rparr> ''f0'' '''' ''a1''"
    using layer_path_slash [of "\<lparr>cache_dir = ''/c'', asposeVersion = ''24''\<rparr>" "''chunks''" "''a1''" "''''"] layer_plain
    by (auto simp: store_key_def Enabled_def sha_key_def layer_path_eq)
  from final_cache_put_get [OF this this] show ?thesis by simp
qed

text \<open>
  \<^verbatim>\<open>Clear\<close> reports exactly what it did: the files it deleted, their total size, and one error per
  walk error and per file it could not delete; it deletes the visited files whose removal works and
  leaves every other path alone. A disabled cache is not touched.
\<close>

theorem clear_reports_exactly:
  assumes "distinct (map fst (visited_files visits))"
  shows "let gone = filter (removable os s) (visited_files visits); (res, s') = Clear os m visits s
    in if \<not> Enabled m then s' = s \<and> FilesDeleted res = 0 \<and> BytesFreed res = 0 \<and> \<not> ClearEnabled res
       else ClearEnabled res \<and> FilesDeleted res = int (length gone) \<and> BytesFreed res = sum_list (map snd gone) \<and>
         ClearErrors res = walk_errs visits + int (length (visited_files visits)) - int (length gone) \<and>
         s' = (\<lambda>p. if p \<in> fst ` set gone then None else s p)"
proof -
  have "int (length (filter (\<lambda>f. \<not> removable os s f) xs)) = int (length xs) - int (length (filter (removable os s) xs))" for xs
    using sum_length_filter_compl [of "removable os s" xs] by linarith
  with clear_fold [OF assms, of os] show ?thesis by (simp add: Clear_def Let_def)
qed

theorem clear_reports_exactly_witness:
  "FilesDeleted (fst (Clear no_faults \<lparr>cache_dir = ''/c'', asposeVersion = ''24''\<rparr>
     [WalkDir ''/c/24'', WalkFile ''/c/24/a'' 3, WalkErr] [''/c/24/a'' \<mapsto> ''abc''])) = 1"
  using clear_reports_exactly [of "[WalkDir ''/c/24'', WalkFile ''/c/24/a'' 3, WalkErr]" no_faults "[''/c/24/a'' \<mapsto> ''abc'']"
      "\<lparr>cache_dir = ''/c'', asposeVersion = ''24''\<rparr>"]
  by (simp add: Enabled_def removable_def split: prod.splits)

end
