(* ===== verification/Qpdf.thy ===== *)
theory Qpdf
  imports Fs
begin

text \<open>
  \<^verbatim>\<open>internal/qpdf/qpdf.go\<close>: the streaming concatenation. The \<^verbatim>\<open>qpdf\<close> program is the argument
  \<open>qpdf\<close>, a function from its arguments and the file system to its outcome; \<open>TimedOut\<close> stands for a
  run that never exits. The copy loop works in 64 KB blocks, first to the destination and then to the
  teed cache file. The result is an option: \<open>None\<close> means that the function never returns, which
  happens when the copy stops early while the program still has more output than the pipe holds.
\<close>

section \<open>Definitions\<close>

definition readBlockSize :: nat where "readBlockSize = 65536"

text \<open>The capacity of a Linux pipe: a writer blocks once that many bytes are unread.\<close>

definition pipeCapacity :: nat where "pipeCapacity = 65536"

text \<open>
  \<^verbatim>\<open>io.CopyBuffer\<close> into the destination and the tee: the destination, what the tee holds, the output
  not read from the pipe, and whether the copy finished.
\<close>

function copy_blocks ::
  "os_faults \<Rightarrow> string \<Rightarrow> Writer \<Rightarrow> string \<Rightarrow> string \<Rightarrow> Writer \<times> string \<times> string \<times> bool" where
  "copy_blocks os temp w teed rest =
     (if rest = [] then (w, teed, [], True)
      else
        (let block = take readBlockSize rest; rest' = drop readBlockSize rest; (w', ok) = write_to w block
         in if \<not> ok then (w', teed, rest', False)
            else if temp = '''' then copy_blocks os temp w' teed rest'
            else (case write_err os temp of
                    None \<Rightarrow> copy_blocks os temp w' (teed @ block) rest'
                  | Some (n, e) \<Rightarrow>
                      if n < length (teed @ block) then (w', take n (teed @ block), rest', False)
                      else copy_blocks os temp w' (teed @ block) rest')))"
  by pat_completeness auto
termination
  by (relation "measure (\<lambda>(os, temp, w, teed, rest). length rest)") (auto simp: readBlockSize_def)

declare copy_blocks.simps [simp del]

definition concat_argv :: "string list \<Rightarrow> string list" where
  "concat_argv chunkPaths = [''--empty'', ''--pages''] @ chunkPaths @ [''--'', ''-'']"

definition merge_error :: "int \<Rightarrow> string \<Rightarrow> go_error option" where
  "merge_error rc tail = Some (OError (NewMerge rc tail))"

definition ConcatStreaming ::
  "os_faults \<Rightarrow> (string list \<Rightarrow> fs \<Rightarrow> proc) \<Rightarrow> string list \<Rightarrow> Writer \<Rightarrow> string \<Rightarrow> fs
   \<Rightarrow> (go_error option \<times> Writer \<times> fs) option" where
  "ConcatStreaming os qpdf chunkPaths dst cacheTempPath s =
     (if length chunkPaths = 0 then Some (merge_error (-1) ''no chunks to concatenate'', dst, s)
      else case qpdf (concat_argv chunkPaths) s of
        SpawnFailed e \<Rightarrow> Some (merge_error (-1) (''spawn failed: '' @ e), dst, s)
      | outcome \<Rightarrow>
          (case (if cacheTempPath = '''' then (None, s) else run_io (os_Create os cacheTempPath) s) of
             (Some e, s1) \<Rightarrow> Some (merge_error (-1) (''cache temp open: '' @ e), dst, s1)
           | (None, s1) \<Rightarrow>
               (case outcome of
                  Exited rc out err \<Rightarrow>
                    (let (dst', teed, unread, ok) = copy_blocks os cacheTempPath dst [] out;
                         s2 = (if cacheTempPath = '''' then s1 else s1(cacheTempPath \<mapsto> teed))
                     in if \<not> ok \<and> length unread > pipeCapacity then None
                        else if rc \<noteq> 0 \<or> \<not> ok
                        then Some (merge_error rc (tail_str 1024 err), dst',
                               if cacheTempPath = '''' then s2 else snd (run_io (os_Remove os cacheTempPath) s2))
                        else Some (None, dst', s2))
                | _ \<Rightarrow> None)))"

text \<open>
  \<^verbatim>\<open>ConcatToFile\<close>: the output file is created (and truncated) before \<^verbatim>\<open>qpdf\<close> starts and reads its
  inputs.
\<close>

definition file_writer :: "os_faults \<Rightarrow> string \<Rightarrow> Writer" where
  "file_writer os p = \<lparr>written = '''', w_cap = map_option fst (write_err os p), w_called = False\<rparr>"

definition ConcatToFile ::
  "os_faults \<Rightarrow> (string list \<Rightarrow> fs \<Rightarrow> proc) \<Rightarrow> string list \<Rightarrow> string \<Rightarrow> fs \<Rightarrow> (go_error option \<times> fs) option" where
  "ConcatToFile os qpdf chunkPaths outPath s =
     (case run_io (os_Create os outPath) s of
        (Some e, s1) \<Rightarrow> Some (merge_error (-1) (''open merge target: '' @ e), s1)
      | (None, s1) \<Rightarrow>
          (case ConcatStreaming os qpdf chunkPaths (file_writer os outPath) '''' s1 of
             None \<Rightarrow> None
           | Some (err, out, s2) \<Rightarrow> Some (err, s2(outPath \<mapsto> written out))))"

section \<open>Lemmas\<close>

text \<open>How many bytes the destination and the tee accept.\<close>

definition accepts :: "Writer \<Rightarrow> nat \<Rightarrow> bool" where
  "accepts w n = (case w_cap w of None \<Rightarrow> True | Some k \<Rightarrow> n \<le> k)"

definition tee_accepts :: "os_faults \<Rightarrow> string \<Rightarrow> nat \<Rightarrow> bool" where
  "tee_accepts os temp n = (temp = '''' \<or> (case write_err os temp of None \<Rightarrow> True | Some (k, e) \<Rightarrow> n \<le> k))"

lemma write_to_ok: "snd (write_to w p) = accepts w (length p)"
  by (simp add: write_to_def accepts_def split: option.split)

lemma write_to_written: "accepts w (length p) \<Longrightarrow> written (fst (write_to w p)) = written w @ p"
  by (auto simp: write_to_def accepts_def split: option.splits)

lemma write_to_accepts: "accepts w (length p) \<Longrightarrow> accepts (fst (write_to w p)) n = accepts w (length p + n)"
  by (auto simp: write_to_def accepts_def split: option.splits)

lemma accepts_mono: "accepts w n \<Longrightarrow> m \<le> n \<Longrightarrow> accepts w m"
  by (auto simp: accepts_def split: option.splits)

lemma tee_accepts_mono: "tee_accepts os temp n \<Longrightarrow> m \<le> n \<Longrightarrow> tee_accepts os temp m"
  by (auto simp: tee_accepts_def split: option.splits)

text \<open>One iteration of the copy loop.\<close>

lemma copy_blocks_step:
  assumes "rest \<noteq> []"
  shows "copy_blocks os temp w teed rest =
    (let block = take readBlockSize rest; rest' = drop readBlockSize rest; w' = fst (write_to w block)
     in if \<not> accepts w (length block) then (w', teed, rest', False)
        else if \<not> tee_accepts os temp (length teed + length block)
        then (w', take (fst (the (write_err os temp))) (teed @ block), rest', False)
        else copy_blocks os temp w' (if temp = '''' then teed else teed @ block) rest')"
  using assms unfolding write_to_ok [symmetric]
  by (subst copy_blocks.simps) (auto simp: Let_def tee_accepts_def split_beta split: option.split)

lemma copy_blocks_total:
  assumes "accepts w (length rest)" "tee_accepts os temp (length teed + length rest)"
  shows "\<exists>w'. copy_blocks os temp w teed rest = (w', if temp = '''' then teed else teed @ rest, [], True) \<and>
    written w' = written w @ rest"
  using assms
proof (induction "length rest" arbitrary: w teed rest rule: less_induct)
  case less
  show ?case
  proof (cases "rest = []")
    case True
    then show ?thesis by (simp add: copy_blocks.simps)
  next
    case False
    define block rest' w1 where "block = take readBlockSize rest" and "rest' = drop readBlockSize rest"
      and "w1 = fst (write_to w block)"
    define teed1 where "teed1 = (if temp = '''' then teed else teed @ block)"
    have len: "length rest = length block + length rest'" and rest: "rest = block @ rest'"
      by (simp_all add: block_def rest'_def)
    have acc: "accepts w (length block)" "tee_accepts os temp (length teed + length block)"
      using less.prems len by (auto elim!: accepts_mono tee_accepts_mono)
    have step: "copy_blocks os temp w teed rest = copy_blocks os temp w1 teed1 rest'"
      using acc by (simp add: copy_blocks_step [OF False] Let_def block_def rest'_def w1_def teed1_def)
    have "length rest' < length rest" using False by (simp add: rest'_def readBlockSize_def)
    moreover have "accepts w1 (length rest')"
      using acc(1) less.prems(1) len by (simp add: write_to_accepts w1_def)
    moreover have "tee_accepts os temp (length teed1 + length rest')"
      using less.prems(2) len by (auto simp: ac_simps teed1_def elim!: tee_accepts_mono)
    ultimately have "\<exists>w'. copy_blocks os temp w1 teed1 rest' = (w', if temp = '''' then teed1 else teed1 @ rest', [], True) \<and>
        written w' = written w1 @ rest'" by (rule less.hyps)
    with step acc(1) rest show ?thesis by (auto simp: write_to_written w1_def teed1_def)
  qed
qed

lemma copy_blocks_partial:
  assumes "\<not> (accepts w (length rest) \<and> tee_accepts os temp (length teed + length rest))"
    and "tee_accepts os temp (length teed)"
  shows "\<exists>w' teed' unread. copy_blocks os temp w teed rest = (w', teed', unread, False)"
  using assms
proof (induction "length rest" arbitrary: w teed rest rule: less_induct)
  case less
  show ?case
  proof (cases "rest = []")
    case True
    with less.prems show ?thesis
      by (cases "accepts w (length rest)") (auto simp: accepts_def tee_accepts_def split: option.splits)
  next
    case False
    define block rest' w1 where "block = take readBlockSize rest" and "rest' = drop readBlockSize rest"
      and "w1 = fst (write_to w block)"
    define teed1 where "teed1 = (if temp = '''' then teed else teed @ block)"
    have len: "length rest = length block + length rest'" by (simp add: block_def rest'_def)
    have shorter: "length rest' < length rest" using False by (simp add: rest'_def readBlockSize_def)
    show ?thesis
    proof (cases "accepts w (length block) \<and> tee_accepts os temp (length teed + length block)")
      case True
      then have "copy_blocks os temp w teed rest = copy_blocks os temp w1 teed1 rest'"
        by (simp add: copy_blocks_step [OF False] Let_def block_def rest'_def w1_def teed1_def)
      moreover have "\<not> (accepts w1 (length rest') \<and> tee_accepts os temp (length teed1 + length rest'))"
        using True less.prems len by (auto simp: write_to_accepts w1_def teed1_def ac_simps tee_accepts_def split: option.splits)
      moreover have "tee_accepts os temp (length teed1)" using True by (auto simp: teed1_def tee_accepts_def split: option.splits)
      ultimately show ?thesis using less.hyps [OF shorter] by simp
    next
      case fails: False
      then show ?thesis
        by (auto simp: copy_blocks_step [OF False] Let_def block_def rest'_def)
    qed
  qed
qed

lemma tee_accepts_0 [simp]: "tee_accepts os temp 0"
  by (simp add: tee_accepts_def split: option.split)

lemma ConcatStreaming_no_tee:
  assumes "chunkPaths \<noteq> []" "qpdf (concat_argv chunkPaths) s = Exited 0 out err" "accepts dst (length out)"
  shows "\<exists>dst'. ConcatStreaming os qpdf chunkPaths dst '''' s = Some (None, dst', s) \<and> written dst' = written dst @ out"
  using copy_blocks_total [OF assms(3), of os "''''" "[]"] assms
  by (auto simp: ConcatStreaming_def tee_accepts_def)

lemma ConcatStreaming_tee:
  assumes "chunkPaths \<noteq> []" "qpdf (concat_argv chunkPaths) s = Exited 0 out err" "accepts dst (length out)"
    and "temp \<noteq> ''''" "create_err os temp = None" "write_err os temp = None"
  shows "\<exists>dst'. ConcatStreaming os qpdf chunkPaths dst temp s = Some (None, dst', s(temp \<mapsto> out)) \<and>
    written dst' = written dst @ out"
  using copy_blocks_total [OF assms(3), of os temp "[]"] assms
  by (auto simp: ConcatStreaming_def tee_accepts_def run_Create)

lemma ConcatToFile_ok:
  assumes "chunkPaths \<noteq> []" "create_err os outPath = None" "write_err os outPath = None"
    and "qpdf (concat_argv chunkPaths) (s(outPath \<mapsto> '''')) = Exited 0 out err"
  shows "ConcatToFile os qpdf chunkPaths outPath s = Some (None, s(outPath \<mapsto> out))"
proof -
  have "accepts (file_writer os outPath) (length out)" using assms(3) by (simp add: accepts_def file_writer_def)
  then have "\<exists>dst'. ConcatStreaming os qpdf chunkPaths (file_writer os outPath) '''' (s(outPath \<mapsto> '''')) =
      Some (None, dst', s(outPath \<mapsto> '''')) \<and> written dst' = written (file_writer os outPath) @ out"
    by (rule ConcatStreaming_no_tee [OF assms(1), of qpdf "s(outPath \<mapsto> '''')", OF assms(4)])
  then show ?thesis
    using assms(2) by (auto simp: ConcatToFile_def run_Create file_writer_def)
qed

lemma ConcatStreaming_cases:
  assumes "chunkPaths \<noteq> []" and "qpdf (concat_argv chunkPaths) s = Exited rc out err"
    and "temp \<noteq> ''''" "create_err os temp = None" "remove_err os temp = None"
  shows "case ConcatStreaming os qpdf chunkPaths dst temp s of
      None \<Rightarrow> \<not> (accepts dst (length out) \<and> tee_accepts os temp (length out))
    | Some (None, dst', s') \<Rightarrow>
        rc = 0 \<and> accepts dst (length out) \<and> tee_accepts os temp (length out) \<and>
        written dst' = written dst @ out \<and> s' = s(temp \<mapsto> out)
    | Some (Some e, dst', s') \<Rightarrow>
        \<not> (rc = 0 \<and> accepts dst (length out) \<and> tee_accepts os temp (length out)) \<and>
        e = OError (NewMerge rc (tail_str 1024 err)) \<and> s' = s(temp := None)"
proof -
  have rm: "snd (run_io (os_Remove os temp) (s(temp \<mapsto> x))) = s(temp := None)" for x
    using assms(5) by (simp add: run_io_def os_Remove_def final_fs_Cons)
  show ?thesis
  proof (cases "accepts dst (length out) \<and> tee_accepts os temp (length out)")
    case True
    then obtain w' where "copy_blocks os temp dst [] out = (w', out, [], True)" "written w' = written dst @ out"
      using copy_blocks_total [of dst out os temp "[]"] assms(3) by auto
    with assms True rm show ?thesis by (simp add: ConcatStreaming_def run_Create merge_error_def Let_def)
  next
    case False
    then obtain w' teed' unread where "copy_blocks os temp dst [] out = (w', teed', unread, False)"
      using copy_blocks_partial [of dst out os temp "[]"] by auto
    with assms False rm show ?thesis by (auto simp: ConcatStreaming_def run_Create merge_error_def Let_def)
  qed
qed

text \<open>A merge that reports success has delivered and teed one and the same output.\<close>

lemma ConcatStreaming_success:
  assumes "ConcatStreaming os qpdf chunkPaths dst temp s = Some (None, dst', s')"
    and "temp \<noteq> ''''" "create_err os temp = None" "remove_err os temp = None"
  shows "\<exists>out. written dst' = written dst @ out \<and> s' = s(temp \<mapsto> out)"
proof -
  have ne: "chunkPaths \<noteq> []" using assms(1) by (auto simp: ConcatStreaming_def merge_error_def)
  then obtain rc out err where q: "qpdf (concat_argv chunkPaths) s = Exited rc out err"
    using assms by (cases "qpdf (concat_argv chunkPaths) s") (auto simp: ConcatStreaming_def merge_error_def run_Create)
  from ConcatStreaming_cases [of chunkPaths qpdf s rc out err temp os dst, OF ne q assms(2-4)] assms(1) show ?thesis by auto
qed

text \<open>A merge into a file whose writes succeed returns if \<^verbatim>\<open>qpdf\<close> does.\<close>

lemma ConcatToFile_returns:
  assumes "create_err os outPath = None" "write_err os outPath = None" "qpdf (concat_argv chunkPaths) (s(outPath \<mapsto> '''')) \<noteq> TimedOut"
  shows "ConcatToFile os qpdf chunkPaths outPath s \<noteq> None"
proof -
  have acc: "accepts (file_writer os outPath) n" for n using assms(2) by (simp add: accepts_def file_writer_def)
  have "ConcatStreaming os qpdf chunkPaths (file_writer os outPath) '''' (s(outPath \<mapsto> '''')) \<noteq> None"
  proof (cases "qpdf (concat_argv chunkPaths) (s(outPath \<mapsto> ''''))")
    case (Exited rc out err)
    obtain w' where "copy_blocks os '''' (file_writer os outPath) [] out = (w', [], [], True)"
      using copy_blocks_total [OF acc, of os "''''" "[]" out] by (auto simp: tee_accepts_def)
    with Exited show ?thesis by (simp add: ConcatStreaming_def)
  qed (use assms(3) in \<open>simp_all add: ConcatStreaming_def\<close>)
  with assms(1) show ?thesis by (auto simp: ConcatToFile_def run_Create)
qed

section \<open>Properties\<close>





end
