(* ===== verification/Worker.thy ===== *)
theory Worker
  imports Config Obs Fs
begin

text \<open>
  \<^verbatim>\<open>internal/worker/worker.go\<close>: the one-shot wrapper around the worker binaries, the two maps from
  worker failures to typed errors, the line reader and the stderr tailer. A worker process is the
  argument \<open>exec\<close>: from the full argument vector and the file system to its outcome (spawn failure,
  killed at the chunk timeout, or exit code, stdout and stderr) and the file system it leaves. Log
  events are not modelled. \<^verbatim>\<open>encoding/json\<close> is the argument \<open>unmarshal\<close>, from a text to the object
  it denotes; JSON numbers are \<open>JNum\<close>. The request id is only passed through and is left out of the
  one-shot functions.
\<close>

section \<open>Definitions\<close>

definition ExitOK :: int where "ExitOK = 0"
definition ExitRenderFailure :: int where "ExitRenderFailure = 1"
definition ExitLicenseInvalid :: int where "ExitLicenseInvalid = 2"
definition ExitInputUnprocessable :: int where "ExitInputUnprocessable = 3"
definition ExitOOM :: int where "ExitOOM = 137"

lemmas exit_codes = ExitOK_def ExitRenderFailure_def ExitLicenseInvalid_def ExitInputUnprocessable_def ExitOOM_def

record Stores =
  Heartbeats :: RingStore
  Timings :: RingStore
  Progress :: JobProgressStore

definition workerBinary :: "Settings \<Rightarrow> FormatName \<Rightarrow> string" where
  "workerBinary s format = WorkerBinaryPrefix s @ ''-'' @ format"

definition prlimitArgs :: "Settings \<Rightarrow> string \<Rightarrow> string list \<Rightarrow> string list" where
  "prlimitArgs s binary rest = [''prlimit'', ''--as='' @ itoa (WorkerRAMBytes s), ''--'', binary] @ rest"

type_synonym worker_exec = "string list \<Rightarrow> fs \<Rightarrow> proc \<times> fs"

definition mapExitCode :: "int \<Rightarrow> string \<Rightarrow> Chunk option \<Rightarrow> go_error option" where
  "mapExitCode rc stderrBytes chunk =
     (if rc = ExitOK then None
      else
        (let tail = tail_str 1024 stderrBytes
         in Some (OError
              (if rc = ExitOOM
               then (case chunk of Some c \<Rightarrow> NewOOM c | None \<Rightarrow> NewRender chunk rc tail)
               else if rc = ExitLicenseInvalid then NewLicenseExpired ''''
               else if rc = ExitInputUnprocessable
               then NewInputUnprocessable (if tail = '''' then ''input unprocessable'' else tail)
               else NewRender chunk rc tail))))"

text \<open>
  \<^verbatim>\<open>runWorkerBin\<close>: stdout, stderr and the error. A render call without a page range dereferences a nil
  pointer.
\<close>

definition runWorkerBin ::
  "worker_exec \<Rightarrow> Settings \<Rightarrow> string \<Rightarrow> string \<Rightarrow> string \<Rightarrow> string \<Rightarrow> string \<Rightarrow> (int \<times> int) option \<Rightarrow> Chunk option
   \<Rightarrow> fs \<Rightarrow> (string \<times> string \<times> go_error option) \<times> fs" where
  "runWorkerBin exec s mode inputPath bin formatArg outputPath pageRange chunk fsys =
     (let rest0 = [''--mode'', mode, ''--input'', inputPath, ''--format'', formatArg, ''--license-path'', LicensePath s]
      in if mode = ''render'' \<and> pageRange = None
         then (('''', '''', Some (Panic ''nil pointer dereference'')), fsys)
         else
           (let rest = (if mode = ''render''
                        then rest0 @ [''--output'', outputPath, ''--page-range'',
                               itoa (fst (the pageRange)) @ ''-'' @ itoa (snd (the pageRange))]
                        else rest0);
                argv = prlimitArgs s bin rest
            in case exec argv fsys of
                 (SpawnFailed e, fsys') \<Rightarrow>
                   (('''', '''', Some (OError (NewRender chunk (-1) (''spawn failed: '' @ e)))), fsys')
               | (TimedOut, fsys') \<Rightarrow>
                   (('''', '''', Some (OError (NewRender chunk (-1) ''timeout exceeded''))), fsys')
               | (Exited rc out err, fsys') \<Rightarrow> ((out, err, mapExitCode rc err chunk), fsys')))"

definition RunWorker ::
  "worker_exec \<Rightarrow> Settings \<Rightarrow> string \<Rightarrow> string \<Rightarrow> FormatName \<Rightarrow> string \<Rightarrow> (int \<times> int) option \<Rightarrow> Chunk option
   \<Rightarrow> fs \<Rightarrow> (string \<times> string \<times> go_error option) \<times> fs" where
  "RunWorker exec s mode inputPath format outputPath pageRange chunk fsys =
     runWorkerBin exec s mode inputPath (workerBinary s format) format outputPath pageRange chunk fsys"

definition RenderHTMLOneShot ::
  "worker_exec \<Rightarrow> Settings \<Rightarrow> string \<Rightarrow> string \<Rightarrow> fs \<Rightarrow> go_error option \<times> fs" where
  "RenderHTMLOneShot exec s inputPath outputPath fsys =
     (let ((out, err, e), fsys') =
            runWorkerBin exec s ''render'' inputPath (workerBinary s FormatDOCX) ''html'' outputPath (Some (1, 1)) None fsys
      in (e, fsys'))"

definition formatIndex :: "rat \<Rightarrow> string" where
  "formatIndex idx =
     (let s = format_g idx
      in if list_ex (\<lambda>c. c = CHR ''.'' \<or> c = CHR ''e'' \<or> c = CHR ''E'') s then s else s @ ''.0'')"

definition chunk_output :: "string \<Rightarrow> Chunk \<Rightarrow> string" where
  "chunk_output scratchDir chunk = scratchDir @ ''/chunk-'' @ formatIndex (Index chunk) @ ''.pdf''"

definition RenderChunkOneShot ::
  "worker_exec \<Rightarrow> Settings \<Rightarrow> Chunk \<Rightarrow> string \<Rightarrow> FormatName \<Rightarrow> string \<Rightarrow> fs \<Rightarrow> (go_error, string) result \<times> fs" where
  "RenderChunkOneShot exec s chunk inputPath format scratchDir fsys =
     (let outputPath = chunk_output scratchDir chunk;
          ((out, err, e), fsys') =
            RunWorker exec s ''render'' inputPath format outputPath (Some (PageStart chunk, PageEnd chunk)) (Some chunk) fsys
      in (case e of Some e \<Rightarrow> Err e | None \<Rightarrow> Ok outputPath, fsys'))"

fun toInt :: "(rat \<Rightarrow> int) \<Rightarrow> json option \<Rightarrow> int \<Rightarrow> int" where
  "toInt oor (Some (JNum n)) def = f2i oor n"
| "toInt oor (Some (JInt n)) def = n"
| "toInt oor v def = def"

fun asFloat :: "json option \<Rightarrow> rat option" where
  "asFloat (Some (JNum n)) = Some n"
| "asFloat (Some (JInt n)) = Some (fl n)"
| "asFloat v = None"

definition raiseError :: "(rat \<Rightarrow> int) \<Rightarrow> (string \<rightharpoonup> json) \<Rightarrow> Chunk option \<Rightarrow> go_error" where
  "raiseError oor result chunk =
     (let code = (case result ''code'' of None \<Rightarrow> ExitRenderFailure | Some c \<Rightarrow> toInt oor (Some c) ExitRenderFailure);
          detail0 = (case result ''detail'' of Some (JStr d) \<Rightarrow> d | _ \<Rightarrow> '''');
          detail = (if detail0 = '''' then ''unknown error'' else detail0)
      in OError
           (if code = ExitOOM
            then (case chunk of Some c \<Rightarrow> NewOOM c | None \<Rightarrow> NewRender chunk code detail)
            else if code = ExitLicenseInvalid then NewLicenseExpired ''''
            else if code = ExitInputUnprocessable then NewInputUnprocessable detail
            else NewRender chunk code detail))"

subsection \<open>The stderr tailer\<close>

definition json_or_null :: "json option \<Rightarrow> json" where
  "json_or_null v = (case v of None \<Rightarrow> JNull | Some j \<Rightarrow> j)"

definition tracked :: "string \<Rightarrow> bool" where
  "tracked requestID = (requestID \<noteq> '''' \<and> requestID \<noteq> ''-'')"

definition handleStderrLine ::
  "(string \<Rightarrow> (string \<rightharpoonup> json) option) \<Rightarrow> (rat \<Rightarrow> int) \<Rightarrow> int \<Rightarrow> FormatName \<Rightarrow> int \<Rightarrow> int \<Rightarrow> string \<Rightarrow> bool \<Rightarrow> string
   \<Rightarrow> Stores \<Rightarrow> Stores" where
  "handleStderrLine unmarshal oor now format pid poolIndexDefault requestID useMsgIndex raw stores =
     (if raw = '''' then stores
      else
        (let m = (if length raw > 8 \<and> take 8 raw = ''{'' @ [CHR 0x22] @ ''type'' @ [CHR 0x22] @ '':'' then unmarshal raw else None)
         in case m of
              None \<Rightarrow> stores
            | Some msg \<Rightarrow>
                (let poolIdx = (if useMsgIndex then toInt oor (msg ''pool_index'') poolIndexDefault else poolIndexDefault)
                 in if msg ''type'' = Some (JStr ''load_progress'')
                    then (case asFloat (msg ''value'') of
                            Some v \<Rightarrow>
                              if tracked requestID
                              then stores\<lparr>Progress := Update now requestID (no_update\<lparr>uLoadProgress := Some v\<rparr>) (Progress stores)\<rparr>
                              else stores
                          | None \<Rightarrow> stores)
                    else if msg ''type'' = Some (JStr ''heartbeat'')
                    then (let rec =
                              [''worker'' \<mapsto> JStr format, ''pool_index'' \<mapsto> JInt poolIdx, ''pid'' \<mapsto> JInt pid,
                               ''phase'' \<mapsto> json_or_null (msg ''phase''), ''elapsed_s'' \<mapsto> json_or_null (msg ''elapsed_s''),
                               ''rss_bytes'' \<mapsto> json_or_null (msg ''rss_bytes''), ''swap_bytes'' \<mapsto> json_or_null (msg ''swap_bytes''),
                               ''cpu_jiffies'' \<mapsto> json_or_null (msg ''cpu_jiffies''), ''wall_ts'' \<mapsto> JNum (nowEpoch now)]
                          in if tracked requestID
                             then stores\<lparr>Heartbeats := ring_Record now requestID rec (Heartbeats stores)\<rparr> else stores)
                    else if msg ''type'' = Some (JStr ''timing'')
                    then (let base = [''worker'' \<mapsto> JStr format, ''pool_index'' \<mapsto> JInt poolIdx, ''pid'' \<mapsto> JInt pid,
                                ''wall_ts'' \<mapsto> JNum (nowEpoch now)];
                              rec = (\<lambda>k. if k \<noteq> ''type'' \<and> k \<noteq> ''pool_index'' \<and> msg k \<noteq> None then msg k else base k)
                          in if tracked requestID
                             then stores\<lparr>Timings := ring_Record now requestID rec (Timings stores)\<rparr> else stores)
                    else stores)))"

text \<open>
  \<^verbatim>\<open>readLine\<close> on the unread text of a stream: the line, whether the end of the stream was met, and the
  text left.
\<close>

definition strip_eol :: "string \<Rightarrow> string" where
  "strip_eol l = rev (dropWhile (\<lambda>c. c = CHR 0x0A \<or> c = CHR 0x0D) (rev l))"

definition readLine :: "string \<Rightarrow> string \<times> bool \<times> string" where
  "readLine r =
     (if CHR 0x0A \<in> set r
      then (strip_eol (takeWhile (\<lambda>c. c \<noteq> CHR 0x0A) r @ [CHR 0x0A]), False, tl (dropWhile (\<lambda>c. c \<noteq> CHR 0x0A) r))
      else (r, True, []))"

text \<open>The loop shared by the stream readers: every line until the end of the stream.\<close>

function read_lines :: "string \<Rightarrow> string list" where
  "read_lines r = (case readLine r of (line, eof, r') \<Rightarrow> line # (if eof then [] else read_lines r'))"
  by pat_completeness auto
termination
proof (relation "measure length", goal_cases)
  case (2 r line y eof r')
  then have "CHR 0x0A \<in> set r" and r': "r' = tl (dropWhile (\<lambda>c. c \<noteq> CHR 0x0A) r)"
    by (auto simp: readLine_def split: if_splits)
  then have "dropWhile (\<lambda>c. c \<noteq> CHR 0x0A) r \<noteq> []" by auto
  then have "length r' < length (dropWhile (\<lambda>c. c \<noteq> CHR 0x0A) r)" by (simp add: r')
  also have "\<dots> \<le> length r" by (rule length_dropWhile_le)
  finally show ?case by simp
qed simp

declare read_lines.simps [simp del]

text \<open>\<^verbatim>\<open>readStderr\<close> of both pools: line \<open>i\<close> is handled at the clock reading \<open>clock i\<close>.\<close>

definition readStderr ::
  "(string \<Rightarrow> (string \<rightharpoonup> json) option) \<Rightarrow> (rat \<Rightarrow> int) \<Rightarrow> (nat \<Rightarrow> int) \<Rightarrow> FormatName \<Rightarrow> int \<Rightarrow> int \<Rightarrow> string \<Rightarrow> bool \<Rightarrow> string
   \<Rightarrow> Stores \<Rightarrow> Stores" where
  "readStderr unmarshal oor clock format pid poolIndex requestID useMsgIndex stream stores =
     fold (\<lambda>(i, line). handleStderrLine unmarshal oor (clock i) format pid poolIndex requestID useMsgIndex line)
       (enumerate 0 (read_lines stream)) stores"

section \<open>Lemmas\<close>

lemma f2i_int:
  assumes "\<bar>i\<bar> < 2 ^ 53"
  shows "f2i oor (of_int i) = i"
  using assms by (auto simp: f2i_def trunc_rat_def)

subsection \<open>Chunk output paths\<close>

text \<open>The chunk indices: non-negative multiples of one half, below one million.\<close>

definition half_index :: "rat \<Rightarrow> bool" where
  "half_index x = (\<exists>k :: nat. x = of_nat k / 2 \<and> k < 2000000)"

lemma utoa_no_dot: "\<not> list_ex (\<lambda>c. c = CHR ''.'' \<or> c = CHR ''e'' \<or> c = CHR ''E'') (utoa n)"
  using utoa_digits by (fastforce simp: list_ex_iff is_digit_def)

lemma formatIndex_half:
  assumes "k < 2000000"
  shows "formatIndex (of_nat k / 2) = utoa (k div 2) @ CHR ''.'' # (if even k then ''0'' else ''5'')"
proof -
  have fl: "nat \<lfloor>of_nat k / 2 * (10 :: rat)\<rfloor> = 5 * k"
  proof -
    have "of_nat k / 2 * (10 :: rat) = of_int (5 * int k)" by simp
    then show ?thesis by (simp only: floor_of_int)
  qed
  have whole: "5 * k div 10 = k div 2" and frac: "5 * k mod 10 = (if even k then 0 else 5)"
    by (auto elim!: evenE oddE)
  have len: "length (utoa (k div 2)) \<le> 6" using assms by (intro length_utoa) simp_all
  have five: "utoa 5 = ''5''" by (simp add: utoa.simps digit_char_def char_of_def bit_iff_odd)
  have "format_g (of_nat k / 2) = utoa (k div 2) @ (if even k then '''' else ''.5'')"
    unfolding format_g_def Let_def fl whole frac using len by (simp add: five)
  then show ?thesis using utoa_no_dot [of "k div 2"] by (simp add: formatIndex_def Let_def)
qed

lemma formatIndex_inj:
  assumes "half_index x" "half_index y" "formatIndex x = formatIndex y"
  shows "x = y"
proof -
  obtain j k where jk: "x = of_nat j / 2" "j < 2000000" "y = of_nat k / 2" "k < 2000000"
    using assms(1,2) by (auto simp: half_index_def)
  have "utoa (j div 2) = utoa (k div 2) \<and> (if even j then ''0'' else ''5'') = (if even k then ''0'' else ''5'')"
    using assms(3) utoa_digits [of "CHR ''.''"] not_digit unfolding jk formatIndex_half [OF jk(2)] formatIndex_half [OF jk(4)]
    by (intro append_sep_inj) auto
  then have "j div 2 = k div 2" and "even j = even k" by (auto dest: utoa_inj split: if_splits)
  then have "j = k" by (metis dvd_mult_div_cancel odd_two_times_div_two_succ)
  then show ?thesis by (simp add: jk)
qed

subsection \<open>Streams\<close>

lemma readLine_line:
  assumes "CHR 0x0A \<notin> set l" "CHR 0x0D \<notin> set l"
  shows "readLine (l @ CHR 0x0A # r) = (l, False, r)"
proof -
  have "takeWhile (\<lambda>c. c \<noteq> CHR 0x0A) (l @ CHR 0x0A # r) = l" using assms(1) by (induction l) auto
  moreover have "dropWhile (\<lambda>c. c \<noteq> CHR 0x0A) (l @ CHR 0x0A # r) = CHR 0x0A # r" using assms(1) by (induction l) auto
  moreover have "strip_eol (l @ [CHR 0x0A]) = l"
    using assms by (cases l rule: rev_cases) (auto simp: strip_eol_def)
  ultimately show ?thesis by (simp add: readLine_def)
qed

lemma read_lines_line:
  "CHR 0x0A \<notin> set l \<Longrightarrow> CHR 0x0D \<notin> set l \<Longrightarrow> read_lines (l @ CHR 0x0A # r) = l # read_lines r"
  by (subst read_lines.simps) (simp add: readLine_line)

subsection \<open>Stores\<close>

definition stores_inv :: "Stores \<Rightarrow> bool" where
  "stores_inv st =
     (store_ok (Progress st) \<and> ring_inv (slice (ring_store (Heartbeats st))) (Heartbeats st) \<and>
      ring_inv (slice (ring_store (Timings st))) (Timings st))"

lemma ring_inv_self: "ring_inv h s \<Longrightarrow> ring_inv (slice (ring_store s)) s"
  by (simp add: ring_inv_def)

lemma ring_inv_Record: "ring_inv (slice (ring_store s)) s \<Longrightarrow> ring_inv (slice (ring_store (ring_Record t rid ev s))) (ring_Record t rid ev s)"
  using ring_inv_exec [of "slice (ring_store s)" s "Rec t rid ev"] by (auto intro: ring_inv_self)

lemma handleStderrLine_inv [inv_intros]:
  assumes "stores_inv st"
  shows "stores_inv (handleStderrLine unmarshal oor now format pid idx rid b line st)"
proof -
  have "store_ok (Update now rid (no_update\<lparr>uLoadProgress := v\<rparr>) (Progress st))" for v
    using assms by (intro Update_ok) (simp_all add: stores_inv_def no_update_def)
  moreover have "ring_inv (slice (ring_store (ring_Record now rid ev s))) (ring_Record now rid ev s)"
    if "s = Heartbeats st \<or> s = Timings st" for ev s
    using assms that by (intro ring_inv_Record) (auto simp: stores_inv_def)
  ultimately show ?thesis
    using assms unfolding handleStderrLine_def Let_def
    by (auto simp: stores_inv_def split: option.split)
qed

lemma readStderr_inv: "stores_inv st \<Longrightarrow> stores_inv (readStderr unmarshal oor clock format pid idx rid b stream st)"
proof -
  have "stores_inv st \<Longrightarrow> stores_inv (fold (\<lambda>(i, line). handleStderrLine unmarshal oor (clock i) format pid idx rid b line) ls st)" for ls st
    by (induction ls arbitrary: st) (auto intro: handleStderrLine_inv)
  then show "stores_inv st \<Longrightarrow> ?thesis" by (simp add: readStderr_def)
qed

section \<open>Properties\<close>

text \<open>
  the two ways a worker reports a failure agree. For every non-zero exit code, the one-shot
  mapping of the exit status and the pool mapping of an error response with that code give an
  error of the same failure class, HTTP status, out-of-memory flag and chunk; and the out-of-memory
  flag, which triggers subdivision, is set exactly for code 137 with a known chunk.
\<close>

theorem exit_mappings_agree:
  assumes "rc \<noteq> 0" "\<bar>rc\<bar> < 2 ^ 53" and "result ''code'' = Some (JNum (of_int rc))"
  shows "\<exists>e e'. mapExitCode rc err chunk = Some (OError e) \<and> raiseError oor result chunk = OError e' \<and>
    FailureClass e = FailureClass e' \<and> HTTPStatus e = HTTPStatus e' \<and> OOM e = OOM e' \<and> ErrChunk e = ErrChunk e' \<and>
    (OOM e \<longleftrightarrow> rc = 137 \<and> chunk \<noteq> None)"
  using assms f2i_int [OF assms(2), of oor]
  by (cases chunk)
    (auto simp: mapExitCode_def raiseError_def Let_def exit_codes NewLicenseExpired_def NewInputUnprocessable_def)

theorem exit_mappings_agree_witness:
  "\<exists>e e'. mapExitCode 137 ''killed'' (Some \<lparr>Index = 0, PageStart = 1, PageEnd = 4, NaturalSeam = False\<rparr>) = Some (OError e) \<and>
    raiseError (\<lambda>_. 0) [''code'' \<mapsto> JNum (of_int 137)] (Some \<lparr>Index = 0, PageStart = 1, PageEnd = 4, NaturalSeam = False\<rparr>) = OError e' \<and>
    OOM e = OOM e'"
  using exit_mappings_agree [of 137 "[''code'' \<mapsto> JNum (of_int 137)]" "''killed''"
      "Some \<lparr>Index = 0, PageStart = 1, PageEnd = 4, NaturalSeam = False\<rparr>" "\<lambda>_. 0"]
  by auto

text \<open>
  two chunks with different indices render into different files: the file name determines the
  index, for every index that is a multiple of one half below a million.
\<close>

theorem chunk_output_injective:
  assumes "half_index (Index c)" "half_index (Index d)" and "Index c \<noteq> Index d"
  shows "chunk_output dir c \<noteq> chunk_output dir d"
proof
  assume "chunk_output dir c = chunk_output dir d"
  then have "formatIndex (Index c) = formatIndex (Index d)" by (simp add: chunk_output_def)
  with assms show False by (blast dest: formatIndex_inj)
qed

theorem chunk_output_injective_witness:
  "chunk_output ''/s'' \<lparr>Index = 3, PageStart = 1, PageEnd = 4, NaturalSeam = False\<rparr> \<noteq>
   chunk_output ''/s'' \<lparr>Index = 7 / 2, PageStart = 5, PageEnd = 8, NaturalSeam = False\<rparr>"
proof -
  have "half_index 3" "half_index (7 / 2)"
    unfolding half_index_def by (rule exI [of _ 6], simp) (rule exI [of _ 7], simp)
  then show ?thesis
    using chunk_output_injective [of "\<lparr>Index = 3, PageStart = 1, PageEnd = 4, NaturalSeam = False\<rparr>"
        "\<lparr>Index = 7 / 2, PageStart = 5, PageEnd = 8, NaturalSeam = False\<rparr>" "''/s''"] by simp
qed

text \<open>
  the line reader recovers what was written: a stream of lines, each ended by a newline, is read
  back line by line, followed by the empty read at the end of the stream.
\<close>

theorem read_lines_roundtrip:
  assumes "\<forall>l \<in> set ls. CHR 0x0A \<notin> set l \<and> CHR 0x0D \<notin> set l"
  shows "read_lines (concat (map (\<lambda>l. l @ [CHR 0x0A]) ls)) = ls @ ['''']"
  using assms
proof (induction ls)
  case Nil
  then show ?case by (simp add: read_lines.simps readLine_def)
next
  case (Cons l ls)
  then show ?case by (simp add: read_lines_line)
qed

theorem read_lines_roundtrip_witness:
  "read_lines (concat (map (\<lambda>l. l @ [CHR 0x0A]) [''ab'', ''c''])) = [''ab'', ''c'', '''']"
  using read_lines_roundtrip [of "[''ab'', ''c'']"] by simp

text \<open>
  whatever a worker writes to its standard error, the observability stores stay valid: progress
  figures in range, every event ring within its cap, and the ring store's two maps in step.
\<close>

theorem stderr_keeps_stores_valid:
  assumes "stores_inv st"
  shows "stores_inv (readStderr unmarshal oor clock format pid idx rid useMsg stream st)"
  using assms by (rule readStderr_inv)

theorem stderr_keeps_stores_valid_witness:
  "stores_inv (readStderr (\<lambda>_. None) (\<lambda>_. 0) (\<lambda>i. int i) FormatPDF 7 0 ''r'' True ''boom''
     \<lparr>Heartbeats = HeartbeatStore, Timings = TimingStore, Progress = NewJobProgressStore\<rparr>)"
  by (rule stderr_keeps_stores_valid)
     (simp add: stores_inv_def store_ok_iff ring_inv_def HeartbeatStore_def TimingStore_def NewJobProgressStore_def
       NewRingStore_def slice_def)

end
