(* ===== verification/RenderAll.thy ===== *)
theory RenderAll
  imports Errors
begin

text \<open>
  \<^verbatim>\<open>renderAll\<close> of \<^verbatim>\<open>internal/orchestrator/orchestrator.go\<close>: one goroutine per chunk, a semaphore of
  \<^verbatim>\<open>parallel\<close> slots, a derived context that the first error cancels, and the result slots. It is
  modelled twice: as a step relation on the states of the goroutines, in which every interleaving
  is a run, and as a function that takes the order in which the renders complete as an argument.
  The render function is arbitrary; it sees whether the context is done, and a render takes effect
  on the shared world \<open>'w\<close> when it completes. The lemmas show that at most \<^verbatim>\<open>parallel\<close> renders are in
  flight, that no run deadlocks or goes on for ever, and that every complete run returns what the
  function returns for the order of its completions.
\<close>

section \<open>Definitions\<close>

text \<open>The element type \<^verbatim>\<open>chunkPath\<close> of the result; an unset slot is the zero value.\<close>

type_synonym slot = "(Chunk \<times> string) option"

definition zero_chunk :: Chunk where
  "zero_chunk = \<lparr>Index = 0, PageStart = 0, PageEnd = 0, NaturalSeam = False\<rparr>"

definition slot_value :: "slot \<Rightarrow> Chunk \<times> string" where
  "slot_value x = (case x of None \<Rightarrow> (zero_chunk, '''') | Some cp \<Rightarrow> cp)"

type_synonym 'w render_fn = "bool \<Rightarrow> Chunk \<Rightarrow> 'w \<Rightarrow> (go_error, string) result \<times> 'w"

subsection \<open>The function\<close>

text \<open>One goroutine from the call of \<^verbatim>\<open>renderFn\<close> on: slots, first error and world.\<close>

definition render_one ::
  "Chunk list \<Rightarrow> 'w render_fn \<Rightarrow> nat \<Rightarrow> slot list \<times> go_error option \<times> 'w \<Rightarrow> slot list \<times> go_error option \<times> 'w" where
  "render_one chunks renderFn i st =
     (case st of (out, firstErr, w) \<Rightarrow>
        if i < length chunks
        then (case renderFn (firstErr \<noteq> None) (chunks ! i) w of
                (Err e, w') \<Rightarrow> (out, (if firstErr = None then Some e else firstErr), w')
              | (Ok p, w') \<Rightarrow> (out[i := Some (chunks ! i, p)], firstErr, w'))
        else st)"

text \<open>
  \<open>ctxDone\<close> says that the parent context was done when \<^verbatim>\<open>renderAll\<close> was called: then every goroutine
  returns without rendering.
\<close>

definition renderAll ::
  "(Chunk list \<Rightarrow> nat list) \<Rightarrow> bool \<Rightarrow> Chunk list \<Rightarrow> 'w render_fn \<Rightarrow> 'w \<Rightarrow> (go_error, (Chunk \<times> string) list) result \<times> 'w" where
  "renderAll sched ctxDone chunks renderFn w =
     (let (out, firstErr, w') =
            fold (render_one chunks renderFn) (if ctxDone then [] else sched chunks) (replicate (length chunks) None, None, w)
      in (case firstErr of Some e \<Rightarrow> Err e | None \<Rightarrow> Ok (map slot_value out), w'))"

lemma render_one_cong:
  assumes "\<And>b c v. c \<in> set chunks \<Longrightarrow> f b c v = g b c v"
  shows "render_one chunks f i = render_one chunks g i"
  using assms by (simp add: render_one_def fun_eq_iff)

lemma renderAll_cong [fundef_cong]:
  assumes "sched = sched'" "ctxDone = ctxDone'" "chunks = chunks'" "w = w'"
    and "\<And>b c v. c \<in> set chunks' \<Longrightarrow> f b c v = g b c v"
  shows "renderAll sched ctxDone chunks f w = renderAll sched' ctxDone' chunks' g w'"
proof -
  have "render_one chunks f = render_one chunks g" using assms(3,5) by (intro ext render_one_cong) simp
  then show ?thesis using assms(1-4) by (simp add: renderAll_def)
qed

subsection \<open>The goroutines\<close>

datatype goroutine = Waiting | Holding | Rendering | Gone

record 'w ra_state =
  gs :: "goroutine list"
  out :: "slot list"
  firstErr :: "go_error option"
  cancelled :: bool
  parentDone :: bool
  completed :: "nat list"
  world :: 'w

definition ra_init :: "Chunk list \<Rightarrow> 'w \<Rightarrow> 'w ra_state" where
  "ra_init chunks w =
     \<lparr>gs = replicate (length chunks) Waiting, out = replicate (length chunks) None, firstErr = None, cancelled = False,
      parentDone = False, completed = [], world = w\<rparr>"

definition in_flight :: "'w ra_state \<Rightarrow> nat" where
  "in_flight st = length (filter (\<lambda>g. g = Holding \<or> g = Rendering) (gs st))"

definition slots :: "int \<Rightarrow> nat" where
  "slots parallel = (if parallel < 1 then 1 else nat parallel)"

inductive ra_step :: "Chunk list \<Rightarrow> int \<Rightarrow> 'w render_fn \<Rightarrow> 'w ra_state \<Rightarrow> 'w ra_state \<Rightarrow> bool"
  for chunks :: "Chunk list" and parallel :: int and renderFn :: "'w render_fn"
where
  acquire: "i < length (gs st) \<Longrightarrow> gs st ! i = Waiting \<Longrightarrow> in_flight st < slots parallel \<Longrightarrow>
    ra_step chunks parallel renderFn st (st\<lparr>gs := (gs st)[i := Holding]\<rparr>)"
| give_up: "i < length (gs st) \<Longrightarrow> gs st ! i = Waiting \<Longrightarrow> cancelled st \<Longrightarrow>
    ra_step chunks parallel renderFn st (st\<lparr>gs := (gs st)[i := Gone]\<rparr>)"
| release: "i < length (gs st) \<Longrightarrow> gs st ! i = Holding \<Longrightarrow> cancelled st \<Longrightarrow>
    ra_step chunks parallel renderFn st (st\<lparr>gs := (gs st)[i := Gone]\<rparr>)"
| start: "i < length (gs st) \<Longrightarrow> gs st ! i = Holding \<Longrightarrow> \<not> cancelled st \<Longrightarrow>
    ra_step chunks parallel renderFn st (st\<lparr>gs := (gs st)[i := Rendering]\<rparr>)"
| finish_ok: "i < length (gs st) \<Longrightarrow> gs st ! i = Rendering \<Longrightarrow>
    renderFn (cancelled st) (chunks ! i) (world st) = (Ok p, w') \<Longrightarrow>
    ra_step chunks parallel renderFn st
      (st\<lparr>gs := (gs st)[i := Gone], out := (out st)[i := Some (chunks ! i, p)], completed := completed st @ [i], world := w'\<rparr>)"
| finish_err: "i < length (gs st) \<Longrightarrow> gs st ! i = Rendering \<Longrightarrow>
    renderFn (cancelled st) (chunks ! i) (world st) = (Err e, w') \<Longrightarrow>
    ra_step chunks parallel renderFn st
      (st\<lparr>gs := (gs st)[i := Gone], firstErr := (if firstErr st = None then Some e else firstErr st), cancelled := True,
          completed := completed st @ [i], world := w'\<rparr>)"
| parent_done: "\<not> parentDone st \<Longrightarrow> ra_step chunks parallel renderFn st (st\<lparr>cancelled := True, parentDone := True\<rparr>)"

inductive_cases ra_stepE: "ra_step chunks parallel renderFn st st'"

inductive ra_reach :: "Chunk list \<Rightarrow> int \<Rightarrow> 'w render_fn \<Rightarrow> 'w \<Rightarrow> 'w ra_state \<Rightarrow> bool"
  for chunks :: "Chunk list" and parallel :: int and renderFn :: "'w render_fn" and w :: 'w
where
  init: "ra_reach chunks parallel renderFn w (ra_init chunks w)"
| step: "ra_reach chunks parallel renderFn w st \<Longrightarrow> ra_step chunks parallel renderFn st st' \<Longrightarrow>
    ra_reach chunks parallel renderFn w st'"

text \<open>After \<^verbatim>\<open>wg.Wait\<close>: every goroutine is gone, and the result.\<close>

definition finished_all :: "'w ra_state \<Rightarrow> bool" where
  "finished_all st = list_all (\<lambda>g. g = Gone) (gs st)"

definition ra_result :: "'w ra_state \<Rightarrow> (go_error, (Chunk \<times> string) list) result" where
  "ra_result st = (case firstErr st of Some e \<Rightarrow> Err e | None \<Rightarrow> Ok (map slot_value (out st)))"

section \<open>The invariant\<close>

definition ra_inv :: "Chunk list \<Rightarrow> int \<Rightarrow> 'w render_fn \<Rightarrow> 'w \<Rightarrow> 'w ra_state \<Rightarrow> bool" where
  "ra_inv chunks parallel renderFn w st =
     (length (gs st) = length chunks \<and> length (out st) = length chunks \<and> in_flight st \<le> slots parallel \<and>
      distinct (completed st) \<and> set (completed st) \<subseteq> {i. i < length chunks \<and> gs st ! i = Gone} \<and>
      (firstErr st \<noteq> None \<longrightarrow> cancelled st) \<and> (cancelled st \<longrightarrow> firstErr st \<noteq> None \<or> parentDone st) \<and>
      (\<not> cancelled st \<longrightarrow> {i. i < length chunks \<and> gs st ! i = Gone} \<subseteq> set (completed st)) \<and>
      (\<not> parentDone st \<longrightarrow>
         fold (render_one chunks renderFn) (completed st) (replicate (length chunks) None, None, w) = (out st, firstErr st, world st)))"

lemma filter_update:
  assumes "i < length xs"
  shows "length (filter P (xs[i := x])) + (if P (xs ! i) then 1 else 0) = length (filter P xs) + (if P x then 1 else 0)"
  using assms
proof (induction xs arbitrary: i)
  case (Cons y xs)
  then show ?case by (cases i) auto
qed simp

lemma in_flight_update:
  assumes "i < length (gs st)"
  shows "in_flight (st\<lparr>gs := (gs st)[i := g]\<rparr>) + (if gs st ! i = Holding \<or> gs st ! i = Rendering then 1 else 0) =
    in_flight st + (if g = Holding \<or> g = Rendering then 1 else 0)"
  using filter_update [OF assms, of "\<lambda>g. g = Holding \<or> g = Rendering" g] by (simp add: in_flight_def)

lemma in_flight_cong: "gs st = gs st' \<Longrightarrow> in_flight st = in_flight st'"
  by (simp add: in_flight_def)

lemma ra_inv_init: "ra_inv chunks parallel renderFn w (ra_init chunks w)"
  by (auto simp: ra_inv_def ra_init_def in_flight_def slots_def)

text \<open>A goroutine moves between two states in which it has not completed a render.\<close>

lemma ra_inv_move:
  assumes "ra_inv chunks parallel renderFn w st" "i < length (gs st)" "gs st ! i \<noteq> Gone"
    and "in_flight (st\<lparr>gs := (gs st)[i := g]\<rparr>) \<le> slots parallel" "g = Gone \<longrightarrow> cancelled st"
  shows "ra_inv chunks parallel renderFn w (st\<lparr>gs := (gs st)[i := g]\<rparr>)"
proof -
  have "i \<notin> set (completed st)" using assms(1,3) by (auto simp: ra_inv_def)
  then show ?thesis using assms by (auto simp: ra_inv_def nth_list_update)
qed

text \<open>A render completes.\<close>

lemma ra_inv_finish:
  assumes "ra_inv chunks parallel renderFn w st" "i < length (gs st)" "gs st ! i = Rendering"
    and "renderFn (cancelled st) (chunks ! i) (world st) = (r, w')"
    and "st' = st\<lparr>gs := (gs st)[i := Gone],
        out := (case r of Ok p \<Rightarrow> (out st)[i := Some (chunks ! i, p)] | Err e \<Rightarrow> out st),
        firstErr := (case r of Ok p \<Rightarrow> firstErr st | Err e \<Rightarrow> if firstErr st = None then Some e else firstErr st),
        cancelled := (case r of Ok p \<Rightarrow> cancelled st | Err e \<Rightarrow> True), completed := completed st @ [i], world := w'\<rparr>"
  shows "ra_inv chunks parallel renderFn w st'"
proof -
  have n: "length (gs st) = length chunks" and fresh: "i \<notin> set (completed st)"
    using assms(1,3) by (auto simp: ra_inv_def)
  have flight: "in_flight st' \<le> in_flight st"
    using in_flight_update [OF assms(2), of Gone] assms(3,5) in_flight_cong [of st' "st\<lparr>gs := (gs st)[i := Gone]\<rparr>"] by simp
  have run: "fold (render_one chunks renderFn) (completed st') (replicate (length chunks) None, None, w) =
      (out st', firstErr st', world st')" if "\<not> parentDone st'"
  proof -
    have "cancelled st \<longleftrightarrow> firstErr st \<noteq> None" using assms(1,5) that by (auto simp: ra_inv_def)
    moreover have "fold (render_one chunks renderFn) (completed st) (replicate (length chunks) None, None, w) =
        (out st, firstErr st, world st)" using assms(1,5) that by (simp add: ra_inv_def)
    ultimately show ?thesis using assms(2,4,5) n by (simp add: render_one_def split: sum.split)
  qed
  have "{j. j < length chunks \<and> gs st' ! j = Gone} = insert i {j. j < length chunks \<and> gs st ! j = Gone}"
    using assms(2,5) n by (auto simp: nth_list_update)
  with assms(1,5) n fresh flight run show ?thesis
    by (auto simp: ra_inv_def split: sum.splits)
qed

lemma ra_inv_step [inv_intros]:
  assumes "ra_inv chunks parallel renderFn w st" "ra_step chunks parallel renderFn st st'"
  shows "ra_inv chunks parallel renderFn w st'"
  using assms(2)
proof cases
  case (acquire i)
  then show ?thesis using ra_inv_move [OF assms(1), of i Holding] in_flight_update [of i st Holding] by simp
next
  case (give_up i)
  then show ?thesis
    using ra_inv_move [OF assms(1), of i Gone] in_flight_update [of i st Gone] assms(1) by (simp add: ra_inv_def)
next
  case (release i)
  then show ?thesis
    using ra_inv_move [OF assms(1), of i Gone] in_flight_update [of i st Gone] assms(1) by (simp add: ra_inv_def)
next
  case (start i)
  then show ?thesis
    using ra_inv_move [OF assms(1), of i Rendering] in_flight_update [of i st Rendering] assms(1) by (simp add: ra_inv_def)
next
  case (finish_ok i p w')
  then show ?thesis by (intro ra_inv_finish [OF assms(1), of i "Ok p" w']) simp_all
next
  case (finish_err i e w')
  then show ?thesis by (intro ra_inv_finish [OF assms(1), of i "Err e" w']) simp_all
next
  case parent_done
  then show ?thesis using assms(1) in_flight_cong [of st' st] by (auto simp: ra_inv_def)
qed

lemma ra_reach_inv: "ra_reach chunks parallel renderFn w st \<Longrightarrow> ra_inv chunks parallel renderFn w st"
  by (induction rule: ra_reach.induct) (auto intro: ra_inv_init ra_inv_step)

section \<open>Progress\<close>

text \<open>The steps a state still allows: three per waiting goroutine, and the parent's cancellation.\<close>

fun g_weight :: "goroutine \<Rightarrow> nat" where
  "g_weight Waiting = 3"
| "g_weight Holding = 2"
| "g_weight Rendering = 1"
| "g_weight Gone = 0"

definition ra_measure :: "'w ra_state \<Rightarrow> nat" where
  "ra_measure st = sum_list (map g_weight (gs st)) + (if parentDone st then 0 else 1)"

lemma sum_weight_update:
  "i < length xs \<Longrightarrow> g_weight g < g_weight (xs ! i) \<Longrightarrow> sum_list (map g_weight (xs[i := g])) < sum_list (map g_weight xs)"
proof (induction xs arbitrary: i)
  case (Cons x xs)
  then show ?case by (cases i) auto
qed simp

lemma ra_step_measure: "ra_step chunks parallel renderFn st st' \<Longrightarrow> ra_measure st' < ra_measure st"
  by (erule ra_stepE) (auto simp: ra_measure_def sum_weight_update)

lemma filter_empty_if: "length (filter P xs) = 0 \<Longrightarrow> x \<in> set xs \<Longrightarrow> \<not> P x"
  by (auto simp: filter_empty_conv)

lemma ra_enabled:
  assumes "\<not> finished_all st"
  shows "\<exists>st'. ra_step chunks parallel renderFn st st' \<and> parentDone st' = parentDone st"
proof -
  obtain i where i: "i < length (gs st)" "gs st ! i \<noteq> Gone"
    using assms by (auto simp: finished_all_def list_all_iff in_set_conv_nth)
  show ?thesis
  proof (cases "\<exists>j < length (gs st). gs st ! j = Holding \<or> gs st ! j = Rendering")
    case True
    then obtain j where j: "j < length (gs st)" "gs st ! j = Holding \<or> gs st ! j = Rendering" by blast
    obtain r w' where r: "renderFn (cancelled st) (chunks ! j) (world st) = (r, w')" by force
    from j(2) show ?thesis
    proof
      assume "gs st ! j = Holding"
      then show ?thesis
        using ra_step.release [of j st chunks parallel renderFn] ra_step.start [of j st chunks parallel renderFn] j(1)
        by (cases "cancelled st") fastforce+
    next
      assume "gs st ! j = Rendering"
      then show ?thesis
        using ra_step.finish_ok [of j st renderFn chunks] ra_step.finish_err [of j st renderFn chunks] j(1) r
        by (cases r) fastforce+
    qed
  next
    case False
    then have "in_flight st = 0"
      unfolding in_flight_def by (auto simp: filter_empty_conv in_set_conv_nth)
    moreover have "gs st ! i = Waiting" using False i by (cases "gs st ! i") auto
    ultimately have "ra_step chunks parallel renderFn st (st\<lparr>gs := (gs st)[i := Holding]\<rparr>)"
      using i(1) by (intro ra_step.acquire) (simp_all add: slots_def)
    then show ?thesis by (intro exI [of _ "st\<lparr>gs := (gs st)[i := Holding]\<rparr>"] conjI) simp_all
  qed
qed

section \<open>What a schedule computes\<close>

text \<open>A schedule that completes every render of a chunk list.\<close>

definition complete_sched :: "(Chunk list \<Rightarrow> nat list) \<Rightarrow> bool" where
  "complete_sched sched = (\<forall>cs. distinct (sched cs) \<and> set (sched cs) = {i. i < length cs})"

lemma render_one_err:
  assumes "render_one chunks f i (os, Some e, w) = (os', fe, w')"
  shows "fe = Some e"
  using assms by (auto simp: render_one_def split: if_splits prod.splits sum.splits)

lemma render_fold_err:
  "fold (render_one chunks f) l (os, Some e, w) = (os', fe, w') \<Longrightarrow> fe = Some e"
proof (induction l arbitrary: os w)
  case (Cons i l)
  obtain os1 fe1 w1 where one: "render_one chunks f i (os, Some e, w) = (os1, fe1, w1)" by (cases "render_one chunks f i (os, Some e, w)")
  with Cons show ?case using render_one_err [OF one] by simp
qed simp

text \<open>
  A rely-guarantee rule for the renders. \<open>I\<close> is an invariant of the world that every render keeps,
  \<open>Q c p\<close> what a successful render of \<open>c\<close> establishes for its path and what the renders of the
  other chunks leave intact.
\<close>

lemma render_fold_sound:
  assumes step: "\<And>c w r w'. c \<in> set chunks \<Longrightarrow> I w \<Longrightarrow> f False c w = (r, w') \<Longrightarrow>
      I w' \<and> (\<forall>p. r = Ok p \<longrightarrow> Q c p w') \<and> (\<forall>d p. d \<in> set chunks \<and> d \<noteq> c \<and> Q d p w \<longrightarrow> Q d p w')"
    and "distinct chunks" "distinct l" "\<forall>i \<in> set l. i < length chunks"
    and "fold (render_one chunks f) l (os, None, w) = (os', None, w')"
    and "length os = length chunks" "I w" "\<forall>i \<in> set l. os ! i = None"
    and "\<forall>i < length chunks. \<forall>cp. os ! i = Some cp \<longrightarrow> fst cp = chunks ! i \<and> Q (chunks ! i) (snd cp) w"
  shows "I w' \<and> length os' = length chunks \<and>
    (\<forall>i < length chunks. \<forall>cp. os' ! i = Some cp \<longrightarrow> fst cp = chunks ! i \<and> Q (chunks ! i) (snd cp) w') \<and>
    (\<forall>i < length chunks. i \<in> set l \<or> os ! i \<noteq> None \<longrightarrow> os' ! i \<noteq> None)"
  using assms(3-)
proof (induction l arbitrary: os w)
  case (Cons i l)
  obtain r w1 where r: "f False (chunks ! i) w = (r, w1)" by force
  have i: "i < length chunks" using Cons.prems by simp
  show ?case
  proof (cases r)
    case (Inl e)
    with Cons.prems(3) i r have "fold (render_one chunks f) l (os, Some e, w1) = (os', None, w')"
      by (simp add: render_one_def [of chunks f i])
    from render_fold_err [OF this] show ?thesis by simp
  next
    case (Inr p)
    define os1 where "os1 = os[i := Some (chunks ! i, p)]"
    have run: "fold (render_one chunks f) l (os1, None, w1) = (os', None, w')"
      using Cons.prems(3) i r Inr by (simp add: render_one_def [of chunks f i] os1_def)
    have st: "I w1" "Q (chunks ! i) p w1" "\<And>d q. d \<in> set chunks \<Longrightarrow> d \<noteq> chunks ! i \<Longrightarrow> Q d q w \<Longrightarrow> Q d q w1"
      using step [OF _ Cons.prems(5) r] i Inr by auto
    have other: "chunks ! j \<noteq> chunks ! i" if "j < length chunks" "j \<noteq> i" for j
      using assms(2) i that by (simp add: nth_eq_iff_index_eq)
    have "I w' \<and> length os' = length chunks \<and>
        (\<forall>i < length chunks. \<forall>cp. os' ! i = Some cp \<longrightarrow> fst cp = chunks ! i \<and> Q (chunks ! i) (snd cp) w') \<and>
        (\<forall>i < length chunks. i \<in> set l \<or> os1 ! i \<noteq> None \<longrightarrow> os' ! i \<noteq> None)"
    proof (rule Cons.IH)
      show "\<forall>j \<in> set l. os1 ! j = None" using Cons.prems by (auto simp: os1_def nth_list_update)
      show "\<forall>j < length chunks. \<forall>cp. os1 ! j = Some cp \<longrightarrow> fst cp = chunks ! j \<and> Q (chunks ! j) (snd cp) w1"
      proof (intro allI impI)
        fix j cp assume j: "j < length chunks" "os1 ! j = Some cp"
        show "fst cp = chunks ! j \<and> Q (chunks ! j) (snd cp) w1"
        proof (cases "j = i")
          case False
          then have "os ! j = Some cp" using j by (simp add: os1_def)
          then have "fst cp = chunks ! j" "Q (chunks ! j) (snd cp) w" using Cons.prems(7) j(1) by blast+
          with st(3) [OF _ other [OF j(1) False]] j(1) show ?thesis by simp
        qed (use j i Cons.prems(4) st(2) in \<open>auto simp: os1_def\<close>)
      qed
    qed (use Cons.prems run st in \<open>simp_all add: os1_def\<close>)
    moreover have "os1 ! i \<noteq> None" "\<And>j. j \<noteq> i \<Longrightarrow> os1 ! j = os ! j" using i Cons.prems(4) by (simp_all add: os1_def)
    ultimately show ?thesis by (metis set_ConsD)
  qed
qed auto

lemma renderAll_sound:
  assumes step: "\<And>c w r w'. c \<in> set chunks \<Longrightarrow> I w \<Longrightarrow> f False c w = (r, w') \<Longrightarrow>
      I w' \<and> (\<forall>p. r = Ok p \<longrightarrow> Q c p w') \<and> (\<forall>d p. d \<in> set chunks \<and> d \<noteq> c \<and> Q d p w \<longrightarrow> Q d p w')"
    and "distinct chunks" "complete_sched sched" "I w" "renderAll sched False chunks f w = (Ok cps, w')"
  shows "I w' \<and> map fst cps = chunks \<and> (\<forall>cp \<in> set cps. Q (fst cp) (snd cp) w')"
proof -
  obtain os where os: "fold (render_one chunks f) (sched chunks) (replicate (length chunks) None, None, w) = (os, None, w')"
      "cps = map slot_value os"
    using assms(5) by (auto simp: renderAll_def split: prod.splits option.splits)
  have "I w' \<and> length os = length chunks \<and>
      (\<forall>i < length chunks. \<forall>cp. os ! i = Some cp \<longrightarrow> fst cp = chunks ! i \<and> Q (chunks ! i) (snd cp) w') \<and>
      (\<forall>i < length chunks. i \<in> set (sched chunks) \<or> replicate (length chunks) (None :: slot) ! i \<noteq> None \<longrightarrow> os ! i \<noteq> None)"
    by (rule render_fold_sound [where I = I and Q = Q, OF _ assms(2) _ _ os(1)])
      (use assms(3,4) step in \<open>auto simp: complete_sched_def\<close>)
  then have inv: "I w'" and len: "length os = length chunks"
    and slot: "\<And>i. i < length chunks \<Longrightarrow> \<exists>p. os ! i = Some (chunks ! i, p) \<and> Q (chunks ! i) p w'"
    using assms(3) by (fastforce simp: complete_sched_def)+
  then have val: "fst (slot_value (os ! i)) = chunks ! i \<and> Q (chunks ! i) (snd (slot_value (os ! i))) w'"
    if "i < length chunks" for i
    using slot [OF that] by (auto simp: slot_value_def)
  then have "map fst cps = chunks" using len by (intro nth_equalityI) (simp_all add: os(2))
  moreover have "\<forall>cp \<in> set cps. Q (fst cp) (snd cp) w'"
    using val len by (auto simp: os(2) in_set_conv_nth)
  ultimately show ?thesis using inv by simp
qed

text \<open>The rule for renders that succeed: the whole call succeeds.\<close>

lemma renderAll_total:
  assumes step: "\<And>c w. c \<in> set chunks \<Longrightarrow> I w \<Longrightarrow> \<exists>p w'. f False c w = (Ok p, w') \<and> I w' \<and> Q c p w' \<and>
      (\<forall>d q. d \<in> set chunks \<and> d \<noteq> c \<and> Q d q w \<longrightarrow> Q d q w')"
    and "distinct chunks" "complete_sched sched" "I w"
  shows "\<exists>cps w'. renderAll sched False chunks f w = (Ok cps, w') \<and> I w' \<and> map fst cps = chunks \<and>
    (\<forall>cp \<in> set cps. Q (fst cp) (snd cp) w')"
proof -
  have run: "\<exists>os' v'. fold (render_one chunks f) l (os, None, v) = (os', None, v')" if "I v" for l os v
    using that
  proof (induction l arbitrary: os v)
    case (Cons i l)
    show ?case
    proof (cases "i < length chunks")
      case True
      then obtain p v1 where "f False (chunks ! i) v = (Ok p, v1)" "I v1" using step [OF nth_mem Cons.prems] by blast
      with True show ?thesis using Cons.IH by (simp add: render_one_def [of chunks f i])
    next
      case False
      with Cons show ?thesis by (simp add: render_one_def [of chunks f i])
    qed
  qed simp
  obtain os' w' where "fold (render_one chunks f) (sched chunks) (replicate (length chunks) None, None, w) = (os', None, w')"
    using run [OF assms(4)] by blast
  then have call: "renderAll sched False chunks f w = (Ok (map slot_value os'), w')" by (simp add: renderAll_def)
  have "I w' \<and> map fst (map slot_value os') = chunks \<and> (\<forall>cp \<in> set (map slot_value os'). Q (fst cp) (snd cp) w')"
  proof (rule renderAll_sound [where I = I and Q = Q and f = f and w = w, OF _ assms(2-4) call])
    fix c v r v' assume "c \<in> set chunks" "I v" and r: "f False c v = (r, v')"
    from step [OF this(1,2)] r show "I v' \<and> (\<forall>p. r = Ok p \<longrightarrow> Q c p v') \<and>
        (\<forall>d p. d \<in> set chunks \<and> d \<noteq> c \<and> Q d p v \<longrightarrow> Q d p v')" by auto
  qed
  with call show ?thesis by blast
qed

text \<open>The rule for renders of which some fail: the call fails with one of their errors.\<close>

lemma renderAll_fails:
  assumes step: "\<And>c w. c \<in> set chunks \<Longrightarrow> I w \<Longrightarrow>
      if bad c then \<exists>e w'. f False c w = (Err e, w') \<and> P e else \<exists>p w'. f False c w = (Ok p, w') \<and> I w'"
    and "complete_sched sched" "\<exists>c \<in> set chunks. bad c" "I w"
  shows "\<exists>e w'. renderAll sched False chunks f w = (Err e, w') \<and> P e"
proof -
  have run: "\<exists>e os' v'. fold (render_one chunks f) l (os, None, v) = (os', Some e, v') \<and> P e"
    if "I v" "\<forall>i \<in> set l. i < length chunks" "\<exists>i \<in> set l. bad (chunks ! i)" for l os v
    using that
  proof (induction l arbitrary: os v)
    case (Cons i l)
    have i: "i < length chunks" using Cons.prems(2) by simp
    show ?case
    proof (cases "bad (chunks ! i)")
      case True
      with step [OF nth_mem [OF i] Cons.prems(1)] obtain e v1 where e: "f False (chunks ! i) v = (Err e, v1)" "P e" by auto
      obtain os' fe v' where fin: "fold (render_one chunks f) l (os, Some e, v1) = (os', fe, v')" by (metis prod_cases3)
      with e i render_fold_err [OF fin] show ?thesis by (simp add: render_one_def [of chunks f i])
    next
      case False
      with step [OF nth_mem [OF i] Cons.prems(1)] obtain p v1 where p: "f False (chunks ! i) v = (Ok p, v1)" "I v1" by auto
      have "\<exists>e os' v'. fold (render_one chunks f) l (os[i := Some (chunks ! i, p)], None, v1) = (os', Some e, v') \<and> P e"
        by (rule Cons.IH [OF p(2)]) (use Cons.prems False in auto)
      with p(1) i show ?thesis by (simp add: render_one_def [of chunks f i])
    qed
  qed simp
  have sched: "set (sched chunks) = {i. i < length chunks}" using assms(2) by (simp add: complete_sched_def)
  with assms(3) have "\<exists>i \<in> set (sched chunks). bad (chunks ! i)" by (auto simp: in_set_conv_nth)
  with run [OF assms(4), of "sched chunks" "replicate (length chunks) None"] sched obtain e os' w' where
    "fold (render_one chunks f) (sched chunks) (replicate (length chunks) None, None, w) = (os', Some e, w')" "P e" by auto
  then show ?thesis by (simp add: renderAll_def)
qed

text \<open>What every render keeps, cancelled or not, the call keeps.\<close>

lemma renderAll_keeps:
  assumes step: "\<And>b c v. c \<in> set chunks \<Longrightarrow> K v \<Longrightarrow> K (snd (f b c v))" and "K w"
  shows "K (snd (renderAll sched ctxDone chunks f w))"
proof -
  have "K (snd (snd (fold (render_one chunks f) l (os, fe, v))))" if "K v" for l os fe v
    using that
  proof (induction l arbitrary: os fe v)
    case (Cons i l)
    obtain r v1 where r: "f (fe \<noteq> None) (chunks ! i) v = (r, v1)" by force
    show ?case
    proof (cases "i < length chunks")
      case True
      then have "K v1" using step [OF nth_mem [OF True] Cons.prems, of "fe \<noteq> None"] r by simp
      with Cons.IH True r show ?thesis by (cases r) (simp_all add: render_one_def [of chunks f i])
    next
      case False
      with Cons show ?thesis by (simp add: render_one_def [of chunks f i])
    qed
  qed simp
  from this [OF assms(2)] show ?thesis by (simp add: renderAll_def split_beta)
qed

text \<open>The rule with no invariant and nothing to keep: which chunks a complete schedule returns.\<close>

lemma renderAll_chunks:
  assumes "complete_sched sched" "renderAll sched False chunks f w = (Ok cps, w')"
  shows "map fst cps = chunks"
proof -
  obtain os where os: "fold (render_one chunks f) (sched chunks) (replicate (length chunks) None, None, w) = (os, None, w')"
      "cps = map slot_value os"
    using assms(2) by (auto simp: renderAll_def split: prod.splits option.splits)
  have keep: "length os' = length os0 \<and> (\<forall>i < length chunks. (i \<in> set l \<or> (\<exists>p. os0 ! i = Some (chunks ! i, p))) \<longrightarrow> (\<exists>p. os' ! i = Some (chunks ! i, p)))"
    if "fold (render_one chunks f) l (os0, None, v) = (os', None, v')" "length os0 = length chunks" for l os0 v os' v'
    using that
  proof (induction l arbitrary: os0 v)
    case (Cons i l)
    show ?case
    proof (cases "i < length chunks")
      case True
      obtain r v1 where r: "f False (chunks ! i) v = (r, v1)" by force
      show ?thesis
      proof (cases r)
        case (Inl e)
        with Cons.prems(1) True r have "fold (render_one chunks f) l (os0, Some e, v1) = (os', None, v')"
          by (simp add: render_one_def [of chunks f i])
        from render_fold_err [OF this] show ?thesis by simp
      next
        case (Inr p)
        then have "fold (render_one chunks f) l (os0[i := Some (chunks ! i, p)], None, v1) = (os', None, v')"
          using Cons.prems(1) True r by (simp add: render_one_def [of chunks f i])
        moreover have "\<exists>q. os0[i := Some (chunks ! i, p)] ! j = Some (chunks ! j, q)"
          if "j < length chunks" "j = i \<or> (\<exists>q. os0 ! j = Some (chunks ! j, q))" for j
          using that Cons.prems(2) by (cases "j = i") auto
        ultimately show ?thesis using Cons.IH [of "os0[i := Some (chunks ! i, p)]" v1] Cons.prems(2)
          by (metis length_list_update set_ConsD)
      qed
    next
      case False
      then have "fold (render_one chunks f) l (os0, None, v) = (os', None, v')"
        using Cons.prems(1) by (simp add: render_one_def [of chunks f i])
      from Cons.IH [OF this Cons.prems(2)] False show ?thesis by auto
    qed
  qed simp
  from keep [OF os(1)] assms(1) show ?thesis
    by (intro nth_equalityI) (auto simp: os(2) complete_sched_def slot_value_def split: option.splits)
qed

section \<open>Properties\<close>

text \<open>
  C20: bounded concurrency, in every interleaving: at no time do more goroutines hold a slot or render
  than \<^verbatim>\<open>parallel\<close> (one, when it is below one), and no chunk completes twice.
\<close>

theorem render_all_bounded:
  assumes "ra_reach chunks parallel renderFn w st"
  shows "int (in_flight st) \<le> max 1 parallel \<and> distinct (completed st)"
  using ra_reach_inv [OF assms] by (auto simp: ra_inv_def slots_def max_def split: if_splits)

theorem render_all_bounded_witness:
  "int (in_flight (ra_init [zero_chunk, zero_chunk] (0 :: nat))) \<le> max 1 1"
  using render_all_bounded [OF ra_reach.init, of "[zero_chunk, zero_chunk]" "0 :: nat" 1] by simp

text \<open>
  C19: no deadlock and no endless run: while a goroutine is left, some goroutine can take a step, without
  help from the parent context, and every run makes at most three steps per chunk and one for the
  parent, so \<^verbatim>\<open>wg.Wait\<close> returns if the renders do.
\<close>

theorem render_all_terminates:
  fixes renderFn :: "'w render_fn" and w :: 'w
  shows "(\<not> finished_all st \<longrightarrow> (\<exists>st'. ra_step chunks parallel renderFn st st' \<and> parentDone st' = parentDone st)) \<and>
   (ra_step chunks parallel renderFn st st' \<longrightarrow> ra_measure st' < ra_measure st) \<and>
   ra_measure (ra_init chunks w) = 3 * length chunks + 1"
  by (intro conjI impI; (rule ra_enabled ra_step_measure)?) (simp_all add: ra_measure_def ra_init_def sum_list_replicate)

theorem render_all_terminates_witness:
  "\<exists>st'. ra_step [zero_chunk] 1 (\<lambda>_ _ w. (Ok ''p'', w)) (ra_init [zero_chunk] (0 :: nat)) st'"
proof -
  have "\<not> finished_all (ra_init [zero_chunk] (0 :: nat))" by (simp add: finished_all_def ra_init_def)
  then show ?thesis
    using render_all_terminates [where st = "ra_init [zero_chunk] (0 :: nat)" and st' = "ra_init [zero_chunk] (0 :: nat)"
        and chunks = "[zero_chunk]" and parallel = 1 and renderFn = "\<lambda>_ _ w. (Ok ''p'', w)" and w = 0] by blast
qed

text \<open>
  C11: every complete run of the goroutines whose parent context stays alive returns what the function
  \<open>renderAll\<close> returns for the order in which its renders completed, and leaves the same world; if
  it returns no error then every chunk was rendered exactly once and the result lists the chunks in
  their input order.
\<close>

theorem render_all_refines:
  assumes "ra_reach chunks parallel renderFn w st" "finished_all st" "\<not> parentDone st"
  shows "renderAll (\<lambda>_. completed st) False chunks renderFn w = (ra_result st, world st) \<and>
    (\<forall>cps. ra_result st = Ok cps \<longrightarrow> map fst cps = chunks \<and> distinct (completed st) \<and> set (completed st) = {i. i < length chunks})"
proof -
  have inv: "ra_inv chunks parallel renderFn w st" using assms(1) by (rule ra_reach_inv)
  then have run: "renderAll (\<lambda>_. completed st) False chunks renderFn w = (ra_result st, world st)"
    using assms(3) by (simp add: ra_inv_def renderAll_def ra_result_def)
  moreover have "map fst cps = chunks \<and> distinct (completed st) \<and> set (completed st) = {i. i < length chunks}"
    if ok: "ra_result st = Ok cps" for cps
  proof -
    have "\<not> cancelled st" using inv assms(3) ok by (auto simp: ra_inv_def ra_result_def split: option.splits)
    then have all: "distinct (completed st)" "set (completed st) = {i. i < length chunks}"
      using inv assms(2) by (auto simp: ra_inv_def finished_all_def list_all_length)
    define sched where "sched cs = (if cs = chunks then completed st else [0..<length cs])" for cs
    have "complete_sched sched"
      unfolding complete_sched_def sched_def by (simp add: all atLeast0LessThan lessThan_def)
    moreover have "renderAll sched False chunks renderFn w = (Ok cps, world st)"
      using run ok by (simp add: renderAll_def sched_def)
    ultimately have "map fst cps = chunks" by (rule renderAll_chunks)
    with all show ?thesis by simp
  qed
  ultimately show ?thesis by blast
qed

text \<open>A run on one chunk, step by step.\<close>

lemma one_chunk_run:
  assumes "renderFn False c w = (r, w')"
  shows "ra_reach [c] 1 renderFn w \<lparr>gs = [Gone], out = [case r of Ok p \<Rightarrow> Some (c, p) | Err e \<Rightarrow> None],
    firstErr = (case r of Ok p \<Rightarrow> None | Err e \<Rightarrow> Some e), cancelled = (case r of Ok p \<Rightarrow> False | Err e \<Rightarrow> True),
    parentDone = False, completed = [0], world = w'\<rparr>"
proof -
  let ?s = "\<lambda>g. \<lparr>gs = [g], out = [None], firstErr = None, cancelled = False, parentDone = False, completed = [], world = w\<rparr>"
  have "ra_reach [c] 1 renderFn w (?s Waiting)" using ra_reach.init [of "[c]" 1 renderFn w] by (simp add: ra_init_def)
  moreover have "ra_step [c] 1 renderFn (?s Waiting) (?s Holding)"
    using ra_step.acquire [of 0 "?s Waiting" 1 "[c]" renderFn] by (simp add: in_flight_def slots_def)
  moreover have "ra_step [c] 1 renderFn (?s Holding) (?s Rendering)"
    using ra_step.start [of 0 "?s Holding" "[c]" 1 renderFn] by simp
  moreover have "ra_step [c] 1 renderFn (?s Rendering) \<lparr>gs = [Gone], out = [case r of Ok p \<Rightarrow> Some (c, p) | Err e \<Rightarrow> None],
      firstErr = (case r of Ok p \<Rightarrow> None | Err e \<Rightarrow> Some e), cancelled = (case r of Ok p \<Rightarrow> False | Err e \<Rightarrow> True),
      parentDone = False, completed = [0], world = w'\<rparr>"
    using ra_step.finish_ok [of 0 "?s Rendering" renderFn "[c]" _ w' 1] ra_step.finish_err [of 0 "?s Rendering" renderFn "[c]" _ w' 1] assms
    by (cases r) simp_all
  ultimately show ?thesis by (meson ra_reach.step)
qed

theorem render_all_refines_witness:
  "renderAll (\<lambda>_. [0]) False [zero_chunk] (\<lambda>_ _ w. (Ok ''p'', w)) (0 :: nat) = (Ok [(zero_chunk, ''p'')], 0)"
proof -
  note run = one_chunk_run [of "\<lambda>_ _ w. (Ok ''p'', w)" zero_chunk "0 :: nat" "Ok ''p''" 0, OF refl]
  from render_all_refines [OF run] show ?thesis by (simp add: finished_all_def ra_result_def slot_value_def)
qed

text \<open>
  when a complete run reports an error it is the first one: the error that the first failing render,
  in the order of completion, returned, and all renders before it succeeded.
\<close>

theorem render_all_first_error:
  assumes "ra_reach chunks parallel renderFn w st" "finished_all st" "\<not> parentDone st" "ra_result st = Err e"
  shows "\<exists>pre i post os w1 w2. completed st = pre @ i # post \<and> i < length chunks \<and>
    fold (render_one chunks renderFn) pre (replicate (length chunks) None, None, w) = (os, None, w1) \<and>
    renderFn False (chunks ! i) w1 = (Err e, w2)"
proof -
  have inv: "ra_inv chunks parallel renderFn w st" using assms(1) by (rule ra_reach_inv)
  have split: "\<exists>pre i post os w1 w2. l = pre @ i # post \<and>
      fold (render_one chunks renderFn) pre (os0, None, v) = (os, None, w1) \<and> renderFn False (chunks ! i) w1 = (Err e, w2)"
    if "fold (render_one chunks renderFn) l (os0, None, v) = (os', Some e, v')" "\<forall>i \<in> set l. i < length chunks" for l os0 v os' v'
    using that
  proof (induction l arbitrary: os0 v)
    case (Cons i l)
    obtain r v1 where r: "renderFn False (chunks ! i) v = (r, v1)" by force
    show ?case
    proof (cases r)
      case (Inl e')
      then have "fold (render_one chunks renderFn) l (os0, Some e', v1) = (os', Some e, v')"
        using Cons.prems r by (simp add: render_one_def [of chunks renderFn i])
      from render_fold_err [OF this] have "r = Err e" by (simp add: Inl)
      with r show ?thesis by (intro exI [of _ "[]"]) simp
    next
      case (Inr p)
      then have one: "render_one chunks renderFn i (os0, None, v) = (os0[i := Some (chunks ! i, p)], None, v1)"
        using Cons.prems r by (simp add: render_one_def)
      with Cons.prems obtain pre j post os w1 w2 where "l = pre @ j # post"
          "fold (render_one chunks renderFn) pre (os0[i := Some (chunks ! i, p)], None, v1) = (os, None, w1)"
          "renderFn False (chunks ! j) w1 = (Err e, w2)"
        using Cons.IH [of "os0[i := Some (chunks ! i, p)]" v1] by auto
      with one show ?thesis by (intro exI [of _ "i # pre"] exI [of _ j] exI [of _ post]) simp
    qed
  qed simp
  have "firstErr st = Some e" using assms(4) by (simp add: ra_result_def split: option.splits)
  with inv assms(3) have "fold (render_one chunks renderFn) (completed st) (replicate (length chunks) None, None, w) =
      (out st, Some e, world st)" "\<forall>i \<in> set (completed st). i < length chunks" by (auto simp: ra_inv_def)
  from split [OF this] show ?thesis using \<open>\<forall>i \<in> set (completed st). i < length chunks\<close> by fastforce
qed

theorem render_all_first_error_witness:
  "\<exists>pre i post os w1. [0] = pre @ i # post \<and> i < length [zero_chunk] \<and>
    fold (render_one [zero_chunk] (\<lambda>_ _ w. (Err (PlainError ''boom''), w))) pre (replicate (length [zero_chunk]) None, None, 0 :: nat) = (os, None, w1)"
proof -
  note run = one_chunk_run [of "\<lambda>_ _ w. (Err (PlainError ''boom''), w)" zero_chunk "0 :: nat" "Err (PlainError ''boom'')" 0, OF refl]
  from render_all_first_error [OF run, of "PlainError ''boom''"] show ?thesis
    by (simp add: finished_all_def ra_result_def)
qed


end
