(* ===== verification/Probe.thy ===== *)
theory Probe
  imports Worker
begin

text \<open>
  \<^verbatim>\<open>internal/probe\<close>: format detection by magic bytes (\<^verbatim>\<open>probe.go\<close>) and the two-tier page-count
  probe (\<^verbatim>\<open>probe_lite.go\<close>). Byte slices are lists of characters. \<^verbatim>\<open>archive/zip\<close> is the argument
  \<open>unzip\<close>, from the bytes of a file to its entries in order (a content that cannot be read is
  \<open>None\<close>), \<^verbatim>\<open>encoding/xml\<close> is \<open>app_props\<close>, from the text of \<^verbatim>\<open>docProps/app.xml\<close> to its \<open>Pages\<close> and
  \<open>Slides\<close>, and \<^verbatim>\<open>encoding/json\<close> is \<open>unmarshal_probe\<close>. The worker and \<^verbatim>\<open>qpdf\<close> programs are
  arguments as in the theories \<open>Worker\<close> and \<open>Qpdf\<close>.
\<close>

section \<open>Definitions\<close>

subsection \<open>Format detection\<close>

text \<open>The values of \<^verbatim>\<open>types.DispatchFormat\<close>.\<close>

definition DispatchFormats :: "string list" where
  "DispatchFormats =
     [''docx'', ''pptx'', ''xlsx'', ''pdf'', ''odg'', ''png'', ''jpg'', ''tiff'', ''gif'', ''bmp'', ''webp'', ''svg'',
      ''eml'', ''html'']"

definition AcceptedUploadFormats :: "string list" where
  "AcceptedUploadFormats =
     [''docx'', ''pptx'', ''xlsx'', ''pdf'', ''doc'', ''xls'', ''ppt'', ''csv'', ''rtf'',
      ''odt'', ''ods'', ''odp'', ''odg'', ''png'', ''jpg'', ''jpeg'', ''tiff'', ''tif'',
      ''gif'', ''bmp'', ''webp'', ''svg'', ''eml'']"

definition pdfMagic :: string where "pdfMagic = ''%PDF-''"
definition zipMagic :: string where "zipMagic = ''PK'' @ bytes [3, 4]"
definition ole2Magic :: string where "ole2Magic = bytes [0xd0, 0xcf, 0x11, 0xe0, 0xa1, 0xb1, 0x1a, 0xe1]"
definition rtfMagic :: string where "rtfMagic = ''{'' @ bytes [0x5c] @ ''rtf''"
definition pngMagic :: string where "pngMagic = bytes [0x89] @ ''PNG'' @ bytes [13, 10, 0x1a, 10]"
definition jpegMagic :: string where "jpegMagic = bytes [0xff, 0xd8, 0xff]"
definition gif87Magic :: string where "gif87Magic = ''GIF87a''"
definition gif89Magic :: string where "gif89Magic = ''GIF89a''"
definition bmpMagic :: string where "bmpMagic = ''BM''"
definition tiffLE :: string where "tiffLE = ''II*'' @ bytes [0]"
definition tiffBE :: string where "tiffBE = ''MM'' @ bytes [0] @ ''*''"
definition riffMagic :: string where "riffMagic = ''RIFF''"
definition webpTag :: string where "webpTag = ''WEBP''"

definition emlHeaderPrefixes :: "string list" where
  "emlHeaderPrefixes =
     [''received:'', ''return-path:'', ''delivered-to:'', ''message-id:'',
      ''date:'', ''from:'', ''to:'', ''subject:'', ''mime-version:'', ''x-'']"

definition ooxmlContentTypeToFormat :: "(string \<times> FormatName) list" where
  "ooxmlContentTypeToFormat =
     [(''application/vnd.openxmlformats-officedocument.wordprocessingml.document.main+xml'', FormatDOCX),
      (''application/vnd.openxmlformats-officedocument.presentationml.presentation.main+xml'', FormatPPTX),
      (''application/vnd.openxmlformats-officedocument.spreadsheetml.sheet.main+xml'', FormatXLSX)]"

definition odfMimetypeToFormat :: "(string \<times> string) list" where
  "odfMimetypeToFormat =
     [(''application/vnd.oasis.opendocument.text'', ''docx''),
      (''application/vnd.oasis.opendocument.spreadsheet'', ''xlsx''),
      (''application/vnd.oasis.opendocument.presentation'', ''pptx''),
      (''application/vnd.oasis.opendocument.graphics'', ''odg'')]"

definition unrenderableODFSubtypes :: "(string \<times> string) list" where
  "unrenderableODFSubtypes =
     [(''application/vnd.oasis.opendocument.formula'', ''OpenDocument Formula (.odf)''),
      (''application/vnd.oasis.opendocument.base'', ''OpenDocument Base (.odb)'')]"

text \<open>UTF-16 text: a zero byte between the characters.\<close>

fun utf16 :: "string \<Rightarrow> string" where
  "utf16 [] = []"
| "utf16 [c] = [c]"
| "utf16 (c # d # s) = c # CHR 0x00 # utf16 (d # s)"

definition ole2StreamSignatures :: "(string \<times> FormatName) list" where
  "ole2StreamSignatures =
     [(utf16 ''PowerPoint Document'', FormatPPTX), (utf16 ''WordDocument'', FormatDOCX),
      (utf16 ''Workbook'', FormatXLSX), (utf16 ''Book'', FormatXLSX)]"

definition ole2ExtToFormat :: "(string \<times> FormatName) list" where
  "ole2ExtToFormat =
     [(''doc'', FormatDOCX), (''dot'', FormatDOCX), (''xls'', FormatXLSX), (''xlt'', FormatXLSX), (''xlm'', FormatXLSX),
      (''ppt'', FormatPPTX), (''pot'', FormatPPTX), (''pps'', FormatPPTX)]"

definition hex_digit :: "nat \<Rightarrow> char" where
  "hex_digit n = (if n < 10 then char_of (48 + n) else char_of (87 + n))"

definition hex :: "string \<Rightarrow> string" where
  "hex s = concat (map (\<lambda>c. let n = of_char c :: nat in [hex_digit (n div 16), hex_digit (n mod 16)]) s)"

definition utf8_bom :: string where "utf8_bom = bytes [0xef, 0xbb, 0xbf]"

definition ascii_space :: "string list" where
  "ascii_space = map (\<lambda>b. bytes [b]) [32, 9, 13, 10, 11, 12]"

definition LooksLikeHTML :: "string \<Rightarrow> bool" where
  "LooksLikeHTML magicBytes =
     (let head0 = take 1024 magicBytes;
          head1 = (if has_prefix head0 utf8_bom then drop 3 head0 else head0);
          head2 = trim_seqs ascii_space head1;
          lower = to_lower (take 64 head2)
      in has_prefix lower ''<!doctype html'' \<or> has_prefix lower ''<html'')"

definition hasHTMLExtension :: "string \<Rightarrow> bool" where
  "hasHTMLExtension filename =
     (case cut_last CHR ''.'' filename of
        None \<Rightarrow> False
      | Some (_, ext) \<Rightarrow> to_lower ext = ''html'' \<or> to_lower ext = ''htm'')"

definition IsHTMLUpload :: "string \<Rightarrow> string \<Rightarrow> bool" where
  "IsHTMLUpload head filename = (LooksLikeHTML head \<or> hasHTMLExtension filename)"

definition looksLikeEML :: "string \<Rightarrow> bool" where
  "looksLikeEML magicBytes =
     (let head0 = take 1024 magicBytes;
          head1 = trim_seqs [utf8_bom] head0;
          head = trim_seqs ascii_space head1;
          scan = take 200 head
      in if \<not> contains scan '': '' then False
         else (let firstLine = takeWhile (\<lambda>c. c \<noteq> CHR 0x0A) head; lower = to_lower firstLine
               in list_ex (\<lambda>p. has_prefix lower p) emlHeaderPrefixes))"

definition detectImageFormat :: "string \<Rightarrow> string" where
  "detectImageFormat b =
     (if has_prefix b pngMagic then ''png''
      else if has_prefix b jpegMagic then ''jpg''
      else if has_prefix b gif87Magic \<or> has_prefix b gif89Magic then ''gif''
      else if has_prefix b bmpMagic then ''bmp''
      else if has_prefix b tiffLE \<or> has_prefix b tiffBE then ''tiff''
      else if has_prefix b riffMagic \<and> contains (take 16 b) webpTag then ''webp''
      else
        (let head = take 512 b; trimmed = trim_seqs ascii_space (trim_seqs [utf8_bom] head)
         in if (has_prefix trimmed ''<?xml'' \<or> has_prefix trimmed ''<svg'') \<and> contains (to_lower head) ''<svg''
            then ''svg'' else ''''))"

definition readHead :: "os_faults \<Rightarrow> string \<Rightarrow> nat \<Rightarrow> fs \<Rightarrow> string option" where
  "readHead os path n s =
     (case fst (run_io (os_Open os path) s) of Err e \<Rightarrow> None | Ok c \<Rightarrow> Some (take n c))"

definition classifyOLE2 :: "os_faults \<Rightarrow> string \<Rightarrow> string \<Rightarrow> fs \<Rightarrow> (go_error, FormatName) result" where
  "classifyOLE2 os sourcePath filename s =
     (let found = (if sourcePath = '''' then []
                   else (case readHead os sourcePath 524288 s of
                           None \<Rightarrow> []
                         | Some head \<Rightarrow> map snd (filter (\<lambda>(sig, f). contains head sig) ole2StreamSignatures)))
      in if found \<noteq> []
         then (if FormatDOCX \<in> set found then Ok FormatDOCX
               else if FormatPPTX \<in> set found then Ok FormatPPTX
               else if FormatXLSX \<in> set found then Ok FormatXLSX
               else Ok (hd found))
         else
           (case (if filename = '''' then None
                  else (case cut_last CHR ''.'' filename of
                          None \<Rightarrow> None
                        | Some (_, ext) \<Rightarrow> map_of ole2ExtToFormat (to_lower ext))) of
              Some f \<Rightarrow> Ok f
            | None \<Rightarrow> Err (OError (NewUnsupportedFormat (hex ole2Magic) AcceptedUploadFormats ''''))))"

type_synonym zip_entry = "string \<times> string option"

definition readZipEntry :: "zip_entry \<Rightarrow> string" where
  "readZipEntry f = (case snd f of None \<Rightarrow> '''' | Some b \<Rightarrow> b)"

definition zip_open :: "(string \<Rightarrow> zip_entry list option) \<Rightarrow> os_faults \<Rightarrow> string \<Rightarrow> fs \<Rightarrow> zip_entry list option" where
  "zip_open unzip os path s = (case fst (run_io (os_Open os path) s) of Err e \<Rightarrow> None | Ok c \<Rightarrow> unzip c)"

definition classifyByContentTypes :: "string \<Rightarrow> FormatName" where
  "classifyByContentTypes content =
     (case find (\<lambda>(ctype, f). contains content ctype) ooxmlContentTypeToFormat of
        Some (_, f) \<Rightarrow> f
      | None \<Rightarrow> FormatDOCX)"

fun inspect_entries :: "zip_entry list \<Rightarrow> string \<Rightarrow> (go_error, string) result" where
  "inspect_entries [] contentTypes =
     (if contentTypes \<noteq> '''' then Ok (classifyByContentTypes contentTypes) else Ok ''docx'')"
| "inspect_entries (f # fs) contentTypes =
     (if fst f = ''mimetype''
      then (let mimetype = trim_space (readZipEntry f)
            in case map_of odfMimetypeToFormat mimetype of
                 Some fm \<Rightarrow> Ok fm
               | None \<Rightarrow>
                   (case map_of unrenderableODFSubtypes mimetype of
                      Some reason \<Rightarrow>
                        Err (OError (NewUnsupportedFormat mimetype AcceptedUploadFormats
                          (reason @ '' is not supported by Aspose.Total C++'')))
                    | None \<Rightarrow> inspect_entries fs contentTypes))
      else if fst f = ''[Content_Types].xml'' then inspect_entries fs (readZipEntry f)
      else inspect_entries fs contentTypes)"

definition inspectOOXMLPath ::
  "(string \<Rightarrow> zip_entry list option) \<Rightarrow> os_faults \<Rightarrow> string \<Rightarrow> fs \<Rightarrow> (go_error, string) result" where
  "inspectOOXMLPath unzip os path s =
     (case zip_open unzip os path s of None \<Rightarrow> Ok ''docx'' | Some es \<Rightarrow> inspect_entries es '''')"

definition inspectOOXMLPrefix :: "(string \<Rightarrow> zip_entry list option) \<Rightarrow> string \<Rightarrow> FormatName" where
  "inspectOOXMLPrefix unzip head =
     (case unzip head of
        None \<Rightarrow> FormatDOCX
      | Some es \<Rightarrow>
          (case find (\<lambda>f. fst f = ''[Content_Types].xml'') es of
             Some f \<Rightarrow> classifyByContentTypes (readZipEntry f)
           | None \<Rightarrow> FormatDOCX))"

definition DetectFormat ::
  "(string \<Rightarrow> zip_entry list option) \<Rightarrow> os_faults \<Rightarrow> string \<Rightarrow> string \<Rightarrow> string \<Rightarrow> fs \<Rightarrow> (go_error, string) result" where
  "DetectFormat unzip os magicBytes sourcePath filename s =
     (if length magicBytes = 0 then Err (OError (NewUnsupportedFormat ''(empty)'' AcceptedUploadFormats ''''))
      else if has_prefix magicBytes pdfMagic then Ok ''pdf''
      else if has_prefix magicBytes zipMagic
      then (if sourcePath \<noteq> '''' then inspectOOXMLPath unzip os sourcePath s
            else Ok (inspectOOXMLPrefix unzip magicBytes))
      else if has_prefix magicBytes ole2Magic then classifyOLE2 os sourcePath filename s
      else if has_prefix magicBytes rtfMagic then Ok ''docx''
      else if detectImageFormat magicBytes \<noteq> '''' then Ok (detectImageFormat magicBytes)
      else if LooksLikeHTML magicBytes then Ok ''html''
      else if looksLikeEML magicBytes then Ok ''eml''
      else if hasHTMLExtension filename then Ok ''html''
      else Err (OError (NewUnsupportedFormat (hex (take 8 magicBytes)) AcceptedUploadFormats '''')))"

subsection \<open>The probe\<close>

record probeJSON =
  pjPageCount :: "int option"
  pjFormat :: string
  pjNaturalSeams :: "int list list"
  pjSizeBytes :: "int option"

definition seam_pairs :: "int list list \<Rightarrow> (int \<times> int) list" where
  "seam_pairs ss = map (\<lambda>s. (s ! 0, s ! 1)) (filter (\<lambda>s. length s \<ge> 2) ss)"

definition ParseProbeJSON ::
  "(string \<Rightarrow> (string, probeJSON) result) \<Rightarrow> string \<Rightarrow> (go_error, ProbeResult) result" where
  "ParseProbeJSON unmarshal_probe stdout =
     (case unmarshal_probe stdout of
        Err e \<Rightarrow> Err (OError (NewInputUnprocessable (''worker returned invalid JSON: '' @ e)))
      | Ok data \<Rightarrow>
          (case (pjPageCount data, pjSizeBytes data) of
             (Some n, Some sz) \<Rightarrow>
               if pjFormat data = '''' then Err (OError (NewInputUnprocessable ''worker probe JSON missing field''))
               else Ok \<lparr>PageCount = n, Format = pjFormat data, NaturalSeams = seam_pairs (pjNaturalSeams data), SizeBytes = sz\<rparr>
           | _ \<Rightarrow> Err (OError (NewInputUnprocessable ''worker probe JSON missing field''))))"

definition staleMetadataSizeThreshold :: int where "staleMetadataSizeThreshold = 200000"

definition bytesPerPageEstimate :: "FormatName \<rightharpoonup> int" where
  "bytesPerPageEstimate =
     map_of [(FormatDOCX, 20000), (FormatPPTX, 100000), (FormatXLSX, 50000), (FormatPDF, 30000)]"

definition estimatePagesFromSize :: "int \<Rightarrow> FormatName \<Rightarrow> int" where
  "estimatePagesFromSize sz format =
     (let bpp = (case bytesPerPageEstimate format of Some b \<Rightarrow> b | None \<Rightarrow> 20000);
          est = sz div bpp
      in if est < 1 then 1 else est)"

text \<open>The third-party readers the probe uses.\<close>

record readers =
  unzip :: "string \<Rightarrow> zip_entry list option"
  app_props :: "string \<Rightarrow> (int option \<times> int option) option"
  unmarshal_probe :: "string \<Rightarrow> (string, probeJSON) result"

definition ooxmlCount :: "readers \<Rightarrow> os_faults \<Rightarrow> string \<Rightarrow> string \<Rightarrow> fs \<Rightarrow> int" where
  "ooxmlCount rd os path element s =
     (case zip_open (unzip rd) os path s of
        None \<Rightarrow> 0
      | Some es \<Rightarrow>
          (case find (\<lambda>f. fst f = ''docProps/app.xml'') es of
             None \<Rightarrow> 0
           | Some f \<Rightarrow>
               (case snd f of
                  None \<Rightarrow> 0
                | Some data \<Rightarrow>
                    (case app_props rd data of
                       None \<Rightarrow> 0
                     | Some (pages, slides) \<Rightarrow>
                         if element = ''Pages'' \<and> pages \<noteq> None then the pages
                         else if element = ''Slides'' \<and> slides \<noteq> None then the slides
                         else 0))))"

definition pptxSlideCountFromZip :: "readers \<Rightarrow> os_faults \<Rightarrow> string \<Rightarrow> fs \<Rightarrow> int" where
  "pptxSlideCountFromZip rd os path s =
     (case zip_open (unzip rd) os path s of
        None \<Rightarrow> 0
      | Some es \<Rightarrow> int (length (filter (\<lambda>f. has_prefix (fst f) ''ppt/slides/slide'' \<and> has_suffix (fst f) ''.xml'') es)))"

text \<open>The expression \<^verbatim>\<open>^\s*(\d+)\s*$\<close>: the digits between white space.\<close>

definition re_space :: "char \<Rightarrow> bool" where
  "re_space c = (of_char c \<in> {9, 10, 12, 13, 32 :: nat})"

definition qpdfNPagesRE :: "string \<Rightarrow> string option" where
  "qpdfNPagesRE b =
     (let core = rev (dropWhile re_space (rev (dropWhile re_space b)))
      in if core \<noteq> [] \<and> list_all is_digit core then Some core else None)"

definition qpdfPageCount :: "(string list \<Rightarrow> fs \<Rightarrow> proc) \<Rightarrow> string \<Rightarrow> fs \<Rightarrow> int" where
  "qpdfPageCount qpdf path s =
     (case qpdf [''--show-npages'', path] s of
        Exited rc b err \<Rightarrow>
          if rc \<noteq> 0 then 0
          else (case qpdfNPagesRE b of
                  None \<Rightarrow> 0
                | Some m \<Rightarrow> (case parse_int m of None \<Rightarrow> 0 | Some n \<Rightarrow> n))
      | _ \<Rightarrow> 0)"

definition ProbeLite ::
  "readers \<Rightarrow> os_faults \<Rightarrow> (string list \<Rightarrow> fs \<Rightarrow> proc) \<Rightarrow> string \<Rightarrow> FormatName \<Rightarrow> fs \<Rightarrow> ProbeResult option" where
  "ProbeLite rd os qpdf inputPath format s =
     (case s inputPath of
        None \<Rightarrow> None
      | Some content \<Rightarrow>
          (let sz = int (length content);
               lite = (\<lambda>n. if n \<le> 0 then None
                        else Some \<lparr>PageCount = n, Format = format, NaturalSeams = [], SizeBytes = sz\<rparr>)
           in if format = FormatDOCX
              then (let c = ooxmlCount rd os inputPath ''Pages'' s
                    in lite (if c \<le> 0 then estimatePagesFromSize sz format
                             else if c = 1 \<and> sz > staleMetadataSizeThreshold then estimatePagesFromSize sz format
                             else c))
              else if format = FormatPPTX
              then (let n0 = ooxmlCount rd os inputPath ''Slides'' s;
                        n1 = (if n0 \<le> 0 then pptxSlideCountFromZip rd os inputPath s else n0)
                    in lite (if n1 \<le> 0 then estimatePagesFromSize sz format else n1))
              else if format = FormatXLSX then None
              else if format = FormatPDF then lite (qpdfPageCount qpdf inputPath s)
              else None))"

definition mismatchRetryFormat :: "string \<Rightarrow> FormatName \<Rightarrow> FormatName" where
  "mismatchRetryFormat errMsg format =
     (if contains errMsg ''word doc'' \<and> format \<noteq> FormatDOCX then FormatDOCX
      else if contains errMsg ''excel'' \<or> (contains errMsg ''workbook'' \<and> format \<noteq> FormatXLSX) then FormatXLSX
      else if contains errMsg ''powerpoint'' \<or> (contains errMsg ''presentation'' \<and> format \<noteq> FormatPPTX) then FormatPPTX
      else '''')"

definition Probe ::
  "readers \<Rightarrow> os_faults \<Rightarrow> (string list \<Rightarrow> fs \<Rightarrow> proc) \<Rightarrow> worker_exec \<Rightarrow> Settings \<Rightarrow> string \<Rightarrow> FormatName \<Rightarrow> fs
   \<Rightarrow> (go_error, ProbeResult) result \<times> fs" where
  "Probe rd os qpdf exec st inputPath format s =
     (case ProbeLite rd os qpdf inputPath format s of
        Some lite \<Rightarrow> (Ok lite, s)
      | None \<Rightarrow>
          (let ((out, err, e), s1) = RunWorker exec st ''probe'' inputPath format '''' None None s
           in case e of
                None \<Rightarrow> (ParseProbeJSON (unmarshal_probe rd) out, s1)
              | Some e \<Rightarrow>
                  (let unprocessable = (case e of OError oe \<Rightarrow> FailureClass oe = InputUnprocessable | _ \<Rightarrow> False);
                       retry = mismatchRetryFormat (to_lower (error_text e)) format
                   in if unprocessable \<and> retry \<noteq> ''''
                      then (let ((out2, err2, e2), s2) = RunWorker exec st ''probe'' inputPath retry '''' None None s1
                            in case e2 of
                                 None \<Rightarrow>
                                   (case ParseProbeJSON (unmarshal_probe rd) out2 of
                                      Ok pr \<Rightarrow> (Ok (pr\<lparr>Format := retry\<rparr>), s2)
                                    | Err _ \<Rightarrow> (Err e, s2))
                               | Some _ \<Rightarrow> (Err e, s2))
                      else (Err e, s1))))"

section \<open>Lemmas\<close>

text \<open>A refusal: the error of an upload whose format is not supported.\<close>

definition unsupported :: "go_error \<Rightarrow> bool" where
  "unsupported e = (\<exists>oe. e = OError oe \<and> FailureClass oe = UnsupportedFormat \<and> HTTPStatus oe = 400)"

definition detects :: "(go_error, string) result \<Rightarrow> bool" where
  "detects r = (case r of Ok f \<Rightarrow> f \<in> set DispatchFormats | Err e \<Rightarrow> unsupported e)"

lemma detects_simps [simp]: "detects (Ok f) = (f \<in> set DispatchFormats)" "detects (Err e) = unsupported e"
  by (simp_all add: detects_def)

lemma dispatch_mem [simp]:
  "''docx'' \<in> set DispatchFormats" "''pdf'' \<in> set DispatchFormats" "''html'' \<in> set DispatchFormats"
  "''eml'' \<in> set DispatchFormats" "FormatDOCX \<in> set DispatchFormats" "FormatPPTX \<in> set DispatchFormats"
  "FormatXLSX \<in> set DispatchFormats"
  by (simp_all add: DispatchFormats_def format_defs)

lemma unsupported_new [simp]: "unsupported (OError (NewUnsupportedFormat m a r))"
  by (simp add: unsupported_def NewUnsupportedFormat_def Let_def)

lemma classifyByContentTypes_dispatch: "classifyByContentTypes c \<in> set DispatchFormats"
proof -
  have "set (map snd ooxmlContentTypeToFormat) \<subseteq> set DispatchFormats"
    by (simp add: ooxmlContentTypeToFormat_def)
  moreover have "(ct, f) \<in> set ooxmlContentTypeToFormat" if "find P ooxmlContentTypeToFormat = Some (ct, f)" for P ct f
    using that unfolding find_Some_iff by (metis nth_mem)
  ultimately have "f \<in> set DispatchFormats" if "find P ooxmlContentTypeToFormat = Some (ct, f)" for P ct f
    using that by (metis image_eqI set_map snd_conv subsetD)
  then show ?thesis unfolding classifyByContentTypes_def by (auto split: option.split)
qed

lemma inspect_entries_detects: "detects (inspect_entries es ct)"
proof (induction es ct rule: inspect_entries.induct)
  case (1 ct)
  then show ?case by (simp add: classifyByContentTypes_dispatch)
next
  case (2 f fs ct)
  have "fm \<in> set DispatchFormats" if "map_of odfMimetypeToFormat m = Some fm" for m fm
  proof -
    have "set (map snd odfMimetypeToFormat) \<subseteq> set DispatchFormats"
      by (simp add: odfMimetypeToFormat_def DispatchFormats_def)
    with map_of_SomeD [OF that] show ?thesis by force
  qed
  with 2 show ?case by (auto simp: Let_def split: option.split)
qed

lemma classifyOLE2_detects: "detects (classifyOLE2 os p n s)"
proof -
  have "f \<in> set DispatchFormats" if "map_of ole2ExtToFormat x = Some f" for x f
  proof -
    have "set (map snd ole2ExtToFormat) \<subseteq> set DispatchFormats"
      by (simp add: ole2ExtToFormat_def)
    with map_of_SomeD [OF that] show ?thesis by force
  qed
  moreover have "hd (map snd (filter P ole2StreamSignatures)) \<in> set DispatchFormats"
    if "filter P ole2StreamSignatures \<noteq> []" for P
  proof -
    have "hd (map snd (filter P ole2StreamSignatures)) \<in> set (map snd (filter P ole2StreamSignatures))"
      using that by (intro hd_in_set) simp
    moreover have "set (map snd ole2StreamSignatures) \<subseteq> set DispatchFormats"
      by (simp add: ole2StreamSignatures_def)
    ultimately show ?thesis by auto
  qed
  ultimately show ?thesis
    unfolding classifyOLE2_def Let_def by (auto split: option.split if_split simp del: set_map)
qed

lemma detectImageFormat_dispatch: "detectImageFormat b = '''' \<or> detectImageFormat b \<in> set DispatchFormats"
  by (simp add: detectImageFormat_def DispatchFormats_def Let_def)

lemma inspectOOXMLPrefix_dispatch: "inspectOOXMLPrefix u b \<in> set DispatchFormats"
  by (auto simp: inspectOOXMLPrefix_def classifyByContentTypes_dispatch split: option.split)

lemma DetectFormat_detects: "detects (DetectFormat u os b p n s)"
proof -
  have "detects (inspectOOXMLPath u os p s)"
    by (auto simp: inspectOOXMLPath_def inspect_entries_detects split: option.split)
  then show ?thesis
    using detectImageFormat_dispatch [of b] classifyOLE2_detects [of os p n s] inspectOOXMLPrefix_dispatch [of u b]
    unfolding DetectFormat_def by auto
qed

lemma estimate_pos: "1 \<le> estimatePagesFromSize sz f"
  by (simp add: estimatePagesFromSize_def Let_def)

lemma ProbeLite_office:
  assumes "s p = Some c" "f = FormatDOCX \<or> f = FormatPPTX"
  shows "\<exists>n. ProbeLite rd os qpdf p f s = Some \<lparr>PageCount = n, Format = f, NaturalSeams = [], SizeBytes = int (length c)\<rparr> \<and> 1 \<le> n"
proof -
  have ne: "FormatDOCX \<noteq> FormatPPTX" by (simp add: format_defs)
  have est: "\<not> estimatePagesFromSize sz g \<le> 0" for sz g using estimate_pos [of sz g] by simp
  show ?thesis using assms(2)
  proof
    assume "f = FormatDOCX"
    with assms(1) est estimate_pos show ?thesis by (simp add: ProbeLite_def Let_def)
  next
    assume "f = FormatPPTX"
    with assms(1) ne est estimate_pos show ?thesis by (simp add: ProbeLite_def Let_def)
  qed
qed

lemma ProbeLite_positive:
  "ProbeLite rd os qpdf p f s = Some pr \<Longrightarrow>
   1 \<le> PageCount pr \<and> Format pr = f \<and> NaturalSeams pr = [] \<and> (\<exists>c. s p = Some c \<and> SizeBytes pr = int (length c))"
  by (auto simp: ProbeLite_def Let_def split: option.splits if_splits)

section \<open>Properties\<close>

text \<open>
  C31: format detection is total: for every upload it returns one of the fourteen dispatch formats or
  refuses with a 400 unsupported-format error; no other failure is possible, whatever the archive
  reader returns.
\<close>

theorem detect_format_total:
  "case DetectFormat u os magic path name s of
     Ok f \<Rightarrow> f \<in> set DispatchFormats
   | Err e \<Rightarrow> (\<exists>oe. e = OError oe \<and> FailureClass oe = UnsupportedFormat \<and> HTTPStatus oe = 400)"
  using DetectFormat_detects [of u os magic path name s] by (simp add: detects_def unsupported_def split: sum.splits)

text \<open>
  a Word or PowerPoint document that exists is probed without a worker process: whatever the
  archive readers and the worker would do, \<^verbatim>\<open>Probe\<close> succeeds at once with at least one page, the
  requested format, no seams and the size of the file, and leaves the file system alone.
\<close>

theorem probe_office_without_worker:
  assumes "s path = Some c" and "f = FormatDOCX \<or> f = FormatPPTX"
  shows "\<exists>n. Probe rd os qpdf exec st path f s =
    (Ok \<lparr>PageCount = n, Format = f, NaturalSeams = [], SizeBytes = int (length c)\<rparr>, s) \<and> 1 \<le> n"
  using ProbeLite_office [of s path c f rd os qpdf] assms by (auto simp: Probe_def)

theorem probe_office_without_worker_witness:
  "\<exists>n. Probe \<lparr>unzip = (\<lambda>_. None), app_props = (\<lambda>_. None), unmarshal_probe = (\<lambda>_. Err ''bad'')\<rparr> no_faults
     (\<lambda>_ _. SpawnFailed ''no qpdf'') (\<lambda>_ s. (SpawnFailed ''no worker'', s)) (settings_of id Map.empty) ''/in'' FormatDOCX [''/in'' \<mapsto> ''PK'']
   = (Ok \<lparr>PageCount = n, Format = FormatDOCX, NaturalSeams = [], SizeBytes = 2\<rparr>, [''/in'' \<mapsto> ''PK'']) \<and> 1 \<le> n"
  using probe_office_without_worker [of "[''/in'' \<mapsto> ''PK'']" "''/in''" "''PK''" FormatDOCX
      "\<lparr>unzip = (\<lambda>_. None), app_props = (\<lambda>_. None), unmarshal_probe = (\<lambda>_. Err ''bad'')\<rparr>" no_faults
      "\<lambda>_ _. SpawnFailed ''no qpdf''" "\<lambda>_ s. (SpawnFailed ''no worker'', s)" "settings_of id Map.empty"]
  by simp

text \<open>
  when the probe fails, the caller sees the failure of the first attempt: the error of the first
  worker run, whatever a format-mismatch retry did, or the parse error of its output.
\<close>

theorem probe_reports_first_failure:
  assumes "fst (Probe rd os qpdf exec st path f s) = Err e"
  shows "ProbeLite rd os qpdf path f s = None \<and>
    (case RunWorker exec st ''probe'' path f '''' None None s of
       ((out, err, Some e1), s1) \<Rightarrow> e = e1
     | ((out, err, None), s1) \<Rightarrow> ParseProbeJSON (unmarshal_probe rd) out = Err e)"
proof (cases "ProbeLite rd os qpdf path f s")
  case None
  obtain b err eo s1 where first: "RunWorker exec st ''probe'' path f '''' None None s = ((b, err, eo), s1)"
    by (metis surj_pair)
  show ?thesis
  proof (cases eo)
    case None
    with assms first \<open>ProbeLite rd os qpdf path f s = None\<close> show ?thesis by (simp add: Probe_def)
  next
    case (Some e1)
    obtain b2 err2 eo2 s2 where second:
        "RunWorker exec st ''probe'' path (mismatchRetryFormat (to_lower (error_text e1)) f) '''' None None s1 = ((b2, err2, eo2), s2)"
      by (metis surj_pair)
    from assms first Some second \<open>ProbeLite rd os qpdf path f s = None\<close> show ?thesis
      by (auto simp: Probe_def Let_def split: if_splits option.splits sum.splits)
  qed
qed (use assms in \<open>simp add: Probe_def\<close>)

theorem probe_reports_first_failure_witness:
  "ProbeLite \<lparr>unzip = (\<lambda>_. None), app_props = (\<lambda>_. None), unmarshal_probe = (\<lambda>_. Err ''bad'')\<rparr> no_faults
     (\<lambda>_ _. SpawnFailed ''no qpdf'') ''/in'' FormatXLSX Map.empty = None"
proof -
  have "fst (Probe \<lparr>unzip = (\<lambda>_. None), app_props = (\<lambda>_. None), unmarshal_probe = (\<lambda>_. Err ''bad'')\<rparr> no_faults
      (\<lambda>_ _. SpawnFailed ''no qpdf'') (\<lambda>_ s. (TimedOut, s)) (settings_of id Map.empty) ''/in'' FormatXLSX Map.empty) =
      Err (OError (NewRender None (-1) ''timeout exceeded''))"
    by (simp add: Probe_def ProbeLite_def RunWorker_def runWorkerBin_def Let_def)
  from probe_reports_first_failure [OF this] show ?thesis by blast
qed

end
