(* ===== verification/Pool.thy ===== *)
theory Pool
  imports Worker
begin

text \<open>
  \<^verbatim>\<open>internal/worker/pool.go\<close>: the persistent worker pools. The first part models the operations as
  functions of what the worker process does with a command: the argument \<open>ask\<close> maps a command and
  the file system to the reply the caller ends up with. The second part models the concurrency of the
  forked leader, where commands of many callers share one pipe: a step relation over the sequence
  counter, the \<^verbatim>\<open>pending\<close> map, the one-slot response channels, the reader goroutine and the
  callers. The third part models a worker of the legacy pool, whose responses carry no sequence
  number. The lemmas show that a response reaches exactly the caller that asked for it, that the
  reader never blocks, and that no caller is forgotten when the process dies.
\<close>

section \<open>Definitions\<close>

subsection \<open>The operations\<close>

definition forkUnsafeFormats :: "FormatName \<Rightarrow> bool" where
  "forkUnsafeFormats f = (f = FormatXLSX)"

definition PoolModeAvailable :: "(string \<rightharpoonup> string) \<Rightarrow> bool" where
  "PoolModeAvailable env = (env ''OFFICE_CONVERT_POOL_MODE'' \<noteq> Some ''0'')"

definition ForkAfterLoadEnabled :: "Settings \<Rightarrow> FormatName \<Rightarrow> bool" where
  "ForkAfterLoadEnabled s format = (if forkUnsafeFormats format then False else ForkAfterLoad s)"

text \<open>The arguments a pool process is started with.\<close>

definition pool_argv :: "Settings \<Rightarrow> FormatName \<Rightarrow> string list \<Rightarrow> string list" where
  "pool_argv s format extraArgs =
     prlimitArgs s (workerBinary s format)
       ([''--mode'', ''pool'', ''--format'', format, ''--license-path'', LicensePath s] @ extraArgs)"

datatype command = Load string | Render int int string | Quit

text \<open>
  What becomes of a command: the write fails, no response comes within the timeout, the process
  closes its output, the response is not JSON, or a response object.
\<close>

datatype reply = WriteFailed string | NoReply | StdoutEOF | InvalidJSON string | Reply "string \<rightharpoonup> json"

type_synonym worker_ask = "command \<Rightarrow> fs \<Rightarrow> reply \<times> fs"

definition status_ok :: "(string \<rightharpoonup> json) \<Rightarrow> bool" where
  "status_ok r = (r ''status'' = Some (JStr ''ok''))"

text \<open>\<^verbatim>\<open>send\<close> and \<^verbatim>\<open>await\<close> of a legacy worker.\<close>

definition pooled_await :: "Chunk option \<Rightarrow> reply \<Rightarrow> (go_error, string \<rightharpoonup> json) result" where
  "pooled_await chunk r =
     (case r of
        WriteFailed e \<Rightarrow> Err (PlainError e)
      | StdoutEOF \<Rightarrow> Err (OError (NewRender chunk ExitRenderFailure ''worker stdout EOF''))
      | InvalidJSON e \<Rightarrow> Err (OError (NewRender chunk ExitRenderFailure (''invalid worker JSON: '' @ e)))
      | NoReply \<Rightarrow> Err (OError (NewRender chunk (-1) ''pool worker timeout''))
      | Reply result \<Rightarrow> Ok result)"

text \<open>
  \<^verbatim>\<open>write\<close> and \<^verbatim>\<open>awaitSeq\<close> of the forked leader. Its reader goroutine drops lines that are not JSON, so
  their caller times out, and answers every pending caller with an error object at the end of the
  stream.
\<close>

definition eof_response :: "string \<rightharpoonup> json" where
  "eof_response = [''status'' \<mapsto> JStr ''error'', ''code'' \<mapsto> JNum (of_int ExitRenderFailure), ''detail'' \<mapsto> JStr ''worker stdout EOF'']"

definition awaitSeq :: "Chunk option \<Rightarrow> reply \<Rightarrow> (go_error, string \<rightharpoonup> json) result" where
  "awaitSeq chunk r =
     (case r of
        WriteFailed e \<Rightarrow> Err (PlainError e)
      | StdoutEOF \<Rightarrow> Ok eof_response
      | InvalidJSON e \<Rightarrow> Err (OError (NewRender chunk (-1) ''fork pool timeout''))
      | NoReply \<Rightarrow> Err (OError (NewRender chunk (-1) ''fork pool timeout''))
      | Reply result \<Rightarrow> Ok result)"

text \<open>The common tail of both \<^verbatim>\<open>LoadDocument\<close> and of both \<^verbatim>\<open>RenderChunk\<close> methods.\<close>

definition load_result :: "(rat \<Rightarrow> int) \<Rightarrow> (go_error, string \<rightharpoonup> json) result \<Rightarrow> (go_error, int) result" where
  "load_result oor r =
     (case r of
        Err e \<Rightarrow> Err e
      | Ok result \<Rightarrow> if \<not> status_ok result then Err (raiseError oor result None) else Ok (toInt oor (result ''page_count'') 0))"

definition render_result ::
  "(rat \<Rightarrow> int) \<Rightarrow> Chunk \<Rightarrow> string \<Rightarrow> (go_error, string \<rightharpoonup> json) result \<Rightarrow> (go_error, string) result" where
  "render_result oor chunk outputPath r =
     (case r of
        Err e \<Rightarrow> Err e
      | Ok result \<Rightarrow> if \<not> status_ok result then Err (raiseError oor result (Some chunk)) else Ok outputPath)"

definition pooled_LoadDocument :: "(rat \<Rightarrow> int) \<Rightarrow> worker_ask \<Rightarrow> string \<Rightarrow> fs \<Rightarrow> (go_error, int) result \<times> fs" where
  "pooled_LoadDocument oor ask inputPath s =
     (let (r, s') = ask (Load inputPath) s in (load_result oor (pooled_await None r), s'))"

definition pooled_RenderChunk ::
  "(rat \<Rightarrow> int) \<Rightarrow> worker_ask \<Rightarrow> Chunk \<Rightarrow> string \<Rightarrow> fs \<Rightarrow> (go_error, string) result \<times> fs" where
  "pooled_RenderChunk oor ask chunk outputPath s =
     (let (r, s') = ask (Render (PageStart chunk) (PageEnd chunk) outputPath) s
      in (render_result oor chunk outputPath (pooled_await (Some chunk) r), s'))"

definition leader_LoadDocument :: "(rat \<Rightarrow> int) \<Rightarrow> worker_ask \<Rightarrow> string \<Rightarrow> fs \<Rightarrow> (go_error, int) result \<times> fs" where
  "leader_LoadDocument oor ask inputPath s =
     (let (r, s') = ask (Load inputPath) s in (load_result oor (awaitSeq None r), s'))"

definition leader_RenderChunk ::
  "(rat \<Rightarrow> int) \<Rightarrow> worker_ask \<Rightarrow> Chunk \<Rightarrow> string \<Rightarrow> fs \<Rightarrow> (go_error, string) result \<times> fs" where
  "leader_RenderChunk oor ask chunk outputPath s =
     (let (r, s') = ask (Render (PageStart chunk) (PageEnd chunk) outputPath) s
      in (render_result oor chunk outputPath (awaitSeq (Some chunk) r), s'))"

text \<open>
  \<^verbatim>\<open>NewWorkerPool\<close> after its goroutines: per worker, a spawn error or the result of loading. The pool
  has the loaded workers, or the first error in index order.
\<close>

record pool =
  pool_workers :: "nat list"
  pageCount :: int
  havePages :: bool

fun first_error :: "(go_error, int) result list \<Rightarrow> go_error option" where
  "first_error [] = None"
| "first_error (Err e # rs) = Some e"
| "first_error (Ok n # rs) = first_error rs"

definition NewWorkerPool :: "(go_error, int) result list \<Rightarrow> (go_error, pool) result" where
  "NewWorkerPool results =
     (case first_error results of
        Some e \<Rightarrow> Err e
      | None \<Rightarrow>
          Ok \<lparr>pool_workers = [0..<length results],
              pageCount = (case results of Ok n # rs \<Rightarrow> n | _ \<Rightarrow> 0), havePages = (results \<noteq> [])\<rparr>)"

definition NewForkedWorkerPool ::
  "(rat \<Rightarrow> int) \<Rightarrow> string option \<Rightarrow> worker_ask \<Rightarrow> string \<Rightarrow> fs \<Rightarrow> (go_error, pool) result \<times> fs" where
  "NewForkedWorkerPool oor spawnErr ask input s =
     (case spawnErr of
        Some e \<Rightarrow> (Err (PlainError e), s)
      | None \<Rightarrow>
          (case leader_LoadDocument oor ask input s of
             (Err e, s') \<Rightarrow> (Err e, s')
           | (Ok pages, s') \<Rightarrow> (Ok \<lparr>pool_workers = [0], pageCount = pages, havePages = True\<rparr>, s')))"

text \<open>\<^verbatim>\<open>RenderChunk\<close> of the two pools: check out a worker, render, and return it.\<close>

definition WorkerPool_RenderChunk ::
  "(rat \<Rightarrow> int) \<Rightarrow> worker_ask \<Rightarrow> string \<Rightarrow> Chunk \<Rightarrow> fs \<Rightarrow> (go_error, string) result \<times> fs" where
  "WorkerPool_RenderChunk oor ask scratchDir chunk s =
     pooled_RenderChunk oor ask chunk (chunk_output scratchDir chunk) s"

definition ForkedWorkerPool_RenderChunk ::
  "(rat \<Rightarrow> int) \<Rightarrow> worker_ask \<Rightarrow> string \<Rightarrow> Chunk \<Rightarrow> fs \<Rightarrow> (go_error, string) result \<times> fs" where
  "ForkedWorkerPool_RenderChunk oor ask scratchDir chunk s =
     leader_RenderChunk oor ask chunk (chunk_output scratchDir chunk) s"

definition ActualPageCount :: "pool \<Rightarrow> int option" where
  "ActualPageCount p = (if havePages p then Some (pageCount p) else None)"

subsection \<open>The forked leader\<close>

type_synonym msg = "string \<rightharpoonup> json"

text \<open>A call of \<^verbatim>\<open>RenderChunk\<close> (or of \<^verbatim>\<open>LoadDocument\<close>) at the points between its steps.\<close>

datatype call =
    Idle
  | Numbered int
  | Registered int nat
  | Awaiting int nat
  | Answered int msg
  | GaveUp int
  | Returned

datatype reader = Reading | Sending nat msg | Stopped

record leader =
  seq :: int
  pending :: "int \<rightharpoonup> nat"
  chan :: "nat \<Rightarrow> msg list"
  nextChan :: nat
  chanSeq :: "nat \<Rightarrow> int"
  rd :: reader
  calls :: "nat \<Rightarrow> call"

definition msg_seq :: "(rat \<Rightarrow> int) \<Rightarrow> msg \<Rightarrow> int" where
  "msg_seq oor d = toInt oor (d ''seq'') 0"

text \<open>The load call has number 0; every other call is still to come.\<close>

definition leader_init :: leader where
  "leader_init =
     \<lparr>seq = 0, pending = Map.empty, chan = (\<lambda>_. []), nextChan = 0, chanSeq = (\<lambda>_. 0), rd = Reading,
      calls = (\<lambda>c. if c = 0 then Numbered 0 else Idle)\<rparr>"

definition eof_msg :: "int \<Rightarrow> msg" where
  "eof_msg s = eof_response(''seq'' \<mapsto> JInt s)"

definition fail_chans :: "leader \<Rightarrow> nat \<Rightarrow> msg list" where
  "fail_chans l ch = (if ch \<in> ran (pending l) then chan l ch @ [eof_msg (chanSeq l ch)] else chan l ch)"

inductive leader_step :: "(rat \<Rightarrow> int) \<Rightarrow> leader \<Rightarrow> leader \<Rightarrow> bool" for oor :: "rat \<Rightarrow> int" where
  number: "calls l c = Idle \<Longrightarrow>
    leader_step oor l (l\<lparr>seq := seq l + 1, calls := (calls l)(c := Numbered (seq l + 1))\<rparr>)"
| register: "calls l c = Numbered s \<Longrightarrow>
    leader_step oor l (l\<lparr>pending := (pending l)(s \<mapsto> nextChan l), chan := (chan l)(nextChan l := []),
      chanSeq := (chanSeq l)(nextChan l := s), nextChan := nextChan l + 1, calls := (calls l)(c := Registered s (nextChan l))\<rparr>)"
| write_ok: "calls l c = Registered s ch \<Longrightarrow> leader_step oor l (l\<lparr>calls := (calls l)(c := Awaiting s ch)\<rparr>)"
| write_err: "calls l c = Registered s ch \<Longrightarrow> leader_step oor l (l\<lparr>calls := (calls l)(c := GaveUp s)\<rparr>)"
| read_known: "rd l = Reading \<Longrightarrow> pending l (msg_seq oor d) = Some ch \<Longrightarrow>
    leader_step oor l (l\<lparr>pending := (pending l)(msg_seq oor d := None), rd := Sending ch d\<rparr>)"
| read_unknown: "rd l = Reading \<Longrightarrow> pending l (msg_seq oor d) = None \<Longrightarrow> leader_step oor l l"
| send: "rd l = Sending ch d \<Longrightarrow> length (chan l ch) < 1 \<Longrightarrow>
    leader_step oor l (l\<lparr>chan := (chan l)(ch := chan l ch @ [d]), rd := Reading\<rparr>)"
| eof: "rd l = Reading \<Longrightarrow> \<forall>ch \<in> ran (pending l). length (chan l ch) < 1 \<Longrightarrow>
    leader_step oor l (l\<lparr>chan := fail_chans l, pending := Map.empty, rd := Stopped\<rparr>)"
| receive: "calls l c = Awaiting s ch \<Longrightarrow> chan l ch = d # ds \<Longrightarrow>
    leader_step oor l (l\<lparr>chan := (chan l)(ch := ds), calls := (calls l)(c := Answered s d)\<rparr>)"
| time_out: "calls l c = Awaiting s ch \<Longrightarrow> leader_step oor l (l\<lparr>calls := (calls l)(c := GaveUp s)\<rparr>)"
| unregister: "calls l c = Answered s d \<or> calls l c = GaveUp s \<Longrightarrow>
    leader_step oor l (l\<lparr>pending := (pending l)(s := None), calls := (calls l)(c := Returned)\<rparr>)"

inductive_cases leader_stepE: "leader_step oor l l'"

inductive leader_reach :: "(rat \<Rightarrow> int) \<Rightarrow> leader \<Rightarrow> bool" for oor :: "rat \<Rightarrow> int" where
  start: "leader_reach oor leader_init"
| step: "leader_reach oor l \<Longrightarrow> leader_step oor l l' \<Longrightarrow> leader_reach oor l'"

subsection \<open>A worker of the legacy pool\<close>

text \<open>
  The requests written and not yet handled, the response channel (which request each response answers),
  the request of the caller that has the worker checked out, whether the worker was sent a kill signal
  and whether it is gone, and the requests callers took a response for, each with the request that
  response answers.
\<close>

record legacy =
  stdin :: "nat list"
  respCh :: "nat list"
  holder :: "nat option"
  signalled :: bool
  dead :: bool
  taken :: "(nat \<times> nat) list"

definition legacy_init :: legacy where
  "legacy_init = \<lparr>stdin = [], respCh = [], holder = None, signalled = False, dead = False, taken = []\<rparr>"

inductive legacy_step :: "legacy \<Rightarrow> legacy \<Rightarrow> bool" where
  send_request: "holder w = None \<Longrightarrow> \<not> dead w \<Longrightarrow> legacy_step w (w\<lparr>holder := Some r, stdin := stdin w @ [r]\<rparr>)"
| answer: "stdin w = r # rs \<Longrightarrow> \<not> dead w \<Longrightarrow> legacy_step w (w\<lparr>stdin := rs, respCh := respCh w @ [r]\<rparr>)"
| take_response: "holder w = Some r \<Longrightarrow> respCh w = q # qs \<Longrightarrow>
    legacy_step w (w\<lparr>holder := None, respCh := qs, taken := taken w @ [(r, q)]\<rparr>)"
| await_timeout: "holder w = Some r \<Longrightarrow> legacy_step w (w\<lparr>holder := None, signalled := True\<rparr>)"
| die: "signalled w \<Longrightarrow> legacy_step w (w\<lparr>dead := True, stdin := []\<rparr>)"

inductive legacy_reach :: "legacy \<Rightarrow> bool" where
  fresh: "legacy_reach legacy_init"
| next_step: "legacy_reach w \<Longrightarrow> legacy_step w w' \<Longrightarrow> legacy_reach w'"

section \<open>The forked leader\<close>

fun call_seq :: "call \<Rightarrow> int option" where
  "call_seq Idle = None"
| "call_seq (Numbered s) = Some s"
| "call_seq (Registered s ch) = Some s"
| "call_seq (Awaiting s ch) = Some s"
| "call_seq (Answered s d) = Some s"
| "call_seq (GaveUp s) = Some s"
| "call_seq Returned = None"

fun call_chan :: "call \<Rightarrow> nat option" where
  "call_chan (Registered s ch) = Some ch"
| "call_chan (Awaiting s ch) = Some ch"
| "call_chan c = None"

definition numbers_ok :: "leader \<Rightarrow> bool" where
  "numbers_ok l =
     ((\<forall>c s. call_seq (calls l c) = Some s \<longrightarrow> s \<le> seq l) \<and>
      (\<forall>c c' s. call_seq (calls l c) = Some s \<and> call_seq (calls l c') = Some s \<longrightarrow> c = c'))"

definition pending_ok :: "leader \<Rightarrow> bool" where
  "pending_ok l =
     (\<forall>s ch. pending l s = Some ch \<longrightarrow>
        ch < nextChan l \<and> chanSeq l ch = s \<and> chan l ch = [] \<and> (\<forall>d. rd l \<noteq> Sending ch d) \<and>
        (\<exists>c. call_seq (calls l c) = Some s \<and> calls l c \<noteq> Numbered s))"

definition chans_ok :: "(rat \<Rightarrow> int) \<Rightarrow> leader \<Rightarrow> bool" where
  "chans_ok oor l =
     ((\<forall>ch. length (chan l ch) \<le> 1 \<and> (\<forall>d \<in> set (chan l ch). msg_seq oor d = chanSeq l ch) \<and>
         (nextChan l \<le> ch \<longrightarrow> chan l ch = [])) \<and>
      (\<forall>ch d. rd l = Sending ch d \<longrightarrow> ch < nextChan l \<and> chan l ch = [] \<and> msg_seq oor d = chanSeq l ch))"

definition calls_ok :: "(rat \<Rightarrow> int) \<Rightarrow> leader \<Rightarrow> bool" where
  "calls_ok oor l =
     ((\<forall>c s ch. calls l c = Registered s ch \<or> calls l c = Awaiting s ch \<longrightarrow>
         ch < nextChan l \<and> chanSeq l ch = s \<and> (pending l s = Some ch \<or> chan l ch \<noteq> [] \<or> (\<exists>d. rd l = Sending ch d))) \<and>
      (\<forall>c s d. calls l c = Answered s d \<longrightarrow> msg_seq oor d = s))"

definition leader_inv :: "(rat \<Rightarrow> int) \<Rightarrow> leader \<Rightarrow> bool" where
  "leader_inv oor l = (numbers_ok l \<and> pending_ok l \<and> chans_ok oor l \<and> calls_ok oor l)"

lemmas leader_inv_defs = leader_inv_def numbers_ok_def pending_ok_def chans_ok_def calls_ok_def

lemma msg_seq_eof [simp]: "msg_seq oor (eof_msg s) = s"
  by (simp add: msg_seq_def eof_msg_def)

text \<open>How a step changes the numbers of the calls: not at all, one new number, or one number less.\<close>

lemma seqs_step:
  assumes "leader_step oor l l'"
  shows "(\<forall>x. call_seq (calls l' x) = call_seq (calls l x)) \<and> seq l' = seq l \<or>
    (\<exists>c. (\<forall>x. call_seq (calls l' x) = (if x = c then Some (seq l + 1) else call_seq (calls l x))) \<and> seq l' = seq l + 1) \<or>
    (\<exists>c. (\<forall>x. call_seq (calls l' x) = (if x = c then None else call_seq (calls l x))) \<and> seq l' = seq l)"
  using assms by cases auto

lemma numbers_step: "leader_inv oor l \<Longrightarrow> leader_step oor l l' \<Longrightarrow> numbers_ok l'"
proof -
  assume inv: "leader_inv oor l" and step: "leader_step oor l l'"
  have le: "s \<le> seq l" if "call_seq (calls l c) = Some s" for c s
    using inv that by (auto simp: leader_inv_def numbers_ok_def)
  have inj: "c = c'" if "call_seq (calls l c) = Some s" "call_seq (calls l c') = Some s" for c c' s
    using inv that by (auto simp: leader_inv_def numbers_ok_def)
  have above: "call_seq (calls l c) \<noteq> Some (seq l + 1)" for c using le [of c "seq l + 1"] by auto
  have "s \<le> seq l'" if "call_seq (calls l' c) = Some s" for c s
    using seqs_step [OF step] le [of c s] that by (elim disjE exE conjE) (auto split: if_splits dest: spec [of _ c])
  moreover have "c = c'" if "call_seq (calls l' c) = Some s" "call_seq (calls l' c') = Some s" for c c' s
    using seqs_step [OF step]
  proof (elim disjE exE conjE)
    fix d assume *: "\<forall>x. call_seq (calls l' x) = (if x = d then Some (seq l + 1) else call_seq (calls l x))"
    show ?thesis using *[rule_format, of c] *[rule_format, of c'] inj [of c s c'] above that by (auto split: if_splits)
  next
    fix d assume *: "\<forall>x. call_seq (calls l' x) = (if x = d then None else call_seq (calls l x))"
    show ?thesis using *[rule_format, of c] *[rule_format, of c'] inj [of c s c'] that by (auto split: if_splits)
  qed (use inj [of c s c'] that in auto)
  ultimately show ?thesis by (auto simp: numbers_ok_def)
qed

lemma same_call:
  "leader_inv oor l \<Longrightarrow> call_seq (calls l c) = Some s \<Longrightarrow> call_seq (calls l c') = Some s \<Longrightarrow> c = c'"
  by (auto simp: leader_inv_def numbers_ok_def)

lemma not_pending_numbered: "leader_inv oor l \<Longrightarrow> calls l c = Numbered s \<Longrightarrow> pending l s = None"
proof (rule ccontr)
  assume inv: "leader_inv oor l" and c: "calls l c = Numbered s" and "pending l s \<noteq> None"
  then obtain c' where "call_seq (calls l c') = Some s" "calls l c' \<noteq> Numbered s"
    by (fastforce simp: leader_inv_def pending_ok_def)
  moreover from this(1) have "c' = c" using same_call [OF inv, of c' s c] c by simp
  ultimately show False using c by simp
qed

lemma holder_step:
  assumes "leader_step oor l l'" "call_seq (calls l c) = Some s" "calls l c \<noteq> Numbered s" "pending l' s \<noteq> None"
  shows "call_seq (calls l' c) = Some s \<and> calls l' c \<noteq> Numbered s"
  using assms by cases auto

lemma pending_change:
  assumes "leader_step oor l l'" "pending l' s = Some ch" "pending l s \<noteq> Some ch"
  shows "\<exists>c. calls l' c = Registered s ch \<and> ch = nextChan l \<and> nextChan l' = nextChan l + 1 \<and> chanSeq l' ch = s \<and>
    chan l' ch = [] \<and> rd l' = rd l"
  using assms(1)
proof cases
  case (register c s')
  with assms(2,3) have "s' = s" "ch = nextChan l" by (auto split: if_splits)
  with register show ?thesis by (intro exI [of _ c]) simp
qed (use assms(2,3) in \<open>simp_all split: if_splits\<close>)

lemma pending_step:
  assumes inv: "leader_inv oor l" and step: "leader_step oor l l'"
  shows "pending_ok l'"
  unfolding pending_ok_def
proof (intro allI impI)
  fix s ch assume p': "pending l' s = Some ch"
  have old: "ch < nextChan l \<and> chanSeq l ch = s \<and> chan l ch = [] \<and> (\<forall>d. rd l \<noteq> Sending ch d) \<and>
      (\<exists>c. call_seq (calls l c) = Some s \<and> calls l c \<noteq> Numbered s)" if "pending l s = Some ch"
    using inv that by (auto simp: leader_inv_def pending_ok_def)
  have kept: "\<exists>c. call_seq (calls l' c) = Some s \<and> calls l' c \<noteq> Numbered s" if "pending l s = Some ch"
    using old [OF that] holder_step [OF step] p' by blast
  have inj: "s' = s" if "pending l s' = Some ch" "pending l s = Some ch" for s'
    using inv that unfolding leader_inv_def pending_ok_def by metis
  have fresh: "rd l \<noteq> Sending (nextChan l) d" for d
    using inv by (auto simp: leader_inv_def chans_ok_def)
  show "ch < nextChan l' \<and> chanSeq l' ch = s \<and> chan l' ch = [] \<and> (\<forall>d. rd l' \<noteq> Sending ch d) \<and>
      (\<exists>c. call_seq (calls l' c) = Some s \<and> calls l' c \<noteq> Numbered s)"
  proof (cases "pending l s = Some ch")
    case True
    have "ch < nextChan l' \<and> chanSeq l' ch = s \<and> chan l' ch = [] \<and> (\<forall>d. rd l' \<noteq> Sending ch d)"
      using step
    proof cases
      case (read_known d ch')
      then have "s \<noteq> msg_seq oor d" using p' by auto
      then have "ch \<noteq> ch'" using read_known inj [OF _ True, of "msg_seq oor d"] by auto
      with read_known old [OF True] show ?thesis by simp
    next
      case eof
      with p' show ?thesis by simp
    qed (use old [OF True] p' in auto)
    with kept [OF True] show ?thesis by blast
  next
    case False
    from pending_change [OF step p' this] obtain c where reg: "calls l' c = Registered s ch" "ch = nextChan l"
        "nextChan l' = nextChan l + 1" "chanSeq l' ch = s" "chan l' ch = []" "rd l' = rd l" by blast
    have "call_seq (calls l' c) = Some s \<and> calls l' c \<noteq> Numbered s" using reg(1) by simp
    then have "\<exists>c. call_seq (calls l' c) = Some s \<and> calls l' c \<noteq> Numbered s" by blast
    with reg(2-) fresh show ?thesis by simp
  qed
qed

lemma chans_step:
  assumes inv: "leader_inv oor l" and step: "leader_step oor l l'"
  shows "chans_ok oor l'"
proof -
  have chans: "length (chan l ch) \<le> 1" "d \<in> set (chan l ch) \<Longrightarrow> msg_seq oor d = chanSeq l ch"
      "nextChan l \<le> ch \<Longrightarrow> chan l ch = []" for ch d
    using inv by (auto simp: leader_inv_def chans_ok_def)
  have sending: "rd l = Sending ch d \<Longrightarrow> ch < nextChan l \<and> chan l ch = [] \<and> msg_seq oor d = chanSeq l ch" for ch d
    using inv by (auto simp: leader_inv_def chans_ok_def)
  have pend: "pending l s = Some ch \<Longrightarrow> ch < nextChan l \<and> chanSeq l ch = s \<and> chan l ch = []" for s ch
    using inv by (auto simp: leader_inv_def pending_ok_def)
  from step show ?thesis
  proof cases
    case (register c s)
    with chans sending show ?thesis by (auto simp: chans_ok_def)
  next
    case (read_known d ch)
    with chans pend show ?thesis by (auto simp: chans_ok_def)
  next
    case send
    with chans sending show ?thesis by (auto simp: chans_ok_def)
  next
    case eof
    have "chan l ch = [] \<and> ch < nextChan l" if "ch \<in> ran (pending l)" for ch using that pend by (auto simp: ran_def)
    then have "ch \<in> ran (pending l) \<Longrightarrow> chan l ch = []" "\<not> (ch \<in> ran (pending l) \<and> nextChan l \<le> ch)" for ch
      by (auto simp: not_le)
    with eof chans show ?thesis by (auto simp: chans_ok_def fail_chans_def)
  next
    case (receive c s ch d ds)
    with chans(1) [of ch] have "ds = []" by simp
    with receive chans sending show ?thesis by (auto simp: chans_ok_def)
  qed (use chans sending in \<open>auto simp: chans_ok_def\<close>)
qed

text \<open>A caller's channel: what happens to it in a step that leaves the caller waiting.\<close>

lemma wait_step:
  assumes inv: "leader_inv oor l" and step: "leader_step oor l l'"
    and new: "calls l' c = Registered s ch \<or> calls l' c = Awaiting s ch"
  shows "(calls l c = Registered s ch \<or> calls l c = Awaiting s ch) \<or>
    (calls l c = Numbered s \<and> ch = nextChan l \<and> nextChan l' = nextChan l + 1 \<and> chanSeq l' ch = s \<and> pending l' s = Some ch)"
  using step by cases (use new in \<open>auto split: if_splits\<close>)

lemma calls_step:
  assumes inv: "leader_inv oor l" and step: "leader_step oor l l'"
  shows "calls_ok oor l'"
proof -
  have waiting: "ch < nextChan l' \<and> chanSeq l' ch = s \<and> (pending l' s = Some ch \<or> chan l' ch \<noteq> [] \<or> (\<exists>d. rd l' = Sending ch d))"
    if new: "calls l' c = Registered s ch \<or> calls l' c = Awaiting s ch" for c s ch
    using wait_step [OF inv step new]
  proof
    assume old: "calls l c = Registered s ch \<or> calls l c = Awaiting s ch"
    then have ch: "ch < nextChan l" "chanSeq l ch = s" "pending l s = Some ch \<or> chan l ch \<noteq> [] \<or> (\<exists>d. rd l = Sending ch d)"
      using inv by (auto simp: leader_inv_def calls_ok_def)
    have c_seq: "call_seq (calls l c) = Some s" using old by auto
    from step show ?thesis
    proof cases
      case (register c' s')
      then have "s' \<noteq> s" using same_call [OF inv c_seq, of c'] old by auto
      with register ch show ?thesis by auto
    next
      case (read_known d ch')
      have "s = msg_seq oor d \<Longrightarrow> ch' = ch"
        if "pending l s = Some ch" using that read_known by auto
      moreover have "pending l s = Some ch' \<Longrightarrow> chanSeq l ch' = s" using inv by (auto simp: leader_inv_def pending_ok_def)
      ultimately show ?thesis using read_known ch by auto
    next
      case (send ch' d)
      with ch show ?thesis by auto
    next
      case eof
      then show ?thesis using ch by (auto simp: fail_chans_def ran_def)
    next
      case (receive c' s' ch' d ds)
      have "c' \<noteq> c" using receive new by auto
      then have "s' \<noteq> s" using same_call [OF inv c_seq, of c'] receive by auto
      moreover have "chanSeq l ch' = s'" using inv receive by (auto simp: leader_inv_def calls_ok_def)
      ultimately have "ch' \<noteq> ch" using ch(2) by auto
      with receive ch show ?thesis by auto
    next
      case (unregister c' s' d)
      have "c' \<noteq> c" using unregister new by auto
      then have "s' \<noteq> s" using same_call [OF inv c_seq, of c'] unregister by auto
      with unregister ch show ?thesis by auto
    qed (use ch in auto)
  qed auto
  have "msg_seq oor d = s" if new: "calls l' c = Answered s d" for c s d
  proof (cases "calls l c = Answered s d")
    case True
    then show ?thesis using inv by (auto simp: leader_inv_def calls_ok_def)
  next
    case False
    with step new obtain ch ds where "calls l c = Awaiting s ch" "chan l ch = d # ds" by cases (auto split: if_splits)
    then have "chanSeq l ch = s" "d \<in> set (chan l ch)" using inv by (auto simp: leader_inv_def calls_ok_def)
    then show ?thesis using inv unfolding leader_inv_def chans_ok_def by metis
  qed
  with waiting show ?thesis unfolding calls_ok_def by blast
qed

lemma leader_inv_step [inv_intros]: "leader_inv oor l \<Longrightarrow> leader_step oor l l' \<Longrightarrow> leader_inv oor l'"
proof -
  assume inv: "leader_inv oor l" and step: "leader_step oor l l'"
  show ?thesis
    using numbers_step [OF inv step] pending_step [OF inv step] chans_step [OF inv step] calls_step [OF inv step]
    by (simp add: leader_inv_def)
qed

lemma leader_inv_init: "leader_inv oor leader_init"
  by (auto simp: leader_inv_defs leader_init_def split: if_splits)

lemma leader_reach_inv: "leader_reach oor l \<Longrightarrow> leader_inv oor l"
  by (induction rule: leader_reach.induct) (auto intro: leader_inv_init leader_inv_step)

section \<open>The legacy worker\<close>

text \<open>Until a timeout, the requests on their way are exactly the one of the caller that holds the worker.\<close>

definition legacy_inv :: "legacy \<Rightarrow> bool" where
  "legacy_inv w =
     (\<not> signalled w \<longrightarrow>
        \<not> dead w \<and> respCh w @ stdin w = (case holder w of None \<Rightarrow> [] | Some r \<Rightarrow> [r]) \<and> (\<forall>(r, q) \<in> set (taken w). q = r))"

lemma legacy_inv_step [inv_intros]: "legacy_inv w \<Longrightarrow> legacy_step w w' \<Longrightarrow> legacy_inv w'"
  by (erule legacy_step.cases) (auto simp: legacy_inv_def split: option.splits)

lemma legacy_reach_inv: "legacy_reach w \<Longrightarrow> legacy_inv w"
proof (induction rule: legacy_reach.induct)
  case fresh
  show ?case by (simp add: legacy_inv_def legacy_init_def)
qed (rule legacy_inv_step)

section \<open>Renderers\<close>

text \<open>
  The interface the orchestrator renders chunks through, one-shot or pool: a successful render names
  the output file of the chunk.
\<close>

locale chunk_renderer =
  fixes render :: "Chunk \<Rightarrow> fs \<Rightarrow> (go_error, string) result \<times> fs"
    and dir :: string
  assumes render_path: "render c s = (Ok p, s') \<Longrightarrow> p = chunk_output dir c"
begin

lemma render_paths_distinct:
  assumes "render c s = (Ok p, s1)" "render d t = (Ok q, t1)"
    and "half_index (Index c)" "half_index (Index d)" "Index c \<noteq> Index d"
  shows "p \<noteq> q"
proof
  assume "p = q"
  then have "formatIndex (Index c) = formatIndex (Index d)"
    using render_path [OF assms(1)] render_path [OF assms(2)] by (simp add: chunk_output_def)
  with assms(3-5) show False by (blast dest: formatIndex_inj)
qed

end

interpretation one_shot: chunk_renderer "\<lambda>c. RenderChunkOneShot exec s c inputPath format dir" dir
  for exec s inputPath format dir
  by unfold_locales (auto simp: RenderChunkOneShot_def Let_def split: prod.splits option.splits)

interpretation legacy_pool: chunk_renderer "WorkerPool_RenderChunk oor ask dir" dir for oor ask dir
  by unfold_locales
    (auto simp: WorkerPool_RenderChunk_def pooled_RenderChunk_def render_result_def split: prod.splits sum.splits if_splits)

interpretation forked_pool: chunk_renderer "ForkedWorkerPool_RenderChunk oor ask dir" dir for oor ask dir
  by unfold_locales
    (auto simp: ForkedWorkerPool_RenderChunk_def leader_RenderChunk_def render_result_def split: prod.splits sum.splits if_splits)

text \<open>A state in which the load call waits.\<close>

definition load_waiting :: leader where
  "load_waiting = leader_init\<lparr>pending := [0 \<mapsto> 0], chan := (\<lambda>_. [])(0 := []), chanSeq := (\<lambda>_. 0)(0 := 0), nextChan := 1,
     calls := (calls leader_init)(0 := Awaiting 0 0)\<rparr>"

lemma load_waiting_reach:
  "leader_reach oor load_waiting"
proof -
  let ?l1 = "leader_init\<lparr>pending := [0 \<mapsto> 0], chan := (\<lambda>_. [])(0 := []), chanSeq := (\<lambda>_. 0)(0 := 0), nextChan := 1,
      calls := (calls leader_init)(0 := Registered 0 0)\<rparr>"
  have "calls leader_init 0 = Numbered 0" by (simp add: leader_init_def)
  from leader_step.register [where oor = oor, OF this] have "leader_step oor leader_init ?l1" by (simp add: leader_init_def)
  then have "leader_reach oor ?l1" by (rule leader_reach.step [OF leader_reach.start])
  moreover have "leader_step oor ?l1 (?l1\<lparr>calls := (calls ?l1)(0 := Awaiting 0 0)\<rparr>)"
    by (rule leader_step.write_ok [where c = 0 and s = 0 and ch = 0]) simp
  ultimately have "leader_reach oor (?l1\<lparr>calls := (calls ?l1)(0 := Awaiting 0 0)\<rparr>)" by (rule leader_reach.step)
  then show ?thesis by (simp add: load_waiting_def)
qed

section \<open>Properties\<close>

text \<open>
  C15: in every interleaving of the callers, the reader and the process, a caller of the forked leader
  only ever receives a response that carries its own sequence number, and no two calls in progress
  share a number.
\<close>

theorem forked_response_routing:
  assumes "leader_reach oor l"
  shows "(calls l c = Answered s d \<longrightarrow> msg_seq oor d = s) \<and>
    (call_seq (calls l c) = Some s \<and> call_seq (calls l c') = Some s \<longrightarrow> c = c')"
  using leader_reach_inv [OF assms] by (auto simp: leader_inv_def calls_ok_def numbers_ok_def)

theorem forked_response_routing_witness:
  "calls load_waiting 0 = Awaiting 0 0 \<and> \<not> (\<exists>c. c \<noteq> 0 \<and> call_seq (calls load_waiting c) = Some 0)"
proof -
  have "calls load_waiting 0 = Awaiting 0 0" by (simp add: load_waiting_def)
  with forked_response_routing [OF load_waiting_reach, where s = 0 and c = 0] show ?thesis by fastforce
qed

text \<open>
  the reader goroutine of the forked leader never blocks on a caller: whenever it is about to hand
  over a response, the channel has room, also when it fails all pending callers under the lock at the
  end of the stream; and the map of pending calls holds no entry of a call that has returned.
\<close>

theorem forked_reader_never_blocks:
  assumes "leader_reach oor l"
  shows "(rd l = Sending ch d \<longrightarrow> chan l ch = []) \<and>
    (ch \<in> ran (pending l) \<longrightarrow> chan l ch = []) \<and>
    (pending l s \<noteq> None \<longrightarrow> (\<exists>c. call_seq (calls l c) = Some s))"
proof -
  have pend: "pending_ok l" and chans: "chans_ok oor l" using leader_reach_inv [OF assms] by (simp_all add: leader_inv_def)
  have "\<exists>c. call_seq (calls l c) = Some s" if "pending l s \<noteq> None" using pend that unfolding pending_ok_def by blast
  moreover have "chan l ch = []" if "ch \<in> ran (pending l)" using pend that by (auto simp: pending_ok_def ran_def)
  moreover have "chan l ch = []" if "rd l = Sending ch d" using chans that by (auto simp: chans_ok_def)
  ultimately show ?thesis by blast
qed

theorem forked_reader_never_blocks_witness:
  "0 \<in> ran (pending load_waiting) \<and> chan load_waiting 0 = []"
proof -
  have "0 \<in> ran (pending load_waiting)" by (simp add: load_waiting_def)
  with forked_reader_never_blocks [OF load_waiting_reach, of 0 Map.empty 0] show ?thesis by blast
qed

text \<open>
  C16: no caller of the forked leader is lost: a caller that waits is still registered, or its response
  is in its channel or in the reader's hands; so when the process ends and the reader fails the
  pending calls, every waiting caller has a response.
\<close>

theorem forked_no_lost_caller:
  assumes "leader_reach oor l" "calls l c = Awaiting s ch"
  shows "(pending l s = Some ch \<or> chan l ch \<noteq> [] \<or> (\<exists>d. rd l = Sending ch d)) \<and>
    (rd l = Reading \<longrightarrow> (\<exists>l'. leader_step oor l l' \<and> rd l' = Stopped \<and> calls l' c = Awaiting s ch \<and> chan l' ch \<noteq> []))"
proof -
  have inv: "leader_inv oor l" using assms(1) by (rule leader_reach_inv)
  then have wait: "pending l s = Some ch \<or> chan l ch \<noteq> [] \<or> (\<exists>d. rd l = Sending ch d)"
    using assms(2) by (auto simp: leader_inv_def calls_ok_def)
  moreover have "\<exists>l'. leader_step oor l l' \<and> rd l' = Stopped \<and> calls l' c = Awaiting s ch \<and> chan l' ch \<noteq> []" if "rd l = Reading"
  proof -
    have "\<forall>ch \<in> ran (pending l). length (chan l ch) < 1"
      using inv by (auto simp: leader_inv_def pending_ok_def ran_def)
    from leader_step.eof [where oor = oor, OF that this] show ?thesis
      using assms(2) wait that
      by (intro exI [of _ "l\<lparr>chan := fail_chans l, pending := Map.empty, rd := Stopped\<rparr>"]) (auto simp: fail_chans_def ran_def)
  qed
  ultimately show ?thesis by blast
qed

theorem forked_no_lost_caller_witness:
  "\<exists>l'. leader_step (\<lambda>_. 0) load_waiting l' \<and> rd l' = Stopped \<and> calls l' 0 = Awaiting 0 0 \<and> chan l' 0 \<noteq> []"
proof -
  have "calls load_waiting 0 = Awaiting 0 0" "rd load_waiting = Reading" by (simp_all add: load_waiting_def leader_init_def)
  with forked_no_lost_caller [OF load_waiting_reach this(1), of "\<lambda>_. 0"] show ?thesis by blast
qed

text \<open>
  until a timeout, a caller of a legacy worker receives the response to its own request, although
  responses carry no identification.
\<close>

theorem legacy_lockstep:
  assumes "legacy_reach w" "\<not> signalled w" "(r, q) \<in> set (taken w)"
  shows "q = r"
  using legacy_reach_inv [OF assms(1)] assms(2,3) by (auto simp: legacy_inv_def)

text \<open>One request, answered and taken.\<close>

lemma legacy_one: "legacy_reach \<lparr>stdin = [], respCh = [], holder = None, signalled = False, dead = False, taken = [(1, 1)]\<rparr>"
proof -
  let ?w = "\<lambda>i h r t. \<lparr>stdin = i, respCh = r, holder = h, signalled = False, dead = False, taken = t\<rparr>"
  have "legacy_reach (?w [] None [] [])" using legacy_reach.fresh by (simp add: legacy_init_def)
  moreover have "legacy_step (?w [] None [] []) (?w [1] (Some 1) [] [])"
    using legacy_step.send_request [of "?w [] None [] []" 1] by simp
  moreover have "legacy_step (?w [1] (Some 1) [] []) (?w [] (Some 1) [1] [])"
    using legacy_step.answer [of "?w [1] (Some 1) [] []" 1 "[]"] by simp
  moreover have "legacy_step (?w [] (Some 1) [1] []) (?w [] None [] [(1, 1)])"
    using legacy_step.take_response [of "?w [] (Some 1) [1] []" 1 1 "[]"] by simp
  ultimately show ?thesis by (meson legacy_reach.next_step)
qed

theorem legacy_lockstep_witness: "\<exists>w. legacy_reach w \<and> taken w = [(1, 1)] \<and> (1 :: nat) = 1"
  using legacy_lockstep [OF legacy_one, of 1 1] legacy_one by force

text \<open>
  C38: after a timeout the lockstep is lost: the worker is killed but goes back into the pool with a
  response that arrived late still in its channel, and the next caller takes that response for its
  own although its request was never rendered.
\<close>

theorem legacy_stale_response:
  "\<exists>w. legacy_reach w \<and> (2, 1) \<in> set (taken w)"
proof -
  let ?w = "\<lambda>i h r k t. \<lparr>stdin = i, respCh = r, holder = h, signalled = k, dead = False, taken = t\<rparr>"
  have "legacy_reach (?w [] None [] False [])" using legacy_reach.fresh by (simp add: legacy_init_def)
  moreover have "legacy_step (?w [] None [] False []) (?w [1] (Some 1) [] False [])"
    using legacy_step.send_request [of "?w [] None [] False []" 1] by simp
  moreover have "legacy_step (?w [1] (Some 1) [] False []) (?w [1] None [] True [])"
    using legacy_step.await_timeout [of "?w [1] (Some 1) [] False []" 1] by simp
  moreover have "legacy_step (?w [1] None [] True []) (?w [] None [1] True [])"
    using legacy_step.answer [of "?w [1] None [] True []" 1 "[]"] by simp
  moreover have "legacy_step (?w [] None [1] True []) (?w [2] (Some 2) [1] True [])"
    using legacy_step.send_request [of "?w [] None [1] True []" 2] by simp
  moreover have "legacy_step (?w [2] (Some 2) [1] True []) (?w [2] None [] True [(2, 1)])"
    using legacy_step.take_response [of "?w [2] (Some 2) [1] True []" 2 1 "[]"] by simp
  ultimately have "legacy_reach (?w [2] None [] True [(2, 1)])" by (meson legacy_reach.next_step)
  then show ?thesis by (intro exI conjI) auto
qed

end
