(* ===== verification/Orchestrator.thy ===== *)
theory Orchestrator
  imports Planner Cache Qpdf Probe Pool RenderAll
begin

text \<open>
  \<^verbatim>\<open>internal/orchestrator/orchestrator.go\<close>: the pipeline of one conversion, probe, plan, dispatch,
  merge and stream. What a job changes is the record \<open>World\<close>: the file system, the per-job counters,
  the observability stores and the number of clock readings made so far. What it depends on is the
  record \<open>Env\<close>: the operating system's faults, the worker and \<^verbatim>\<open>qpdf\<close> programs, the order in which the
  renders of a \<^verbatim>\<open>renderAll\<close> complete, the clock, the hash function, the readers and the environment.
  The arguments that every call of a job passes on unchanged are the record \<open>Job\<close>. Log events are not
  modelled; the flush callback and the byte count of \<^verbatim>\<open>countingWriter\<close> serve only the log and the
  transport, so the destination is the plain writer. A request context that is cancelled from outside
  is a matter of the theory \<open>RenderAll\<close>; here only the cancellation by a first error occurs. The worker and
  \<^verbatim>\<open>qpdf\<close> calls take a context and do not use it, so a running process is not stopped by it.

  A call that never returns sets the flag \<open>hung\<close>; \<open>ConvertJob\<close> is then \<open>None\<close>.
\<close>

section \<open>Definitions\<close>

subsection \<open>State and environment\<close>

record counters =
  rendered :: int
  subs :: int
  cacheHit :: int

definition zero_counters :: counters where
  "zero_counters = \<lparr>rendered = 0, subs = 0, cacheHit = 0\<rparr>"

definition addRendered :: "counters \<Rightarrow> counters" where "addRendered c = c\<lparr>rendered := rendered c + 1\<rparr>"
definition addSubdivision :: "counters \<Rightarrow> counters" where "addSubdivision c = c\<lparr>subs := subs c + 1\<rparr>"
definition addCacheHit :: "counters \<Rightarrow> counters" where "addCacheHit c = c\<lparr>cacheHit := cacheHit c + 1\<rparr>"

definition snapshot :: "counters \<Rightarrow> int \<times> int \<times> int" where
  "snapshot c = (rendered c, subs c, cacheHit c)"

record World =
  fsys :: fs
  ctr :: counters
  stores :: Stores
  ticks :: nat
  hung :: bool

record Env =
  env_os :: os_faults
  env_exec :: worker_exec
  env_qpdf :: "string list \<Rightarrow> fs \<Rightarrow> proc"
  env_sched :: "Chunk list \<Rightarrow> nat list"
  env_clock :: "nat \<Rightarrow> int"
  env_sha :: "string \<Rightarrow> string"
  env_pid :: int
  env_rnd :: "nat \<Rightarrow> string"
  env_readers :: readers
  env_oor :: "rat \<Rightarrow> int"
  env_vars :: "string \<rightharpoonup> string"
  env_spawn :: "nat \<Rightarrow> string option"
  env_ask :: "nat \<Rightarrow> worker_ask"
  env_checkout :: "Chunk \<Rightarrow> nat"
  env_write_error :: string

record Job =
  j_settings :: Settings
  j_manager :: Manager
  j_requestID :: string
  j_inputPath :: string
  j_format :: FormatName
  j_scratchDir :: string
  j_sourceSHA :: string
  j_cacheActive :: bool

definition update_progress :: "Env \<Rightarrow> string \<Rightarrow> ProgressUpdate \<Rightarrow> World \<Rightarrow> World" where
  "update_progress E rid u w =
     w\<lparr>stores := (stores w)\<lparr>Progress := Update (env_clock E (ticks w)) rid u (Progress (stores w))\<rparr>, ticks := ticks w + 1\<rparr>"

definition count :: "(counters \<Rightarrow> counters) \<Rightarrow> World \<Rightarrow> World" where
  "count f w = w\<lparr>ctr := f (ctr w)\<rparr>"

text \<open>The effect of a file operation whose error is dropped.\<close>

definition fs_effect :: "'a io \<Rightarrow> World \<Rightarrow> World" where
  "fs_effect m w = w\<lparr>fsys := snd (run_io m (fsys w))\<rparr>"

definition put_chunk :: "Env \<Rightarrow> Job \<Rightarrow> string \<Rightarrow> string \<Rightarrow> World \<Rightarrow> World" where
  "put_chunk E J key path w =
     (fs_effect (PutChunk (env_os E) (env_pid E) (env_rnd E (ticks w)) (j_manager J) key path) w)\<lparr>ticks := ticks w + 1\<rparr>"

definition chunk_key :: "Env \<Rightarrow> Job \<Rightarrow> Chunk \<Rightarrow> string" where
  "chunk_key E J chunk = ChunkSHA256 (env_sha E) chunk (j_sourceSHA J) (j_format J)"

subsection \<open>One-shot rendering with retry\<close>

definition merged_path :: "string \<Rightarrow> Chunk \<Rightarrow> string" where
  "merged_path scratchDir chunk = scratchDir @ ''/chunk-'' @ formatIndex (Index chunk) @ ''-merged.pdf''"

definition render_one_shot :: "Env \<Rightarrow> Job \<Rightarrow> Chunk \<Rightarrow> World \<Rightarrow> (go_error, string) result \<times> World" where
  "render_one_shot E J chunk w =
     (let (r, s) = RenderChunkOneShot (env_exec E) (j_settings J) chunk (j_inputPath J) (j_format J) (j_scratchDir J) (fsys w)
      in (r, w\<lparr>fsys := s\<rparr>))"

definition merge_subs :: "Env \<Rightarrow> string list \<Rightarrow> string \<Rightarrow> World \<Rightarrow> (go_error, string) result \<times> World" where
  "merge_subs E paths merged w =
     (case ConcatToFile (env_os E) (env_qpdf E) paths merged (fsys w) of
        None \<Rightarrow> (Err (Panic ''no return''), w\<lparr>hung := True\<rparr>)
      | Some (Some e, s) \<Rightarrow> (Err e, w\<lparr>fsys := s\<rparr>)
      | Some (None, s) \<Rightarrow> (Ok merged, w\<lparr>fsys := s\<rparr>))"

function renderWithRetry ::
  "Env \<Rightarrow> Job \<Rightarrow> int \<Rightarrow> bool \<Rightarrow> Chunk \<Rightarrow> World \<Rightarrow> (go_error, string) result \<times> World" where
  "renderWithRetry E J depth ctxDone chunk w =
     (let cached = (if j_cacheActive J then GetChunk (j_manager J) (chunk_key E J chunk) (fsys w) else '''')
      in if cached \<noteq> '''' then (Ok cached, count addCacheHit w)
         else
           (case render_one_shot E J chunk w of
              (Err e, w1) \<Rightarrow>
                if is_OOM e
                then (let w2 = count addSubdivision w1; sub = Subdivide chunk
                      in if sub = [] then (Err (OError (NewSubdivisionFloor chunk (depth + 1))), w2)
                         else
                           (case renderAll (env_sched E) ctxDone sub (\<lambda>b sc v. renderWithRetry E J (depth + 1) b sc v) w2 of
                              (Err e, w3) \<Rightarrow> (Err e, w3)
                            | (Ok subPaths, w3) \<Rightarrow> merge_subs E (map snd subPaths) (merged_path (j_scratchDir J) chunk) w3))
                else (Err e, w1)
            | (Ok path, w1) \<Rightarrow>
                (let w2 = update_progress E (j_requestID J) (no_update\<lparr>uIncrementChunks := 1\<rparr>) (count addRendered w1)
                 in (Ok path, if j_cacheActive J then put_chunk E J (chunk_key E J chunk) path w2 else w2))))"
  by pat_completeness auto
termination
proof (relation "measure (\<lambda>(E, J, depth, b, chunk, w). nat (Pages chunk))", goal_cases)
  case (2 E J depth ctxDone chunk w)
  then show ?case using Subdivide_smaller by fastforce
qed simp

declare renderWithRetry.simps [simp del]

subsection \<open>Dispatch\<close>

definition dispatchOneShot :: "Env \<Rightarrow> Job \<Rightarrow> ChunkPlan \<Rightarrow> World \<Rightarrow> (go_error, (Chunk \<times> string) list) result \<times> World" where
  "dispatchOneShot E J plan w =
     (let w1 = update_progress E (j_requestID J) (no_update\<lparr>uLoadProgress := Some 1, uPhase := Some ''rendering''\<rparr>) w
      in renderAll (env_sched E) False (Chunks plan) (renderWithRetry E J 0) w1)"

text \<open>\<^verbatim>\<open>NewWorkerPool\<close> starts its workers and loads the document in each.\<close>

fun load_workers :: "Env \<Rightarrow> string \<Rightarrow> nat list \<Rightarrow> fs \<Rightarrow> (go_error, int) result list \<times> fs" where
  "load_workers E input [] s = ([], s)"
| "load_workers E input (i # is) s =
     (let (r, s1) = (case env_spawn E i of
            Some e \<Rightarrow> (Err (PlainError e), s)
          | None \<Rightarrow> pooled_LoadDocument (env_oor E) (env_ask E i) input s);
          (rs, s2) = load_workers E input is s1
      in (r # rs, s2))"

definition pool_size :: "Settings \<Rightarrow> FormatName \<Rightarrow> ChunkPlan \<Rightarrow> int" where
  "pool_size s fmt plan =
     (let n = min (Parallel s) (int (length (Chunks plan)))
      in if fmt = FormatXLSX \<and> \<not> ForkAfterLoadEnabled s fmt then min n (XLSXMaxPoolSize s) else n)"

definition start_pool :: "Env \<Rightarrow> Job \<Rightarrow> ChunkPlan \<Rightarrow> fs \<Rightarrow> (go_error, pool) result \<times> fs" where
  "start_pool E J plan s =
     (if ForkAfterLoadEnabled (j_settings J) (j_format J)
      then NewForkedWorkerPool (env_oor E) (env_spawn E 0) (env_ask E 0) (j_inputPath J) s
      else (let (rs, s') = load_workers E (j_inputPath J) [0..<nat (pool_size (j_settings J) (j_format J) plan)] s
            in (NewWorkerPool rs, s')))"

text \<open>
  \<^verbatim>\<open>pool.RenderChunk\<close>: the worker that is checked out for a chunk is \<open>env_checkout\<close>. A legacy pool with
  no worker never hands one out.
\<close>

definition pool_render :: "Env \<Rightarrow> Job \<Rightarrow> pool \<Rightarrow> Chunk \<Rightarrow> World \<Rightarrow> (go_error, string) result \<times> World" where
  "pool_render E J p chunk w =
     (if ForkAfterLoadEnabled (j_settings J) (j_format J)
      then (let (r, s) = ForkedWorkerPool_RenderChunk (env_oor E) (env_ask E 0) (j_scratchDir J) chunk (fsys w)
            in (r, w\<lparr>fsys := s\<rparr>))
      else if pool_workers p = [] then (Err (Panic ''no return''), w\<lparr>hung := True\<rparr>)
      else (let i = pool_workers p ! (env_checkout E chunk mod length (pool_workers p));
                (r, s) = WorkerPool_RenderChunk (env_oor E) (env_ask E i) (j_scratchDir J) chunk (fsys w)
            in (r, w\<lparr>fsys := s\<rparr>)))"

text \<open>The closure \<^verbatim>\<open>render\<close> of \<^verbatim>\<open>dispatchPool\<close>.\<close>

definition pool_render_cached :: "Env \<Rightarrow> Job \<Rightarrow> pool \<Rightarrow> bool \<Rightarrow> Chunk \<Rightarrow> World \<Rightarrow> (go_error, string) result \<times> World" where
  "pool_render_cached E J p ctxDone chunk w =
     (let done = update_progress E (j_requestID J) (no_update\<lparr>uIncrementChunks := 1\<rparr>);
          cached = (if j_cacheActive J then GetChunk (j_manager J) (chunk_key E J chunk) (fsys w) else '''')
      in if cached \<noteq> '''' then (Ok cached, done (count addCacheHit w))
         else
           (case pool_render E J p chunk w of
              (Err e, w1) \<Rightarrow> (Err e, w1)
            | (Ok path, w1) \<Rightarrow>
                (let w2 = count addRendered w1
                 in (Ok path, done (if j_cacheActive J then put_chunk E J (chunk_key E J chunk) path w2 else w2)))))"

definition replan :: "Env \<Rightarrow> Job \<Rightarrow> pool \<Rightarrow> ChunkPlan \<Rightarrow> int \<Rightarrow> ProbeResult \<Rightarrow> World \<Rightarrow> ChunkPlan \<times> World" where
  "replan E J p plan effMax pr w =
     (case ActualPageCount p of
        Some actual \<Rightarrow>
          if actual \<noteq> TotalPages plan
          then (let actualProbe = \<lparr>PageCount = actual, Format = Format pr, NaturalSeams = [], SizeBytes = SizeBytes pr\<rparr>;
                    plan' = PlanChunks actualProbe effMax (MaxMBPerChunk (j_settings J))
                in (plan', update_progress E (j_requestID J) (no_update\<lparr>uTotalChunks := Some (int (length (Chunks plan')))\<rparr>) w))
          else (plan, w)
      | None \<Rightarrow> (plan, w))"

definition dispatchPool ::
  "Env \<Rightarrow> Job \<Rightarrow> ChunkPlan \<Rightarrow> int \<Rightarrow> ProbeResult \<Rightarrow> World \<Rightarrow> ((go_error, (Chunk \<times> string) list) result \<times> ChunkPlan) \<times> World" where
  "dispatchPool E J plan effMax pr w =
     (case start_pool E J plan (fsys w) of
        (Err e, s) \<Rightarrow> ((Err e, plan), w\<lparr>fsys := s\<rparr>)
      | (Ok p, s) \<Rightarrow>
          (let w1 = update_progress E (j_requestID J) (no_update\<lparr>uLoadProgress := Some 1, uPhase := Some ''rendering''\<rparr>) (w\<lparr>fsys := s\<rparr>);
               (plan', w2) = replan E J p plan effMax pr w1;
               (r, w3) = renderAll (env_sched E) False (Chunks plan') (pool_render_cached E J p) w2
           in ((r, plan'), w3)))"

subsection \<open>The pipeline\<close>

definition fileSHA256 :: "Env \<Rightarrow> string \<Rightarrow> fs \<Rightarrow> (string, string) result" where
  "fileSHA256 E path s =
     (case fst (run_io (os_Open (env_os E) path) s) of Err e \<Rightarrow> Err e | Ok c \<Rightarrow> Ok (env_sha E c))"

definition streamFile :: "Env \<Rightarrow> string \<Rightarrow> Writer \<Rightarrow> fs \<Rightarrow> go_error option \<times> Writer" where
  "streamFile E path dst s =
     (case fst (run_io (os_Open (env_os E) path) s) of
        Err e \<Rightarrow> (Some (PlainError e), dst)
      | Ok c \<Rightarrow> (let (dst', ok) = write_to dst c in (if ok then None else Some (PlainError (env_write_error E)), dst')))"

definition eff_max_pages :: "Env \<Rightarrow> Settings \<Rightarrow> ProbeResult \<Rightarrow> int" where
  "eff_max_pages E s pr =
     (let adaptivePages = AdaptiveMaxPages (env_oor E) pr (WorkerRAMBytes s) (Parallel s)
            \<lparr>optMaxPagesCeiling = 0, optMinPagesFloor = 0\<rparr>;
          eff = min adaptivePages (MaxPagesPerChunk s)
      in if Format pr = FormatXLSX then max eff (XLSXMinPagesPerChunk s)
         else if Format pr = FormatPPTX then max eff (PPTXMinPagesPerChunk s)
         else eff)"

text \<open>The chunks in index order; \<^verbatim>\<open>sort.Slice\<close> need not be stable, the indices of a plan are distinct.\<close>

definition ordered_paths :: "(Chunk \<times> string) list \<Rightarrow> string list" where
  "ordered_paths cps = map snd (sort_key (\<lambda>cp. Index (fst cp)) cps)"

text \<open>From the rendered chunks on: merge into the destination and the cache, and the result.\<close>

definition merge_and_finish ::
  "Env \<Rightarrow> Job \<Rightarrow> int \<Rightarrow> (Chunk \<times> string) list \<Rightarrow> Writer \<Rightarrow> World
   \<Rightarrow> ((go_error, ConversionResult) result \<times> Writer \<times> World) option" where
  "merge_and_finish E J started cps dst w =
     (let os = env_os E;
          cacheTemp = (if j_cacheActive J then fst (FinalTempPath os (env_pid E) (env_rnd E (ticks w)) (j_manager J) (j_sourceSHA J)) else '''');
          w1 = update_progress E (j_requestID J) (no_update\<lparr>uPhase := Some ''merging''\<rparr>) w
      in case ConcatStreaming os (env_qpdf E) (ordered_paths cps) dst cacheTemp (fsys w1) of
           None \<Rightarrow> None
         | Some (Some e, dst', s) \<Rightarrow>
             (let w2 = w1\<lparr>fsys := s\<rparr>
              in Some (Err e, dst', if cacheTemp \<noteq> '''' then fs_effect (os_Remove os cacheTemp) w2 else w2))
         | Some (None, dst', s) \<Rightarrow>
             (let w2 = update_progress E (j_requestID J) (no_update\<lparr>uMergeDone := Some 1, uPhase := Some ''complete''\<rparr>) (w1\<lparr>fsys := s\<rparr>);
                  w3 = (if cacheTemp \<noteq> '''' then fs_effect (FinalizeFinal os (j_manager J) (j_sourceSHA J) cacheTemp) w2 else w2);
                  dur = seconds (env_clock E (ticks w3) - started);
                  (r, sub, ch) = snapshot (ctr w3)
              in Some (Ok \<lparr>ChunksRendered = r, SubdivisionRetries = sub, CacheHits = ch, DurationSeconds = dur\<rparr>, dst',
                   w3\<lparr>ticks := ticks w3 + 1\<rparr>)))"

text \<open>The choice of the dispatch mode.\<close>

definition dispatch ::
  "Env \<Rightarrow> Job \<Rightarrow> ChunkPlan \<Rightarrow> int \<Rightarrow> ProbeResult \<Rightarrow> World \<Rightarrow> (go_error, (Chunk \<times> string) list) result \<times> World" where
  "dispatch E J plan effMax pr w =
     (let usePool = (PoolModeAvailable (env_vars E) \<and> int (length (Chunks plan)) \<ge> PoolMinChunks (j_settings J))
      in if usePool then (case dispatchPool E J plan effMax pr w of ((r, plan'), w1) \<Rightarrow> (r, w1))
         else dispatchOneShot E J plan w)"

text \<open>From the probe on.\<close>

definition convert_uncached ::
  "Env \<Rightarrow> Job \<Rightarrow> int \<Rightarrow> Writer \<Rightarrow> World \<Rightarrow> ((go_error, ConversionResult) result \<times> Writer \<times> World) option" where
  "convert_uncached E J started dst w =
     (let s = j_settings J
      in case Probe (env_readers E) (env_os E) (env_qpdf E) (env_exec E) s (j_inputPath J) (j_format J) (fsys w) of
           (Err e, fs1) \<Rightarrow> Some (Err e, dst, w\<lparr>fsys := fs1\<rparr>)
         | (Ok pr, fs1) \<Rightarrow>
             (let J1 = J\<lparr>j_format := Format pr\<rparr>;
                  effMax = eff_max_pages E s pr;
                  plan = PlanChunks pr effMax (MaxMBPerChunk s);
                  w1 = update_progress E (j_requestID J)
                         (no_update\<lparr>uTotalChunks := Some (int (length (Chunks plan))), uPhase := Some ''loading''\<rparr>) (w\<lparr>fsys := fs1\<rparr>);
                  (r, w2) = dispatch E J1 plan effMax pr w1
              in if hung w2 then None
                 else (case r of
                         Err e \<Rightarrow> Some (Err e, dst, w2)
                       | Ok cps \<Rightarrow> merge_and_finish E J1 started cps dst w2)))"

definition ConvertJob ::
  "Env \<Rightarrow> string \<Rightarrow> string \<Rightarrow> FormatName \<Rightarrow> ConversionOptions \<Rightarrow> Settings \<Rightarrow> Manager \<Rightarrow> string \<Rightarrow> Writer \<Rightarrow> World
   \<Rightarrow> ((go_error, ConversionResult) result \<times> Writer \<times> World) option" where
  "ConvertJob E rid input fmt opts s m scratch dst w0 =
     (let started = env_clock E (ticks w0);
          w = w0\<lparr>ticks := ticks w0 + 1, ctr := zero_counters\<rparr>;
          active = (Types.Cache opts \<and> Enabled m);
          job = (\<lambda>sha. \<lparr>j_settings = s, j_manager = m, j_requestID = rid, j_inputPath = input, j_format = fmt,
                       j_scratchDir = scratch, j_sourceSHA = sha, j_cacheActive = active\<rparr>)
      in if \<not> active then convert_uncached E (job '''') started dst w
         else
           (case fileSHA256 E input (fsys w) of
              Err e \<Rightarrow> Some (Err (OError (NewInputUnprocessable (''hash failed: '' @ e))), dst, w)
            | Ok sha \<Rightarrow>
                (let final = GetFinal m sha (fsys w)
                 in if final \<noteq> ''''
                    then
                      (let w1 = update_progress E rid
                             (no_update\<lparr>uTotalChunks := Some 1, uLoadProgress := Some 1, uMergeDone := Some 1, uPhase := Some ''complete''\<rparr>) w
                       in case streamFile E final dst (fsys w1) of
                            (Some e, dst') \<Rightarrow> Some (Err e, dst', w1)
                          | (None, dst') \<Rightarrow>
                              Some (Ok \<lparr>ChunksRendered = 0, SubdivisionRetries = 0, CacheHits = 1,
                                       DurationSeconds = seconds (env_clock E (ticks w1) - started)\<rparr>, dst', w1\<lparr>ticks := ticks w1 + 1\<rparr>))
                    else convert_uncached E (job sha) started dst w)))"

section \<open>Lemmas\<close>

lemma update_progress_sel [simp]:
  "fsys (update_progress E rid u w) = fsys w" "hung (update_progress E rid u w) = hung w" "ctr (update_progress E rid u w) = ctr w"
  by (simp_all add: update_progress_def)

lemma count_sel [simp]:
  "fsys (count f w) = fsys w" "hung (count f w) = hung w" "ctr (count f w) = f (ctr w)"
  by (simp_all add: count_def)

end
