(* ===== verification/Retry.thy ===== *)
theory Retry
  imports Orchestrator
begin

text \<open>
  Rendering one chunk with retry and subdivision (\<^verbatim>\<open>renderWithRetry\<close>). The worker and \<^verbatim>\<open>qpdf\<close>
  programs are described by what they promise (\<open>worker_spec\<close>, \<open>qpdf_spec\<close>) over an arbitrary reading
  \<open>pdf\<close> of file contents as lists of source pages. A chunk and its halves write only files of the
  chunk's own (\<open>own_paths\<close>), so the renders of a plan do not disturb each other. The lemmas show what a
  chunk that fits at once, after one subdivision or never leaves behind.
\<close>

section \<open>Definitions\<close>

subsection \<open>What the programs promise\<close>

text \<open>The command line of a render.\<close>

definition render_argv :: "Settings \<Rightarrow> FormatName \<Rightarrow> string \<Rightarrow> int \<Rightarrow> int \<Rightarrow> string \<Rightarrow> string list" where
  "render_argv s fmt input a b outp =
     prlimitArgs s (workerBinary s fmt)
       ([''--mode'', ''render'', ''--input'', input, ''--format'', fmt, ''--license-path'', LicensePath s] @
        [''--output'', outp, ''--page-range'', itoa a @ ''-'' @ itoa b])"

text \<open>
  \<open>pdf\<close> gives the pages of the source document that a PDF file holds, \<open>fits\<close> the page ranges that
  a worker can render within its memory limit. A worker on the document \<open>doc\<close> of \<open>n\<close> pages either writes
  the pages it was asked for, or is killed with exit code 137 and may leave anything in its output file.
\<close>

definition worker_spec ::
  "(string \<rightharpoonup> int list) \<Rightarrow> int \<Rightarrow> (int \<Rightarrow> int \<Rightarrow> bool) \<Rightarrow> string \<Rightarrow> worker_exec \<Rightarrow> Settings \<Rightarrow> FormatName \<Rightarrow> string \<Rightarrow> bool" where
  "worker_spec pdf n fits doc exec s fmt input =
     (\<forall>a b outp st. 1 \<le> a \<and> a \<le> b \<and> b \<le> n \<and> st input = Some doc \<longrightarrow>
        (\<exists>c so se. if fits a b
           then exec (render_argv s fmt input a b outp) st = (Exited ExitOK so se, st(outp \<mapsto> c)) \<and> pdf c = Some [a..b]
           else exec (render_argv s fmt input a b outp) st = (Exited ExitOOM so se, st(outp \<mapsto> c))))"

text \<open>A file that holds the pages \<open>l\<close>, and \<^verbatim>\<open>qpdf\<close>: the pages of its inputs in order.\<close>

definition file_pages :: "(string \<rightharpoonup> int list) \<Rightarrow> fs \<Rightarrow> string \<Rightarrow> int list \<Rightarrow> bool" where
  "file_pages pdf st p l = (\<exists>c. st p = Some c \<and> pdf c = Some l)"

definition qpdf_spec :: "(string \<rightharpoonup> int list) \<Rightarrow> (string list \<Rightarrow> fs \<Rightarrow> proc) \<Rightarrow> bool" where
  "qpdf_spec pdf qpdf =
     (\<forall>ps ls st. ps \<noteq> [] \<and> list_all2 (file_pages pdf st) ps ls \<longrightarrow>
        (\<exists>outp err. qpdf (concat_argv ps) st = Exited 0 outp err \<and> pdf outp = Some (concat ls)))"

text \<open>The chunks of a document, and those that need at most one level of subdivision.\<close>

definition in_doc :: "int \<Rightarrow> Chunk \<Rightarrow> bool" where
  "in_doc n c = (1 \<le> PageStart c \<and> PageStart c \<le> PageEnd c \<and> PageEnd c \<le> n)"

definition chunk_fits :: "(int \<Rightarrow> int \<Rightarrow> bool) \<Rightarrow> Chunk \<Rightarrow> bool" where
  "chunk_fits fits c = fits (PageStart c) (PageEnd c)"

definition renderable :: "(int \<Rightarrow> int \<Rightarrow> bool) \<Rightarrow> Chunk \<Rightarrow> bool" where
  "renderable fits c = (chunk_fits fits c \<or> 2 \<le> Pages c \<and> list_all (chunk_fits fits) (Subdivide c))"

lemma Subdivide_in_doc:
  assumes "in_doc n c" "d \<in> set (Subdivide c)"
  shows "in_doc n d"
proof -
  obtain l r where sub: "Subdivide c = [l, r]" "chunk_pages l @ chunk_pages r = chunk_pages c"
    using assms(2) Subdivide_cases [of c] by (auto split: if_splits)
  then have "set (chunk_pages d) \<subseteq> set (chunk_pages c)" using assms(2) by (metis set_append Un_upper1 Un_upper2 empty_iff insert_iff list.set)
  moreover have "PageStart d \<le> PageEnd d" using Subdivide_smaller [OF assms(2)] by (simp add: Pages_def)
  ultimately have "PageStart d \<in> set (chunk_pages c)" "PageEnd d \<in> set (chunk_pages c)" by (auto simp: chunk_pages_def)
  with \<open>PageStart d \<le> PageEnd d\<close> assms(1) show ?thesis by (simp add: in_doc_def chunk_pages_def)
qed

section \<open>One-shot rendering\<close>

lemma RenderChunkOneShot_exec:
  assumes "exec (render_argv s fmt input (PageStart c) (PageEnd c) (chunk_output dir c)) st = (Exited rc so se, st')"
  shows "RenderChunkOneShot exec s c input fmt dir st =
    (case mapExitCode rc se (Some c) of Some e \<Rightarrow> Err e | None \<Rightarrow> Ok (chunk_output dir c), st')"
  using assms by (simp add: RenderChunkOneShot_def RunWorker_def runWorkerBin_def render_argv_def Let_def)

lemma render_one_shot_fits:
  assumes "worker_spec pdf n fits doc (env_exec E) (j_settings J) (j_format J) (j_inputPath J)"
    and "chunk_fits fits c" "in_doc n c" "fsys w (j_inputPath J) = Some doc"
  shows "\<exists>x. render_one_shot E J c w = (Ok (chunk_output (j_scratchDir J) c), w\<lparr>fsys := (fsys w)(chunk_output (j_scratchDir J) c \<mapsto> x)\<rparr>) \<and>
    pdf x = Some (chunk_pages c)"
proof -
  obtain x so se where run: "env_exec E (render_argv (j_settings J) (j_format J) (j_inputPath J) (PageStart c) (PageEnd c) (chunk_output (j_scratchDir J) c)) (fsys w) =
      (Exited ExitOK so se, (fsys w)(chunk_output (j_scratchDir J) c \<mapsto> x))" "pdf x = Some (chunk_pages c)"
    using assms unfolding worker_spec_def chunk_pages_def in_doc_def chunk_fits_def by (metis (no_types, lifting))
  from RenderChunkOneShot_exec [where exec = "env_exec E", OF run(1)] run(2) show ?thesis by (auto simp: render_one_shot_def mapExitCode_def)
qed

lemma render_one_shot_oom:
  assumes "worker_spec pdf n fits doc (env_exec E) (j_settings J) (j_format J) (j_inputPath J)"
    and "\<not> chunk_fits fits c" "in_doc n c" "fsys w (j_inputPath J) = Some doc"
  shows "\<exists>x. render_one_shot E J c w = (Err (OError (NewOOM c)), w\<lparr>fsys := (fsys w)(chunk_output (j_scratchDir J) c \<mapsto> x)\<rparr>)"
proof -
  obtain x so se where run: "env_exec E (render_argv (j_settings J) (j_format J) (j_inputPath J) (PageStart c) (PageEnd c) (chunk_output (j_scratchDir J) c)) (fsys w) =
      (Exited ExitOOM so se, (fsys w)(chunk_output (j_scratchDir J) c \<mapsto> x))"
    using assms unfolding worker_spec_def in_doc_def chunk_fits_def by (metis (no_types, lifting))
  from RenderChunkOneShot_exec [where exec = "env_exec E", OF run] show ?thesis
    by (auto simp: render_one_shot_def mapExitCode_def ExitOK_def ExitOOM_def)
qed

lemma is_OOM_NewOOM [simp]: "is_OOM (OError (NewOOM c))"
  by (simp add: NewOOM_def)

text \<open>A chunk that fits, without the cache.\<close>

lemma retry_fits:
  assumes "worker_spec pdf n fits doc (env_exec E) (j_settings J) (j_format J) (j_inputPath J)" "\<not> j_cacheActive J"
    and "chunk_fits fits c" "in_doc n c" "fsys w (j_inputPath J) = Some doc"
  shows "\<exists>x w'. renderWithRetry E J d b c w = (Ok (chunk_output (j_scratchDir J) c), w') \<and> hung w' = hung w \<and>
    fsys w' = (fsys w)(chunk_output (j_scratchDir J) c \<mapsto> x) \<and> pdf x = Some (chunk_pages c)"
  using render_one_shot_fits [OF assms(1,3-5)] assms(2) by (auto simp: renderWithRetry.simps [of E J d b c w])

text \<open>The files a chunk with a whole-number index writes, and that they are the chunk's own.\<close>

definition own_paths :: "string \<Rightarrow> rat \<Rightarrow> string set" where
  "own_paths dir i =
     {dir @ ''/chunk-'' @ formatIndex i @ ''.pdf'', dir @ ''/chunk-'' @ formatIndex (i + 1 / 2) @ ''.pdf'',
      dir @ ''/chunk-'' @ formatIndex i @ ''-merged.pdf''}"

definition whole_index :: "rat \<Rightarrow> bool" where
  "whole_index i = (\<exists>k :: nat. i = of_nat k \<and> k < 1000000)"

lemma whole_half: "whole_index i \<Longrightarrow> half_index i \<and> half_index (i + 1 / 2)"
proof -
  assume "whole_index i"
  then obtain k :: nat where k: "i = of_nat k" "k < 1000000" by (auto simp: whole_index_def)
  have "i = of_nat (2 * k) / 2" "i + 1 / 2 = of_nat (2 * k + 1) / 2" using k by simp_all
  moreover have "2 * k < 2000000" "2 * k + 1 < 2000000" using k by simp_all
  ultimately show ?thesis unfolding half_index_def by blast
qed

lemma half_fadd: "half_index i \<Longrightarrow> fadd i (1 / 2) = i + 1 / 2"
proof -
  assume "half_index i"
  then obtain k :: nat where i: "i = of_nat k / 2" and k: "k < 2000000" unfolding half_index_def by blast
  have "i + 1 / 2 = of_int (int k + 1) / 2" by (simp add: i field_simps)
  moreover have "rnd64 (of_int (int k + 1) / 2) = of_int (int k + 1) / 2" by (rule f64.rnd_half) (use k in simp)
  ultimately show ?thesis by (simp only: fadd_def)
qed

lemma formatIndex_no_dash: "half_index x \<Longrightarrow> CHR ''-'' \<notin> set (formatIndex x)"
proof -
  assume "half_index x"
  then obtain k where x: "x = of_nat k / 2" and k: "k < 2000000" unfolding half_index_def by blast
  have "CHR ''-'' \<notin> set (utoa (k div 2))" using utoa_digits [of "CHR ''-''" "k div 2"] by (auto simp: is_digit_def)
  then show ?thesis unfolding x formatIndex_half [OF k] by simp
qed

lemma pdf_not_merged:
  assumes "half_index x"
  shows "formatIndex x @ ''.pdf'' \<noteq> formatIndex y @ ''-merged.pdf''"
proof
  assume eq: "formatIndex x @ ''.pdf'' = formatIndex y @ ''-merged.pdf''"
  have "CHR ''-'' \<notin> set (formatIndex x @ ''.pdf'')" using formatIndex_no_dash [OF assms] by simp
  moreover have "CHR ''-'' \<in> set (formatIndex y @ ''-merged.pdf'')" by simp
  ultimately show False unfolding eq by blast
qed

lemma own_paths_disjoint:
  assumes "whole_index i" "whole_index j" "i \<noteq> j"
  shows "own_paths dir i \<inter> own_paths dir j = {}"
proof -
  have "i \<noteq> j + 1 / 2" "i + 1 / 2 \<noteq> j"
  proof -
    obtain k m :: nat where km: "i = of_nat k" "j = of_nat m" using assms(1,2) by (auto simp: whole_index_def)
    have "2 * k \<noteq> 2 * m + 1" "2 * k + 1 \<noteq> 2 * m" by presburger+
    then have "of_nat (2 * k) \<noteq> (of_nat (2 * m + 1) :: rat)" "of_nat (2 * k + 1) \<noteq> (of_nat (2 * m) :: rat)"
      unfolding of_nat_eq_iff by blast+
    then show "i \<noteq> j + 1 / 2" "i + 1 / 2 \<noteq> j" using km by auto
  qed
  then have "formatIndex i \<noteq> formatIndex j" "formatIndex i \<noteq> formatIndex (j + 1 / 2)"
      "formatIndex (i + 1 / 2) \<noteq> formatIndex j" "formatIndex (i + 1 / 2) \<noteq> formatIndex (j + 1 / 2)"
    using assms(3) whole_half [OF assms(1)] whole_half [OF assms(2)] by (auto dest: formatIndex_inj)
  moreover note pdf_not_merged [of i j] pdf_not_merged [of "i + 1 / 2" j] pdf_not_merged [of j i] pdf_not_merged [of "j + 1 / 2" i]
  ultimately show ?thesis using whole_half [OF assms(1)] whole_half [OF assms(2)] by (auto simp: own_paths_def)
qed

text \<open>What a successful render of a chunk gives and keeps.\<close>

definition rendered_to :: "(string \<rightharpoonup> int list) \<Rightarrow> string \<Rightarrow> Chunk \<Rightarrow> string \<Rightarrow> World \<Rightarrow> bool" where
  "rendered_to pdf dir c p w = (p \<in> own_paths dir (Index c) \<and> file_pages pdf (fsys w) p (chunk_pages c))"

definition frame :: "string set \<Rightarrow> World \<Rightarrow> World \<Rightarrow> bool" where
  "frame P w w' = (hung w' = hung w \<and> (\<forall>p. p \<notin> P \<longrightarrow> fsys w' p = fsys w p))"

lemma frame_trans: "frame P w w' \<Longrightarrow> frame P w' w'' \<Longrightarrow> frame P w w''"
  by (simp add: frame_def)

lemma frame_file_pages: "frame P w w' \<Longrightarrow> p \<notin> P \<Longrightarrow> file_pages pdf (fsys w') p l = file_pages pdf (fsys w) p l"
  by (simp add: frame_def file_pages_def)

lemma chunk_output_own:
  "chunk_output dir c = dir @ ''/chunk-'' @ formatIndex (Index c) @ ''.pdf''"
  "chunk_output dir c \<in> own_paths dir (Index c)" "merged_path dir c \<in> own_paths dir (Index c)"
  by (simp_all add: chunk_output_def merged_path_def own_paths_def)

lemma frame_own:
  assumes "hung w' = hung w" "fsys w' = (fsys w)(p \<mapsto> x)" "p \<in> P"
  shows "frame P w w'"
  using assms by (auto simp: frame_def)

lemma chunk_output_not_merged: "half_index (Index c) \<Longrightarrow> chunk_output dir c \<noteq> merged_path dir d"
  using pdf_not_merged [of "Index c" "Index d"] by (simp add: chunk_output_def merged_path_def)

text \<open>The merge of two rendered halves.\<close>

lemma merge_subs_ok:
  assumes "qpdf_spec pdf (env_qpdf E)" "env_os E = no_faults" "paths \<noteq> []" "merged \<notin> set paths"
    and "list_all2 (file_pages pdf (fsys w)) paths ls"
  shows "\<exists>x. merge_subs E paths merged w = (Ok merged, w\<lparr>fsys := (fsys w)(merged \<mapsto> x)\<rparr>) \<and> pdf x = Some (concat ls)"
proof -
  have "list_all2 (file_pages pdf ((fsys w)(merged \<mapsto> ''''))) paths ls"
    using assms(5) by (rule list.rel_mono_strong) (use assms(4) in \<open>auto simp: file_pages_def\<close>)
  then obtain x err where "env_qpdf E (concat_argv paths) ((fsys w)(merged \<mapsto> '''')) = Exited 0 x err" "pdf x = Some (concat ls)"
    using assms(1,3) unfolding qpdf_spec_def by blast
  with ConcatToFile_ok [OF assms(3), of "env_os E" merged "env_qpdf E" "fsys w" x err] assms(2)
  show ?thesis by (intro exI [of _ x]) (simp add: merge_subs_def)
qed

text \<open>A chunk that is too large and whose halves fit.\<close>

lemma retry_splits:
  assumes spec: "worker_spec pdf n fits doc (env_exec E) (j_settings J) (j_format J) (j_inputPath J)" "qpdf_spec pdf (env_qpdf E)"
    and env: "env_os E = no_faults" "complete_sched (env_sched E)" "\<not> j_cacheActive J"
    and c: "\<not> chunk_fits fits c" "2 \<le> Pages c" "list_all (chunk_fits fits) (Subdivide c)" "in_doc n c"
    and idx: "half_index (Index c)" "half_index (Index c + 1 / 2)" and input: "fsys w (j_inputPath J) = Some doc" "j_inputPath J \<notin> own_paths (j_scratchDir J) (Index c)"
  shows "\<exists>w'. renderWithRetry E J d False c w = (Ok (merged_path (j_scratchDir J) c), w') \<and>
    file_pages pdf (fsys w') (merged_path (j_scratchDir J) c) (chunk_pages c) \<and> frame (own_paths (j_scratchDir J) (Index c)) w w' \<and>
    list_all (\<lambda>e. file_pages pdf (fsys w') (chunk_output (j_scratchDir J) e) (chunk_pages e)) (Subdivide c)"
proof -
  define dir own where "dir = j_scratchDir J" and "own = own_paths dir (Index c)"
  obtain l r where sub: "Subdivide c = [l, r]" "chunk_pages l @ chunk_pages r = chunk_pages c" "1 \<le> Pages l" "1 \<le> Pages r"
      "Index l = Index c" "Index r = Index c + 1 / 2"
    using Subdivide_cases [of c] c(2) half_fadd [OF idx(1)] by (auto split: if_splits)
  have half: "half_index (Index l)" "half_index (Index r)" using idx sub by simp_all
  have paths: "chunk_output dir l \<noteq> chunk_output dir r"
    by (rule chunk_output_injective) (use half sub in simp_all)
  have own: "chunk_output dir l \<in> own" "chunk_output dir r \<in> own" "chunk_output dir c \<in> own" "merged_path dir c \<in> own"
    using sub by (simp_all add: own_def own_paths_def chunk_output_def merged_path_def)
  obtain x0 where oom: "render_one_shot E J c w = (Err (OError (NewOOM c)), w\<lparr>fsys := (fsys w)(chunk_output dir c \<mapsto> x0)\<rparr>)"
    using render_one_shot_oom [OF spec(1) c(1,4) input(1)] by (auto simp: dir_def)
  define w2 where "w2 = count addSubdivision (w\<lparr>fsys := (fsys w)(chunk_output dir c \<mapsto> x0)\<rparr>)"
  define I where "I v = frame own w v" for v
  define Q where "Q e p v = (p = chunk_output dir e \<and> file_pages pdf (fsys v) p (chunk_pages e))" for e p and v :: World
  have "I w2" using own by (auto simp: I_def w2_def frame_def)
  have step: "\<exists>p v'. renderWithRetry E J (d + 1) False e v = (Ok p, v') \<and> I v' \<and> Q e p v' \<and>
      (\<forall>e' q. e' \<in> set [l, r] \<and> e' \<noteq> e \<and> Q e' q v \<longrightarrow> Q e' q v')" if "e \<in> set [l, r]" "I v" for e v
  proof -
    have fits: "chunk_fits fits e" "in_doc n e"
      using that(1) c(3) Subdivide_in_doc [OF c(4)] sub(1) by (auto simp: list_all_iff)
    have "fsys v (j_inputPath J) = Some doc" using that(2) input by (simp add: I_def frame_def own_def dir_def)
    from retry_fits [OF spec(1) env(3) fits this] obtain x v' where run: "renderWithRetry E J (d + 1) False e v = (Ok (chunk_output dir e), v')"
        "hung v' = hung v" "fsys v' = (fsys v)(chunk_output dir e \<mapsto> x)" "pdf x = Some (chunk_pages e)" unfolding dir_def by blast
    have "frame own v v'" by (rule frame_own [OF run(2,3)]) (use own that(1) in auto)
    then have "I v'" using that(2) unfolding I_def by (blast intro: frame_trans)
    moreover have "Q e (chunk_output dir e) v'" using run by (simp add: Q_def file_pages_def)
    moreover have "Q e' q v'" if "e' \<in> set [l, r]" "e' \<noteq> e" "Q e' q v" for e' q
      using that \<open>e \<in> set [l, r]\<close> paths run(3) by (auto simp: Q_def file_pages_def)
    ultimately show ?thesis using run(1) by blast
  qed
  have "distinct [l, r]" using paths by auto
  from renderAll_total [where I = I and Q = Q and f = "renderWithRetry E J (d + 1)", OF step this env(2) \<open>I w2\<close>]
  obtain cps w3 where all: "renderAll (env_sched E) False [l, r] (renderWithRetry E J (d + 1)) w2 = (Ok cps, w3)"
      "I w3" "map fst cps = [l, r]" "\<forall>cp \<in> set cps. Q (fst cp) (snd cp) w3"
    by auto
  from all(3,4) have snds: "map snd cps = [chunk_output dir l, chunk_output dir r]"
      "list_all2 (file_pages pdf (fsys w3)) (map snd cps) [chunk_pages l, chunk_pages r]"
    by (auto simp: Q_def)
  have "merged_path dir c \<notin> set (map snd cps)" using snds(1) half by (auto dest: chunk_output_not_merged [of _ dir c])
  from merge_subs_ok [OF spec(2) env(1) _ this snds(2)] snds(1) obtain x where
      merge: "merge_subs E (map snd cps) (merged_path dir c) w3 = (Ok (merged_path dir c), w3\<lparr>fsys := (fsys w3)(merged_path dir c \<mapsto> x)\<rparr>)"
      "pdf x = Some (chunk_pages c)" using sub(2) by auto
  have "renderWithRetry E J d False c w = (Ok (merged_path dir c), w3\<lparr>fsys := (fsys w3)(merged_path dir c \<mapsto> x)\<rparr>)"
    using env(3) oom sub(1) all(1) merge(1)
    by (simp add: renderWithRetry.simps [of E J d False c w] w2_def dir_def Let_def)
  moreover have "frame own w (w3\<lparr>fsys := (fsys w3)(merged_path dir c \<mapsto> x)\<rparr>)"
    using all(2) own unfolding I_def by (auto simp: frame_def)
  moreover have "chunk_output dir l \<noteq> merged_path dir c" "chunk_output dir r \<noteq> merged_path dir c"
    using half by (auto dest: chunk_output_not_merged)
  ultimately show ?thesis using merge(2) snds sub(1) by (auto simp: file_pages_def own_def dir_def)
qed

lemma retry_renderable:
  assumes spec: "worker_spec pdf n fits doc (env_exec E) (j_settings J) (j_format J) (j_inputPath J)" "qpdf_spec pdf (env_qpdf E)"
    and env: "env_os E = no_faults" "complete_sched (env_sched E)" "\<not> j_cacheActive J"
    and c: "renderable fits c" "whole_index (Index c)" "in_doc n c"
    and input: "fsys w (j_inputPath J) = Some doc" "j_inputPath J \<notin> own_paths (j_scratchDir J) (Index c)"
  shows "\<exists>p w'. renderWithRetry E J d False c w = (Ok p, w') \<and> rendered_to pdf (j_scratchDir J) c p w' \<and>
    frame (own_paths (j_scratchDir J) (Index c)) w w'"
proof (cases "chunk_fits fits c")
  case True
  from retry_fits [OF spec(1) env(3) True c(3) input(1), of d False] obtain x w' where
      "renderWithRetry E J d False c w = (Ok (chunk_output (j_scratchDir J) c), w')" "hung w' = hung w"
      "fsys w' = (fsys w)(chunk_output (j_scratchDir J) c \<mapsto> x)" "pdf x = Some (chunk_pages c)" by blast
  then show ?thesis using chunk_output_own(2) [of "j_scratchDir J" c] frame_own by (auto simp: rendered_to_def file_pages_def)
next
  case False
  then have "2 \<le> Pages c" "list_all (chunk_fits fits) (Subdivide c)" using c(1) by (auto simp: renderable_def)
  from retry_splits [OF spec env False this c(3) _ _ input, of d] whole_half [OF c(2)] chunk_output_own(3) [of "j_scratchDir J" c]
  show ?thesis by (auto simp: rendered_to_def)
qed

section \<open>The retry returns\<close>

text \<open>Without write faults and with a \<^verbatim>\<open>qpdf\<close> that ends, no retry hangs, whatever the workers do.\<close>

definition qpdf_returns :: "(string list \<Rightarrow> fs \<Rightarrow> proc) \<Rightarrow> bool" where
  "qpdf_returns qpdf = (\<forall>argv st. qpdf argv st \<noteq> TimedOut)"

lemma merge_subs_returns:
  assumes "env_os E = no_faults" "qpdf_returns (env_qpdf E)"
  shows "hung (snd (merge_subs E paths merged w)) = hung w"
proof -
  have "env_qpdf E (concat_argv paths) ((fsys w)(merged \<mapsto> '''')) \<noteq> TimedOut" using assms(2) by (simp add: qpdf_returns_def)
  with ConcatToFile_returns [of "env_os E" merged "env_qpdf E" paths "fsys w"] assms(1)
  obtain e s where "ConcatToFile (env_os E) (env_qpdf E) paths merged (fsys w) = Some (e, s)" by auto
  then show ?thesis by (cases e) (simp_all add: merge_subs_def)
qed

lemma put_chunk_hung [simp]: "hung (put_chunk E J key path w) = hung w"
  by (simp add: put_chunk_def fs_effect_def)

lemma retry_returns:
  assumes env: "env_os E = no_faults" "qpdf_returns (env_qpdf E)"
  shows "hung (snd (renderWithRetry E J d b c w)) = hung w"
proof (induction "nat (Pages c)" arbitrary: b c d w rule: less_induct)
  case less
  define cached where "cached = (if j_cacheActive J then GetChunk (j_manager J) (chunk_key E J c) (fsys w) else '''')"
  obtain r w1 where shot: "render_one_shot E J c w = (r, w1)" by force
  then have w1: "hung w1 = hung w" by (auto simp: render_one_shot_def split: prod.splits)
  show ?case
  proof (cases "cached \<noteq> '''' \<or> (\<exists>p. r = Ok p) \<or> (\<exists>e. r = Err e \<and> \<not> is_OOM e) \<or> Subdivide c = []")
    case True
    with w1 shot show ?thesis by (cases r) (auto simp: renderWithRetry.simps [of E J d b c w] cached_def Let_def)
  next
    case False
    then obtain e where e: "r = Err e" "is_OOM e" "cached = ''''" "Subdivide c \<noteq> []" by (cases r) auto
    obtain res w3 where all: "renderAll (env_sched E) b (Subdivide c) (renderWithRetry E J (d + 1)) (count addSubdivision w1) = (res, w3)" by force
    have "hung (snd (renderAll (env_sched E) b (Subdivide c) (renderWithRetry E J (d + 1)) (count addSubdivision w1))) = hung w"
      by (rule renderAll_keeps) (use less Subdivide_smaller w1 in fastforce)+
    with all have "hung w3 = hung w" by simp
    then show ?thesis using e all shot merge_subs_returns [OF env]
      by (cases res) (simp_all add: renderWithRetry.simps [of E J d b c w] cached_def [symmetric] Let_def)
  qed
qed

section \<open>Beyond one level of subdivision\<close>

text \<open>A page \<open>q\<close> that no worker can render: every range without it fits, every range with it does not.\<close>

definition all_but :: "int \<Rightarrow> int \<Rightarrow> int \<Rightarrow> bool" where
  "all_but q a b = (\<not> (a \<le> q \<and> q \<le> b))"

definition floor_error :: "int \<Rightarrow> int \<Rightarrow> int \<Rightarrow> go_error \<Rightarrow> bool" where
  "floor_error q d n e = (\<exists>c k. e = OError (NewSubdivisionFloor c k) \<and> PageStart c = q \<and> PageEnd c = q \<and> d < k \<and> 2 ^ nat (k - d - 1) < 2 * n)"

lemma two_power_halves:
  fixes n h :: int
  assumes "2 ^ x < 2 * h" "h = (n + 1) div 2 \<or> h = n div 2" "2 \<le> n"
  shows "2 ^ Suc x < 2 * n"
proof (cases x)
  case 0
  then show ?thesis using assms(3) by simp
next
  case (Suc y)
  then have x: "2 ^ x = 2 * (2 ^ y :: int)" "2 ^ Suc x = 4 * (2 ^ y :: int)" by simp_all
  have "4 * t < 2 * n" if "2 * t < 2 * h" for t :: int using that assms(2,3) by auto
  from this [of "2 ^ y"] assms(1) show ?thesis unfolding x by simp
qed

lemma retry_floor:
  assumes spec: "worker_spec pdf m (all_but q) doc (env_exec E) (j_settings J) (j_format J) (j_inputPath J)"
    and env: "complete_sched (env_sched E)" "\<not> j_cacheActive J" "\<not> has_prefix (j_inputPath J) (j_scratchDir J @ ''/chunk-'')"
    and "in_doc m c" "PageStart c \<le> q" "q \<le> PageEnd c" "fsys w (j_inputPath J) = Some doc"
  shows "\<exists>e w'. renderWithRetry E J d False c w = (Err e, w') \<and> floor_error q d (Pages c) e"
  using assms(5-)
proof (induction "nat (Pages c)" arbitrary: c d w rule: less_induct)
  case less
  have notout: "j_inputPath J \<noteq> chunk_output (j_scratchDir J) e" for e
    using env(3) by (auto simp: chunk_output_def has_prefix_def)
  have "\<not> chunk_fits (all_but q) c" using less.prems by (simp add: chunk_fits_def all_but_def)
  from render_one_shot_oom [OF spec this less.prems(1,4)] obtain x where
    oom: "render_one_shot E J c w = (Err (OError (NewOOM c)), w\<lparr>fsys := (fsys w)(chunk_output (j_scratchDir J) c \<mapsto> x)\<rparr>)" by blast
  define w2 where "w2 = count addSubdivision (w\<lparr>fsys := (fsys w)(chunk_output (j_scratchDir J) c \<mapsto> x)\<rparr>)"
  define I where "I v = (hung v = hung w \<and> fsys v (j_inputPath J) = Some doc)" for v :: World
  have w2: "I w2" using less.prems(4) notout [of c] by (simp add: w2_def I_def)
  show ?case
  proof (cases "Pages c \<le> 1")
    case True
    then have c: "PageStart c = q" "PageEnd c = q" "Subdivide c = []"
      using less.prems(2,3) Subdivide_cases [of c] by (simp_all add: Pages_def)
    then have "floor_error q d (Pages c) (OError (NewSubdivisionFloor c (d + 1)))"
      unfolding floor_error_def by (intro exI [of _ c] exI [of _ "d + 1"]) (simp add: Pages_def)
    then show ?thesis using oom c(3) env(2) by (simp add: renderWithRetry.simps [of E J d False c w])
  next
    case False
    then obtain l r where sub: "Subdivide c = [l, r]" "chunk_pages l @ chunk_pages r = chunk_pages c"
        "Pages l = (Pages c + 1) div 2" "Pages r = Pages c div 2" using Subdivide_cases [of c] by auto
    have doc: "in_doc m e" "nat (Pages e) < nat (Pages c)" if "e \<in> set [l, r]" for e
      using that sub(1) Subdivide_in_doc [OF less.prems(1)] Subdivide_smaller [of e c] by auto
    have hit: "\<exists>e \<in> set [l, r]. PageStart e \<le> q \<and> q \<le> PageEnd e"
    proof -
      have "q \<in> set (chunk_pages l @ chunk_pages r)" using less.prems(2,3) sub(2) by (simp add: chunk_pages_def)
      then show ?thesis by (auto simp: chunk_pages_def)
    qed
    have step: "if PageStart e \<le> q \<and> q \<le> PageEnd e
        then \<exists>err v'. renderWithRetry E J (d + 1) False e v = (Err err, v') \<and> floor_error q d (Pages c) err
        else \<exists>p v'. renderWithRetry E J (d + 1) False e v = (Ok p, v') \<and> I v'"
      if e: "e \<in> set [l, r]" and v: "I v" for e v
    proof (cases "PageStart e \<le> q \<and> q \<le> PageEnd e")
      case True
      from v have "fsys v (j_inputPath J) = Some doc" by (simp add: I_def)
      from less.hyps [OF doc(2) [OF e] doc(1) [OF e] conjunct1 [OF True] conjunct2 [OF True] this, of "d + 1"]
      obtain err v' where "renderWithRetry E J (d + 1) False e v = (Err err, v')" "floor_error q (d + 1) (Pages e) err" by blast
      moreover from this(2) have "floor_error q d (Pages c) err"
      proof -
        obtain ch k where k: "err = OError (NewSubdivisionFloor ch k)" "PageStart ch = q" "PageEnd ch = q" "d + 1 < k"
            "2 ^ nat (k - (d + 1) - 1) < 2 * Pages e" using \<open>floor_error q (d + 1) (Pages e) err\<close> unfolding floor_error_def by blast
        have "nat (k - d - 1) = Suc (nat (k - (d + 1) - 1))" using k(4) by simp
        then have "2 ^ nat (k - d - 1) < 2 * Pages c"
          using two_power_halves [OF k(5), of "Pages c"] e sub(3,4) False by auto
        with k show ?thesis unfolding floor_error_def by (intro exI [of _ ch] exI [of _ k]) simp
      qed
      ultimately show ?thesis using True by auto
    next
      case ok: False
      then have "chunk_fits (all_but q) e" by (simp add: chunk_fits_def all_but_def)
      from retry_fits [OF spec env(2) this doc(1) [OF e], of v "d + 1" False] v notout [of e] ok show ?thesis by (auto simp: I_def)
    qed
    from renderAll_fails [where I = I and f = "renderWithRetry E J (d + 1)" and P = "floor_error q d (Pages c)"
        and bad = "\<lambda>e. PageStart e \<le> q \<and> q \<le> PageEnd e", OF step env(1) hit w2]
    obtain err w' where "renderAll (env_sched E) False [l, r] (renderWithRetry E J (d + 1)) w2 = (Err err, w')" "floor_error q d (Pages c) err"
      by blast
    then show ?thesis using oom sub(1) env(2) by (auto simp: renderWithRetry.simps [of E J d False c w] w2_def Let_def)
  qed
qed

text \<open>The halves of a too large chunk of which the left one is too large again.\<close>

definition qpdf_rejects_empty :: "(string list \<Rightarrow> fs \<Rightarrow> proc) \<Rightarrow> bool" where
  "qpdf_rejects_empty qpdf =
     (\<forall>ps st. (\<exists>p \<in> set ps. st p = Some '''') \<longrightarrow> (\<exists>rc outp err. qpdf (concat_argv ps) st = Exited rc outp err \<and> rc \<noteq> 0))"

lemma merge_subs_own_input:
  assumes "qpdf_rejects_empty (env_qpdf E)" "env_os E = no_faults" "merged \<in> set paths"
  shows "\<exists>rc err w'. merge_subs E paths merged w = (Err (OError (NewMerge rc err)), w') \<and> rc \<noteq> 0"
proof -
  define st where "st = (fsys w)(merged \<mapsto> '''')"
  have "st merged = Some ''''" by (simp add: st_def)
  then obtain rc outp err where q: "env_qpdf E (concat_argv paths) st = Exited rc outp err" "rc \<noteq> 0"
    using assms(1,3) unfolding qpdf_rejects_empty_def by blast
  obtain dst where "copy_blocks no_faults '''' (file_writer no_faults merged) [] outp = (dst, [], [], True)"
    using copy_blocks_total [of "file_writer no_faults merged" outp no_faults "''''" "[]"] by (auto simp: accepts_def tee_accepts_def file_writer_def)
  with q assms(2,3) show ?thesis
    by (auto simp: merge_subs_def ConcatToFile_def ConcatStreaming_def run_Create st_def merge_error_def)
qed

lemma merged_path_index: "Index c = Index d \<Longrightarrow> merged_path dir c = merged_path dir d"
  by (simp add: merged_path_def)

lemma retry_left_nested:
  assumes spec: "worker_spec pdf n fits doc (env_exec E) (j_settings J) (j_format J) (j_inputPath J)" "qpdf_spec pdf (env_qpdf E)"
      "qpdf_rejects_empty (env_qpdf E)"
    and env: "env_os E = no_faults" "complete_sched (env_sched E)" "\<not> j_cacheActive J"
    and c: "in_doc n c" "whole_index (Index c)" "\<not> chunk_fits fits c" "Subdivide c = [l, r]" "chunk_fits fits r"
    and l: "\<not> chunk_fits fits l" "2 \<le> Pages l" "list_all (chunk_fits fits) (Subdivide l)"
    and input: "fsys w (j_inputPath J) = Some doc" "\<not> has_prefix (j_inputPath J) (j_scratchDir J @ ''/chunk-'')"
  shows "\<exists>rc err w'. renderWithRetry E J d False c w = (Err (OError (NewMerge rc err)), w') \<and> rc \<noteq> 0"
proof -
  define dir where "dir = j_scratchDir J"
  define I where "I v = (fsys v (j_inputPath J) = Some doc)" for v :: World
  define Q where "Q e p v = (p = (if e = l then merged_path dir c else chunk_output dir e))" for e p and v :: World
  have sub: "in_doc n l" "in_doc n r" "Index l = Index c" "Index r = Index c + 1 / 2" "l \<noteq> r"
    using Subdivide_in_doc [OF c(1)] Subdivide_cases [of c] half_fadd whole_half [OF c(2)] c(4) by (auto split: if_splits)
  have notown: "j_inputPath J \<notin> own_paths dir i" "j_inputPath J \<noteq> chunk_output dir e" for i e
    using input(2) by (auto simp: own_paths_def chunk_output_def has_prefix_def dir_def)
  obtain x where oom: "render_one_shot E J c w = (Err (OError (NewOOM c)), w\<lparr>fsys := (fsys w)(chunk_output dir c \<mapsto> x)\<rparr>)"
    using render_one_shot_oom [OF spec(1) c(3,1) input(1)] by (auto simp: dir_def)
  define w2 where "w2 = count addSubdivision (w\<lparr>fsys := (fsys w)(chunk_output dir c \<mapsto> x)\<rparr>)"
  have "I w2" using input(1) notown(2) [of c] by (simp add: I_def w2_def)
  have step: "\<exists>p v'. renderWithRetry E J (d + 1) False e v = (Ok p, v') \<and> I v' \<and> Q e p v' \<and>
      (\<forall>e' q. e' \<in> set [l, r] \<and> e' \<noteq> e \<and> Q e' q v \<longrightarrow> Q e' q v')" if e: "e \<in> set [l, r]" and v: "I v" for e v
  proof (cases "e = l")
    case True
    have half: "half_index (Index l)" "half_index (Index l + 1 / 2)" using sub(3) whole_half [OF c(2)] by simp_all
    have "fsys v (j_inputPath J) = Some doc" "j_inputPath J \<notin> own_paths (j_scratchDir J) (Index l)"
      using v notown(1) by (simp_all add: I_def dir_def)
    from retry_splits [OF spec(1,2) env l sub(1) half this, of "d + 1"] obtain v' where
      "renderWithRetry E J (d + 1) False l v = (Ok (merged_path dir l), v')" "frame (own_paths dir (Index l)) v v'" unfolding dir_def by blast
    moreover have "merged_path dir l = merged_path dir c" by (rule merged_path_index [OF sub(3)])
    ultimately show ?thesis using v notown(1) True by (auto simp: I_def Q_def frame_def)
  next
    case False
    then have "e = r" using e by simp
    with retry_fits [OF spec(1) env(3) c(5) sub(2), of v "d + 1" False] v notown(2) [of r] sub(5)
    show ?thesis by (auto simp: I_def Q_def dir_def)
  qed
  have "distinct [l, r]" using sub(5) by simp
  from renderAll_total [where I = I and Q = Q and f = "renderWithRetry E J (d + 1)", OF step this env(2) \<open>I w2\<close>]
  obtain cps w3 where all: "renderAll (env_sched E) False [l, r] (renderWithRetry E J (d + 1)) w2 = (Ok cps, w3)"
      "map fst cps = [l, r]" "\<forall>cp \<in> set cps. Q (fst cp) (snd cp) w3" by auto
  then obtain p q where "cps = [(l, p), (r, q)]" by (auto simp: map_eq_Cons_conv)
  with all(3) have "merged_path dir c \<in> set (map snd cps)" by (simp add: Q_def)
  from merge_subs_own_input [OF spec(3) env(1) this, of w3] obtain rc err w' where
    "merge_subs E (map snd cps) (merged_path dir c) w3 = (Err (OError (NewMerge rc err)), w')" "rc \<noteq> 0" by blast
  then show ?thesis using env(3) oom c(4) all(1)
    by (auto simp: renderWithRetry.simps [of E J d False c w] w2_def dir_def Let_def)
qed

text \<open>
  The halves of a too large chunk of which the right one is too large again: the last quarter is
  rendered into the output file of the next chunk.
\<close>

lemma chunk_output_index: "Index c = Index d \<Longrightarrow> chunk_output dir c = chunk_output dir d"
  by (simp add: chunk_output_def)

lemma retry_right_nested:
  assumes spec: "worker_spec pdf n fits doc (env_exec E) (j_settings J) (j_format J) (j_inputPath J)" "qpdf_spec pdf (env_qpdf E)"
    and env: "env_os E = no_faults" "complete_sched (env_sched E)" "\<not> j_cacheActive J"
    and c: "in_doc n c" "whole_index (Index c)" "whole_index (Index c + 1)" "\<not> chunk_fits fits c" "Subdivide c = [l, r]" "chunk_fits fits l"
    and r: "\<not> chunk_fits fits r" "2 \<le> Pages r" "list_all (chunk_fits fits) (Subdivide r)" "Subdivide r = [rl, rr]"
    and input: "fsys w (j_inputPath J) = Some doc" "\<not> has_prefix (j_inputPath J) (j_scratchDir J @ ''/chunk-'')"
  shows "\<exists>w'. renderWithRetry E J d False c w = (Ok (merged_path (j_scratchDir J) c), w') \<and> hung w' = hung w \<and>
    file_pages pdf (fsys w') (merged_path (j_scratchDir J) c) (chunk_pages c) \<and>
    file_pages pdf (fsys w') (j_scratchDir J @ ''/chunk-'' @ formatIndex (Index c + 1) @ ''.pdf'') (chunk_pages rr)"
proof -
  define dir where "dir = j_scratchDir J"
  define I where "I v = (hung v = hung w \<and> fsys v (j_inputPath J) = Some doc)" for v :: World
  define Q where "Q e p v = (if e = l then p = chunk_output dir l \<and> file_pages pdf (fsys v) p (chunk_pages l)
      else p = merged_path dir r \<and> file_pages pdf (fsys v) p (chunk_pages r) \<and> file_pages pdf (fsys v) (chunk_output dir rr) (chunk_pages rr))"
    for e p and v :: World
  have half: "half_index (Index c)" "half_index (Index c + 1 / 2)" "half_index (Index c + 1)"
    using whole_half [OF c(2)] whole_half [OF c(3)] by simp_all
  have sub: "in_doc n l" "in_doc n r" "Index l = Index c" "Index r = Index c + 1 / 2" "l \<noteq> r" "chunk_pages l @ chunk_pages r = chunk_pages c"
    using Subdivide_in_doc [OF c(1)] Subdivide_cases [of c] half_fadd [OF half(1)] c(5) by (auto split: if_splits)
  have subr: "Index rr = Index c + 1"
    using Subdivide_cases [of r] half_fadd [of "Index r"] sub(4) half(2) r(4) by (auto split: if_splits)
  have notown: "j_inputPath J \<notin> own_paths dir i" "j_inputPath J \<noteq> chunk_output dir e" for i e
    using input(2) by (auto simp: own_paths_def chunk_output_def has_prefix_def dir_def)
  have ne: "chunk_output dir l \<notin> own_paths dir (Index r)" "chunk_output dir l \<noteq> chunk_output dir rr" "chunk_output dir l \<noteq> merged_path dir e"
      "merged_path dir r \<noteq> merged_path dir c" "chunk_output dir rr \<noteq> merged_path dir e" for e
  proof -
    have fi: "formatIndex (Index c) \<noteq> formatIndex (Index c + 1 / 2)" "formatIndex (Index c) \<noteq> formatIndex (Index c + 1)"
      using half by (auto dest: formatIndex_inj)
    then show "chunk_output dir l \<notin> own_paths dir (Index r)" "chunk_output dir l \<noteq> chunk_output dir rr" "merged_path dir r \<noteq> merged_path dir c"
      using pdf_not_merged [OF half(1), of "Index r"] sub(3,4) subr by (simp_all add: add.commute [of 1] own_paths_def chunk_output_def merged_path_def)
    show "chunk_output dir l \<noteq> merged_path dir e" "chunk_output dir rr \<noteq> merged_path dir e"
      using chunk_output_not_merged [of l dir e] chunk_output_not_merged [of rr dir e] half sub(3) subr by simp_all
  qed
  obtain x where oom: "render_one_shot E J c w = (Err (OError (NewOOM c)), w\<lparr>fsys := (fsys w)(chunk_output dir c \<mapsto> x)\<rparr>)"
    using render_one_shot_oom [OF spec(1) c(4,1) input(1)] by (auto simp: dir_def)
  define w2 where "w2 = count addSubdivision (w\<lparr>fsys := (fsys w)(chunk_output dir c \<mapsto> x)\<rparr>)"
  have "I w2" using input(1) notown(2) [of c] by (simp add: I_def w2_def)
  have step: "\<exists>p v'. renderWithRetry E J (d + 1) False e v = (Ok p, v') \<and> I v' \<and> Q e p v' \<and>
      (\<forall>e' q. e' \<in> set [l, r] \<and> e' \<noteq> e \<and> Q e' q v \<longrightarrow> Q e' q v')" if e: "e \<in> set [l, r]" and v: "I v" for e v
  proof (cases "e = l")
    case True
    from retry_fits [OF spec(1) env(3) c(6) sub(1), of v "d + 1" False] v obtain y v' where
      "renderWithRetry E J (d + 1) False l v = (Ok (chunk_output dir l), v')" "hung v' = hung v"
      "fsys v' = (fsys v)(chunk_output dir l \<mapsto> y)" "pdf y = Some (chunk_pages l)" unfolding dir_def I_def by blast
    with v notown(2) [of l] True sub(5) ne(2,3) ne(3) [THEN not_sym] show ?thesis by (auto simp: I_def Q_def file_pages_def)
  next
    case False
    then have "e = r" using e by simp
    have "fsys v (j_inputPath J) = Some doc" "j_inputPath J \<notin> own_paths (j_scratchDir J) (Index r)"
      using v notown(1) by (simp_all add: I_def dir_def)
    moreover have "half_index (Index r)" "half_index (Index r + 1 / 2)" using half sub(4) by (simp_all add: add.commute [of 1])
    ultimately obtain v' where
      "renderWithRetry E J (d + 1) False r v = (Ok (merged_path dir r), v')" "frame (own_paths dir (Index r)) v v'"
      "file_pages pdf (fsys v') (merged_path dir r) (chunk_pages r)" "file_pages pdf (fsys v') (chunk_output dir rr) (chunk_pages rr)"
      using retry_splits [OF spec env r(1-3) sub(2), of v "d + 1"] r(4) unfolding dir_def by auto
    with v notown(1) \<open>e = r\<close> sub(5) ne(1) show ?thesis by (auto simp: I_def Q_def frame_def file_pages_def)
  qed
  have "distinct [l, r]" using sub(5) by simp
  from renderAll_total [where I = I and Q = Q and f = "renderWithRetry E J (d + 1)", OF step this env(2) \<open>I w2\<close>]
  obtain cps w3 where all: "renderAll (env_sched E) False [l, r] (renderWithRetry E J (d + 1)) w2 = (Ok cps, w3)" "I w3"
      "map fst cps = [l, r]" "\<forall>cp \<in> set cps. Q (fst cp) (snd cp) w3" by auto
  then obtain p q where "cps = [(l, p), (r, q)]" by (auto simp: map_eq_Cons_conv)
  with all(4) sub(5) have snds: "map snd cps = [chunk_output dir l, merged_path dir r]"
      "list_all2 (file_pages pdf (fsys w3)) (map snd cps) [chunk_pages l, chunk_pages r]" "file_pages pdf (fsys w3) (chunk_output dir rr) (chunk_pages rr)"
    by (auto simp: Q_def)
  have "merged_path dir c \<notin> set (map snd cps)" using ne(3) [of c] ne(4) by (auto simp: snds(1))
  from merge_subs_ok [OF spec(2) env(1) _ this snds(2)] snds(1) sub(6) obtain y where
      merge: "merge_subs E (map snd cps) (merged_path dir c) w3 = (Ok (merged_path dir c), w3\<lparr>fsys := (fsys w3)(merged_path dir c \<mapsto> y)\<rparr>)"
      "pdf y = Some (chunk_pages c)" by auto
  have "renderWithRetry E J d False c w = (Ok (merged_path dir c), w3\<lparr>fsys := (fsys w3)(merged_path dir c \<mapsto> y)\<rparr>)"
    using env(3) oom c(5) all(1) merge(1) by (simp add: renderWithRetry.simps [of E J d False c w] w2_def dir_def Let_def)
  moreover have "chunk_output dir rr = dir @ ''/chunk-'' @ formatIndex (Index c + 1) @ ''.pdf''" by (simp add: chunk_output_def subr)
  ultimately show ?thesis using snds(3) merge(2) ne(5) [of c] all(2) by (auto simp: file_pages_def I_def dir_def)
qed

end
