(* ===== verification/Pipeline.thy ===== *)
theory Pipeline
  imports Retry
begin

text \<open>
  The correctness of the conversion pipeline as a whole. The worker and \<^verbatim>\<open>qpdf\<close> programs are
  described by what they promise (\<open>worker_spec\<close>, \<open>pool_spec\<close>, \<open>qpdf_spec\<close>). Each chunk writes only
  files of its own, so the renders of a plan do not disturb each other in any completion order; the
  theorems show that the client receives exactly the pages of the document in one-shot and in pool
  mode, what a second request finds in the cache, and how the retry behaves at and beyond its limits.
\<close>


section \<open>Rendering a plan\<close>

text \<open>The index facts of a plan.\<close>

lemma plan_index: "indexed 0 cs \<Longrightarrow> length cs \<le> 1000000 \<Longrightarrow> i < length cs \<Longrightarrow> Index (cs ! i) = of_nat i"
  by (simp add: indexed_nth fl_int)

lemma plan_whole:
  assumes "indexed 0 cs" "length cs \<le> 1000000" "c \<in> set cs"
  shows "whole_index (Index c)"
proof -
  obtain i where i: "i < length cs" "c = cs ! i" using assms(3) by (auto simp: in_set_conv_nth)
  then show ?thesis using plan_index [OF assms(1,2)] assms(2) unfolding whole_index_def by (intro exI [of _ i]) simp
qed

lemma plan_index_inj:
  assumes "indexed 0 cs" "length cs \<le> 1000000" "c \<in> set cs" "c' \<in> set cs" "c \<noteq> c'"
  shows "Index c \<noteq> Index c'"
proof -
  obtain i j where "i < length cs" "c = cs ! i" "j < length cs" "c' = cs ! j" using assms(3,4) unfolding in_set_conv_nth by blast
  with plan_index [OF assms(1,2)] assms(5) show ?thesis by auto
qed

lemma plan_ordered:
  assumes "indexed 0 cs" "length cs \<le> 1000000" "map fst cps = cs"
  shows "distinct cs" "ordered_paths cps = map snd cps"
proof -
  have "sorted_wrt (\<lambda>c d. Index c < Index d) cs" using assms(1,2) by (intro indexed_sorted) simp_all
  then have strict: "sorted_wrt (<) (map Index cs)" by (simp add: sorted_wrt_map)
  then show "distinct cs" by (simp add: strict_sorted_iff distinct_map)
  have "sorted (map Index (map fst cps))" using strict assms(3) by (simp add: strict_sorted_imp_sorted)
  then have "sorted (map (\<lambda>cp. Index (fst cp)) cps)" by (simp add: comp_def)
  then show "ordered_paths cps = map snd cps" by (simp add: ordered_paths_def sort_key_id_if_sorted)
qed

text \<open>Dispatch of a plan to one-shot workers.\<close>

lemma dispatchOneShot_ok:
  assumes spec: "worker_spec pdf n fits doc (env_exec E) (j_settings J) (j_format J) (j_inputPath J)" "qpdf_spec pdf (env_qpdf E)"
    and env: "env_os E = no_faults" "complete_sched (env_sched E)" "\<not> j_cacheActive J"
    and plan: "indexed 0 (Chunks plan)" "length (Chunks plan) \<le> 1000000" "list_all (renderable fits) (Chunks plan)"
      "\<forall>c \<in> set (Chunks plan). in_doc n c"
    and input: "fsys w (j_inputPath J) = Some doc" "\<not> has_prefix (j_inputPath J) (j_scratchDir J @ ''/chunk-'')"
  shows "\<exists>cps w'. dispatchOneShot E J plan w = (Ok cps, w') \<and> map fst cps = Chunks plan \<and> hung w' = hung w \<and>
    (\<forall>cp \<in> set cps. file_pages pdf (fsys w') (snd cp) (chunk_pages (fst cp)))"
proof -
  define dir where "dir = j_scratchDir J"
  define I where "I v = (hung v = hung w \<and> fsys v (j_inputPath J) = Some doc)" for v :: World
  have notown: "j_inputPath J \<notin> own_paths dir i" for i
    using input(2) by (auto simp: own_paths_def has_prefix_def dir_def)
  define w1 where "w1 = update_progress E (j_requestID J) (no_update\<lparr>uLoadProgress := Some 1, uPhase := Some ''rendering''\<rparr>) w"
  have "I w1" using input(1) by (simp add: I_def w1_def)
  have step: "\<exists>p v'. renderWithRetry E J 0 False c v = (Ok p, v') \<and> I v' \<and> rendered_to pdf dir c p v' \<and>
      (\<forall>c' q. c' \<in> set (Chunks plan) \<and> c' \<noteq> c \<and> rendered_to pdf dir c' q v \<longrightarrow> rendered_to pdf dir c' q v')"
    if "c \<in> set (Chunks plan)" "I v" for c v
  proof -
    have c: "renderable fits c" "whole_index (Index c)" "in_doc n c"
      using that(1) plan plan_whole by (auto simp: list_all_iff)
    have v: "fsys v (j_inputPath J) = Some doc" "j_inputPath J \<notin> own_paths (j_scratchDir J) (Index c)"
      using that(2) notown by (simp_all add: I_def dir_def)
    from retry_renderable [OF spec env c v, of 0] obtain p v' where run: "renderWithRetry E J 0 False c v = (Ok p, v')"
        "rendered_to pdf dir c p v'" "frame (own_paths dir (Index c)) v v'" unfolding dir_def by blast
    have "I v'" using run(3) that(2) notown by (simp add: I_def frame_def)
    moreover have "rendered_to pdf dir c' q v'"
      if "c' \<in> set (Chunks plan)" "c' \<noteq> c" "rendered_to pdf dir c' q v" for c' q
    proof -
      have "q \<notin> own_paths dir (Index c)"
        using that(3) own_paths_disjoint [OF plan_whole [OF plan(1,2) that(1)] c(2) plan_index_inj [OF plan(1,2) that(1) \<open>c \<in> _\<close> that(2)], of dir]
        by (auto simp: rendered_to_def)
      with that(3) frame_file_pages [OF run(3)] show ?thesis by (simp add: rendered_to_def)
    qed
    ultimately show ?thesis using run(1,2) by blast
  qed
  have "distinct (Chunks plan)"
    using plan_ordered(1) [OF plan(1,2), of "map (\<lambda>c. (c, ''''))  (Chunks plan)"] by (simp add: comp_def)
  from renderAll_total [where I = I and Q = "rendered_to pdf dir" and f = "renderWithRetry E J 0", OF step this env(2) \<open>I w1\<close>]
  show ?thesis unfolding dispatchOneShot_def Let_def w1_def [symmetric] by (auto simp: I_def rendered_to_def)
qed

section \<open>Merging\<close>

text \<open>The merge of the rendered chunks into a destination that accepts everything.\<close>

lemma list_all2_pages:
  assumes "map fst cps = cs" "\<forall>cp \<in> set cps. file_pages pdf st (snd cp) (chunk_pages (fst cp))"
  shows "list_all2 (file_pages pdf st) (map snd cps) (map chunk_pages cs)"
  using assms by (auto simp: list_all2_conv_all_nth)

lemma merge_and_finish_ok:
  assumes "qpdf_spec pdf (env_qpdf E)" "\<not> j_cacheActive J" "w_cap dst = None" "indexed 0 cs" "length cs \<le> 1000000" "cs \<noteq> []"
    and "map fst cps = cs" "\<forall>cp \<in> set cps. file_pages pdf (fsys w) (snd cp) (chunk_pages (fst cp))"
  shows "\<exists>res dst' w' outp. merge_and_finish E J started cps dst w = Some (Ok res, dst', w') \<and> written dst' = written dst @ outp \<and>
    pdf outp = Some (concat (map chunk_pages cs)) \<and> snapshot (ctr w) = (ChunksRendered res, SubdivisionRetries res, CacheHits res)"
proof -
  have ne: "map snd cps \<noteq> []" using assms(6,7) by auto
  obtain outp err where q: "env_qpdf E (concat_argv (map snd cps)) (fsys w) = Exited 0 outp err"
      "pdf outp = Some (concat (map chunk_pages cs))"
    using assms(1) ne list_all2_pages [OF assms(7,8)] unfolding qpdf_spec_def by blast
  have "accepts dst (length outp)" using assms(3) by (simp add: accepts_def)
  from ConcatStreaming_no_tee [where qpdf = "env_qpdf E", OF ne q(1) this, of "env_os E"] obtain dst' where
    "ConcatStreaming (env_os E) (env_qpdf E) (map snd cps) dst '''' (fsys w) = Some (None, dst', fsys w)" "written dst' = written dst @ outp"
    by blast
  with assms(2) q(2) plan_ordered(2) [OF assms(4,5,7)] show ?thesis
    by (auto simp: merge_and_finish_def Let_def snapshot_def)
qed

lemma length_concat_ge: "\<forall>x \<in> set xs. f x \<noteq> [] \<Longrightarrow> length xs \<le> length (concat (map f xs))"
proof (induction xs)
  case (Cons x xs)
  then have "1 \<le> length (f x)" by (cases "f x") auto
  with Cons show ?case by simp
qed simp

lemma covers_length: "covers cs 1 n \<Longrightarrow> length cs \<le> nat n"
proof -
  assume c: "covers cs 1 n"
  then have "length cs \<le> length (concat (map chunk_pages cs))" by (intro length_concat_ge) (auto simp: covers_def chunk_pages_def)
  with c show ?thesis by (simp add: covers_def)
qed

lemma covers_in_doc:
  assumes "covers cs 1 n" "c \<in> set cs"
  shows "in_doc n c"
proof -
  have eq: "concat (map chunk_pages cs) = [1..n]" and le: "PageStart c \<le> PageEnd c" using assms by (simp_all add: covers_def)
  have "set (chunk_pages c) \<subseteq> set (concat (map chunk_pages cs))" using assms(2) by auto
  then have "set (chunk_pages c) \<subseteq> {1..n}" unfolding eq by simp
  with le show ?thesis by (auto simp: chunk_pages_def in_doc_def)
qed

text \<open>A plan for a document of at most a million pages.\<close>

lemma eff_plan_cover:
  assumes "0 < PageCount pr" "PageCount pr \<le> 1000000" "NaturalSeams pr = [] \<or> seams_tile (NaturalSeams pr) 1 (PageCount pr)"
  shows "indexed 0 (Chunks (PlanChunks pr m k))" "concat (map chunk_pages (Chunks (PlanChunks pr m k))) = [1..PageCount pr]"
    "Chunks (PlanChunks pr m k) \<noteq> []" "length (Chunks (PlanChunks pr m k)) \<le> 1000000"
    "\<forall>c \<in> set (Chunks (PlanChunks pr m k)). in_doc (PageCount pr) c" "TotalPages (PlanChunks pr m k) = PageCount pr"
proof -
  note cover = PlanChunks_cover [OF assms(1,3), of m k]
  from cover show "indexed 0 (Chunks (PlanChunks pr m k))" "concat (map chunk_pages (Chunks (PlanChunks pr m k))) = [1..PageCount pr]"
      "TotalPages (PlanChunks pr m k) = PageCount pr"
    by (simp_all add: covers_def)
  from cover show "\<forall>c \<in> set (Chunks (PlanChunks pr m k)). in_doc (PageCount pr) c" by (blast intro: covers_in_doc)
  from cover assms(1) show "Chunks (PlanChunks pr m k) \<noteq> []" by (auto simp: covers_def)
  have "length (Chunks (PlanChunks pr m k)) \<le> nat (PageCount pr)" by (rule covers_length) (use cover in simp)
  with assms(2) show "length (Chunks (PlanChunks pr m k)) \<le> 1000000" by simp
qed

section \<open>Pool rendering\<close>

text \<open>A pool worker on the document \<open>doc\<close> of \<open>n\<close> pages.\<close>

definition pool_spec ::
  "(string \<rightharpoonup> int list) \<Rightarrow> (rat \<Rightarrow> int) \<Rightarrow> int \<Rightarrow> string \<Rightarrow> string \<Rightarrow> worker_ask \<Rightarrow> bool" where
  "pool_spec pdf oor n doc input ask =
     ((\<forall>st. st input = Some doc \<longrightarrow>
         (\<exists>r. ask (Load input) st = (Reply r, st) \<and> status_ok r \<and> toInt oor (r ''page_count'') 0 = n)) \<and>
      (\<forall>a b outp st. 1 \<le> a \<and> a \<le> b \<and> b \<le> n \<and> st input = Some doc \<longrightarrow>
         (\<exists>r c. ask (Render a b outp) st = (Reply r, st(outp \<mapsto> c)) \<and> status_ok r \<and> pdf c = Some [a..b])))"

lemma pooled_render_spec:
  assumes "pool_spec pdf oor n doc input ask" "in_doc n c" "st input = Some doc"
  shows "\<exists>x. WorkerPool_RenderChunk oor ask dir c st = (Ok (chunk_output dir c), st(chunk_output dir c \<mapsto> x)) \<and>
      ForkedWorkerPool_RenderChunk oor ask dir c st = (Ok (chunk_output dir c), st(chunk_output dir c \<mapsto> x)) \<and> pdf x = Some (chunk_pages c)"
proof -
  obtain r x where "ask (Render (PageStart c) (PageEnd c) (chunk_output dir c)) st = (Reply r, st(chunk_output dir c \<mapsto> x))"
      "status_ok r" "pdf x = Some (chunk_pages c)"
    using assms unfolding pool_spec_def chunk_pages_def in_doc_def by blast
  then show ?thesis
    by (auto simp: WorkerPool_RenderChunk_def ForkedWorkerPool_RenderChunk_def pooled_RenderChunk_def leader_RenderChunk_def
        render_result_def pooled_await_def awaitSeq_def)
qed

lemma load_workers_spec:
  assumes "\<forall>i. env_spawn E i = None" "\<forall>i. pool_spec pdf (env_oor E) n doc input (env_ask E i)" "st input = Some doc"
  shows "load_workers E input is st = (replicate (length is) (Ok n), st)"
proof (induction "is")
  case (Cons i "is")
  obtain r where "env_ask E i (Load input) st = (Reply r, st)" "status_ok r" "toInt (env_oor E) (r ''page_count'') 0 = n"
    using assms(2,3) unfolding pool_spec_def by blast
  then show ?case using Cons assms(1) by (simp add: pooled_LoadDocument_def pooled_await_def load_result_def)
qed simp

lemma first_error_replicate: "first_error (replicate k (Ok n)) = None"
  by (induction k) simp_all

text \<open>The pool starts with at least one worker and knows the page count.\<close>

definition pool_ready :: "Job \<Rightarrow> int \<Rightarrow> pool \<Rightarrow> bool" where
  "pool_ready J n p = (ActualPageCount p = Some n \<and> (ForkAfterLoadEnabled (j_settings J) (j_format J) \<or> pool_workers p \<noteq> []))"

lemma start_pool_spec:
  assumes "\<forall>i. env_spawn E i = None" "\<forall>i. pool_spec pdf (env_oor E) n doc (j_inputPath J) (env_ask E i)"
    and "st (j_inputPath J) = Some doc" "Chunks plan \<noteq> []" "1 \<le> Parallel (j_settings J)" "1 \<le> XLSXMaxPoolSize (j_settings J)"
  shows "\<exists>p. start_pool E J plan st = (Ok p, st) \<and> pool_ready J n p"
proof (cases "ForkAfterLoadEnabled (j_settings J) (j_format J)")
  case True
  obtain r where "env_ask E 0 (Load (j_inputPath J)) st = (Reply r, st)" "status_ok r" "toInt (env_oor E) (r ''page_count'') 0 = n"
    using assms(2,3) unfolding pool_spec_def by blast
  then show ?thesis using True assms(1)
    by (simp add: start_pool_def NewForkedWorkerPool_def leader_LoadDocument_def load_result_def awaitSeq_def pool_ready_def ActualPageCount_def)
next
  case False
  define k where "k = nat (pool_size (j_settings J) (j_format J) plan)"
  have "1 \<le> int (length (Chunks plan))" using assms(4) by (cases "Chunks plan") auto
  then have k: "0 < k" using assms(4-6) by (simp add: k_def pool_size_def Let_def)
  have "start_pool E J plan st = (NewWorkerPool (replicate k (Ok n)), st)"
    using False load_workers_spec [where st = st, OF assms(1-3), of "[0..<k]"] by (simp add: start_pool_def k_def)
  moreover obtain k' where "k = Suc k'" using k by (cases k) auto
  ultimately show ?thesis
    by (auto simp: NewWorkerPool_def first_error_replicate [of "Suc k'", simplified] pool_ready_def ActualPageCount_def first_error_replicate)
qed

lemma pool_render_cached_spec:
  assumes "\<forall>i. pool_spec pdf (env_oor E) n doc (j_inputPath J) (env_ask E i)" "pool_ready J n p" "\<not> j_cacheActive J"
    and "in_doc n c" "fsys w (j_inputPath J) = Some doc"
  shows "\<exists>x w'. pool_render_cached E J p b c w = (Ok (chunk_output (j_scratchDir J) c), w') \<and> hung w' = hung w \<and>
    fsys w' = (fsys w)(chunk_output (j_scratchDir J) c \<mapsto> x) \<and> pdf x = Some (chunk_pages c)"
proof -
  define i where "i = (if ForkAfterLoadEnabled (j_settings J) (j_format J) then 0 else pool_workers p ! (env_checkout E c mod length (pool_workers p)))"
  have "pool_spec pdf (env_oor E) n doc (j_inputPath J) (env_ask E i)" using assms(1) by blast
  from pooled_render_spec [where st = "fsys w", OF this assms(4,5)] obtain x where
    "WorkerPool_RenderChunk (env_oor E) (env_ask E i) (j_scratchDir J) c (fsys w) =
      (Ok (chunk_output (j_scratchDir J) c), (fsys w)(chunk_output (j_scratchDir J) c \<mapsto> x))"
    "ForkedWorkerPool_RenderChunk (env_oor E) (env_ask E i) (j_scratchDir J) c (fsys w) =
      (Ok (chunk_output (j_scratchDir J) c), (fsys w)(chunk_output (j_scratchDir J) c \<mapsto> x))" "pdf x = Some (chunk_pages c)" by blast
  with assms(2) have "pool_render E J p c w = (Ok (chunk_output (j_scratchDir J) c), w\<lparr>fsys := (fsys w)(chunk_output (j_scratchDir J) c \<mapsto> x)\<rparr>)"
    by (auto simp: pool_render_def i_def pool_ready_def split: if_splits)
  with assms(3) \<open>pdf x = _\<close> show ?thesis by (auto simp: pool_render_cached_def)
qed

lemma renderAll_pool:
  assumes spec: "\<forall>i. pool_spec pdf (env_oor E) n doc (j_inputPath J) (env_ask E i)" "pool_ready J n p" "\<not> j_cacheActive J"
    and env: "complete_sched (env_sched E)"
    and plan: "indexed 0 cs" "length cs \<le> 1000000" "\<forall>c \<in> set cs. in_doc n c"
    and input: "fsys w (j_inputPath J) = Some doc" "\<not> has_prefix (j_inputPath J) (j_scratchDir J @ ''/chunk-'')"
  shows "\<exists>cps w'. renderAll (env_sched E) False cs (pool_render_cached E J p) w = (Ok cps, w') \<and> map fst cps = cs \<and> hung w' = hung w \<and>
    (\<forall>cp \<in> set cps. file_pages pdf (fsys w') (snd cp) (chunk_pages (fst cp)))"
proof -
  define dir where "dir = j_scratchDir J"
  define I where "I v = (hung v = hung w \<and> fsys v (j_inputPath J) = Some doc)" for v :: World
  define Q where "Q c q v = (q = chunk_output dir c \<and> file_pages pdf (fsys v) q (chunk_pages c))" for c q and v :: World
  have notout: "j_inputPath J \<noteq> chunk_output dir c" for c
    using input(2) by (auto simp: chunk_output_def has_prefix_def dir_def)
  have other: "chunk_output dir c \<noteq> chunk_output dir c'" if "c \<in> set cs" "c' \<in> set cs" "c \<noteq> c'" for c c'
    by (rule chunk_output_injective)
      (use whole_half plan_whole [OF plan(1,2)] plan_index_inj [OF plan(1,2)] that in blast)+
  have step: "\<exists>q v'. pool_render_cached E J p False c v = (Ok q, v') \<and> I v' \<and> Q c q v' \<and>
      (\<forall>c' q. c' \<in> set cs \<and> c' \<noteq> c \<and> Q c' q v \<longrightarrow> Q c' q v')" if "c \<in> set cs" "I v" for c v
  proof -
    have "in_doc n c" "fsys v (j_inputPath J) = Some doc" using that plan(3) by (auto simp: I_def)
    from pool_render_cached_spec [OF spec this, of False] obtain x v' where run: "pool_render_cached E J p False c v = (Ok (chunk_output dir c), v')"
        "hung v' = hung v" "fsys v' = (fsys v)(chunk_output dir c \<mapsto> x)" "pdf x = Some (chunk_pages c)" unfolding dir_def by blast
    then have "I v'" "Q c (chunk_output dir c) v'" using that(2) notout [of c] by (auto simp: I_def Q_def file_pages_def)
    moreover have "Q c' q v'" if "c' \<in> set cs" "c' \<noteq> c" "Q c' q v" for c' q
      using that other [OF that(1) \<open>c \<in> set cs\<close> that(2)] run(3) by (auto simp: Q_def file_pages_def)
    ultimately show ?thesis using run(1) by blast
  qed
  have "distinct cs" using plan_ordered(1) [OF plan(1,2), of "map (\<lambda>c. (c, '''')) cs"] by (simp add: comp_def)
  moreover have "I w" using input(1) by (simp add: I_def)
  ultimately show ?thesis
    using renderAll_total [where I = I and Q = Q and f = "pool_render_cached E J p", OF step _ env] by (fastforce simp: I_def Q_def)
qed

text \<open>The whole pool dispatch: the plan is redone for the page count the workers report.\<close>

lemma dispatchPool_ok:
  assumes spec: "\<forall>i. env_spawn E i = None" "\<forall>i. pool_spec pdf (env_oor E) n doc (j_inputPath J) (env_ask E i)" "\<not> j_cacheActive J"
    and env: "complete_sched (env_sched E)" "1 \<le> Parallel (j_settings J)" "1 \<le> XLSXMaxPoolSize (j_settings J)"
    and pr: "0 < PageCount pr" "PageCount pr \<le> 1000000" "NaturalSeams pr = [] \<or> seams_tile (NaturalSeams pr) 1 (PageCount pr)"
    and n: "0 < n" "n \<le> 1000000" and plan: "plan = PlanChunks pr effMax (MaxMBPerChunk (j_settings J))"
    and input: "fsys w (j_inputPath J) = Some doc" "\<not> has_prefix (j_inputPath J) (j_scratchDir J @ ''/chunk-'')"
  shows "\<exists>cps plan' w'. dispatchPool E J plan effMax pr w = ((Ok cps, plan'), w') \<and> map fst cps = Chunks plan' \<and> hung w' = hung w \<and>
    (\<forall>cp \<in> set cps. file_pages pdf (fsys w') (snd cp) (chunk_pages (fst cp))) \<and>
    indexed 0 (Chunks plan') \<and> length (Chunks plan') \<le> 1000000 \<and> Chunks plan' \<noteq> [] \<and> concat (map chunk_pages (Chunks plan')) = [1..n]"
proof -
  note cover = eff_plan_cover [OF pr, of effMax "MaxMBPerChunk (j_settings J)", folded plan]
  obtain p where p: "start_pool E J plan (fsys w) = (Ok p, fsys w)" "pool_ready J n p"
    using start_pool_spec [where st = "fsys w", OF spec(1,2) input(1) cover(3) env(2,3)] by blast
  define actual where "actual = \<lparr>PageCount = n, Format = Format pr, NaturalSeams = [], SizeBytes = SizeBytes pr\<rparr>"
  define plan' where "plan' = (if n = TotalPages plan then plan else PlanChunks actual effMax (MaxMBPerChunk (j_settings J)))"
  note cover' = eff_plan_cover [of actual effMax "MaxMBPerChunk (j_settings J)"]
  have new: "indexed 0 (Chunks plan')" "length (Chunks plan') \<le> 1000000" "\<forall>c \<in> set (Chunks plan'). in_doc n c"
      "Chunks plan' \<noteq> []" "concat (map chunk_pages (Chunks plan')) = [1..n]"
    using cover cover' n by (simp_all add: plan'_def actual_def)
  define w1 where "w1 = update_progress E (j_requestID J) (no_update\<lparr>uLoadProgress := Some 1, uPhase := Some ''rendering''\<rparr>) (w\<lparr>fsys := fsys w\<rparr>)"
  have "\<exists>w2. replan E J p plan effMax pr w1 = (plan', w2) \<and> fsys w2 = fsys w \<and> hung w2 = hung w"
    using p(2) by (cases "n = TotalPages plan") (simp_all add: replan_def pool_ready_def plan'_def actual_def w1_def Let_def)
  then obtain w2 where re: "replan E J p plan effMax pr w1 = (plan', w2)" "fsys w2 = fsys w" "hung w2 = hung w" by blast
  have "fsys w2 (j_inputPath J) = Some doc" using re(2) input(1) by simp
  from renderAll_pool [OF spec(2) p(2) spec(3) env(1) new(1-3) this input(2)] obtain cps w3 where
    "renderAll (env_sched E) False (Chunks plan') (pool_render_cached E J p) w2 = (Ok cps, w3)" "map fst cps = Chunks plan'" "hung w3 = hung w2"
    "\<forall>cp \<in> set cps. file_pages pdf (fsys w3) (snd cp) (chunk_pages (fst cp))" by blast
  moreover from this(1) p(1) re(1) have "dispatchPool E J plan effMax pr w = ((Ok cps, plan'), w3)"
    by (simp add: dispatchPool_def w1_def)
  ultimately show ?thesis using new re(3) by auto
qed

section \<open>Whole runs\<close>

definition job_of :: "string \<Rightarrow> string \<Rightarrow> FormatName \<Rightarrow> Settings \<Rightarrow> Manager \<Rightarrow> string \<Rightarrow> Job" where
  "job_of rid input fmt s m scratch =
     \<lparr>j_settings = s, j_manager = m, j_requestID = rid, j_inputPath = input, j_format = fmt, j_scratchDir = scratch,
      j_sourceSHA = '''', j_cacheActive = False\<rparr>"

lemma ConvertJob_inactive:
  assumes "\<not> (Types.Cache opts \<and> Enabled m)"
  shows "ConvertJob E rid input fmt opts s m scratch dst w0 =
    convert_uncached E (job_of rid input fmt s m scratch) (env_clock E (ticks w0)) dst (w0\<lparr>ticks := ticks w0 + 1, ctr := zero_counters\<rparr>)"
proof -
  have "(Types.Cache opts \<and> Enabled m) = False" using assms by simp
  then show ?thesis by (simp only: ConvertJob_def Let_def job_of_def not_False_eq_True if_True)
qed

text \<open>The run of a job whose probe and dispatch succeed.\<close>

definition loading :: "Env \<Rightarrow> string \<Rightarrow> ChunkPlan \<Rightarrow> World \<Rightarrow> World" where
  "loading E rid plan = update_progress E rid
     (no_update\<lparr>uTotalChunks := Some (int (length (Chunks plan))), uPhase := Some ''loading''\<rparr>)"

lemma convert_uncached_run:
  assumes "Probe (env_readers E) (env_os E) (env_qpdf E) (env_exec E) (j_settings J) (j_inputPath J) (j_format J) (fsys w) = (Ok pr, s1)"
    and "plan = PlanChunks pr (eff_max_pages E (j_settings J) pr) (MaxMBPerChunk (j_settings J))"
    and "dispatch E (J\<lparr>j_format := Format pr\<rparr>) plan (eff_max_pages E (j_settings J) pr) pr (loading E (j_requestID J) plan (w\<lparr>fsys := s1\<rparr>)) =
      (Ok cps, w2)"
    and "\<not> hung w2"
  shows "convert_uncached E J started dst w = merge_and_finish E (J\<lparr>j_format := Format pr\<rparr>) started cps dst w2"
  unfolding convert_uncached_def Let_def assms(1) prod.case sum.case assms(2) [symmetric] loading_def [symmetric] assms(3)
  using assms(4) by simp

section \<open>A page that cannot be rendered\<close>

lemma dispatchOneShot_floor:
  assumes spec: "worker_spec pdf m (all_but q) doc (env_exec E) (j_settings J) (j_format J) (j_inputPath J)" "qpdf_returns (env_qpdf E)"
    and env: "complete_sched (env_sched E)" "env_os E = no_faults" "\<not> j_cacheActive J" "\<not> has_prefix (j_inputPath J) (j_scratchDir J @ ''/chunk-'')"
    and plan: "\<forall>c \<in> set (Chunks plan). in_doc m c" "\<exists>c \<in> set (Chunks plan). PageStart c \<le> q \<and> q \<le> PageEnd c"
    and w: "fsys w (j_inputPath J) = Some doc"
  shows "\<exists>e w'. dispatchOneShot E J plan w = (Err e, w') \<and> floor_error q 0 m e \<and> hung w' = hung w"
proof -
  define I where "I v = (fsys v (j_inputPath J) = Some doc)" for v :: World
  define w1 where "w1 = update_progress E (j_requestID J) (no_update\<lparr>uLoadProgress := Some 1, uPhase := Some ''rendering''\<rparr>) w"
  have w1: "I w1" "hung w1 = hung w" using w by (simp_all add: I_def w1_def)
  have notout: "j_inputPath J \<noteq> chunk_output (j_scratchDir J) c" for c using env(4) by (auto simp: chunk_output_def has_prefix_def)
  have mono: "floor_error q 0 m e" if "floor_error q 0 k e" "k \<le> m" for e k
    using that unfolding floor_error_def by fastforce
  have step: "if PageStart c \<le> q \<and> q \<le> PageEnd c
      then \<exists>e v'. renderWithRetry E J 0 False c v = (Err e, v') \<and> floor_error q 0 m e
      else \<exists>p v'. renderWithRetry E J 0 False c v = (Ok p, v') \<and> I v'" if c: "c \<in> set (Chunks plan)" and v: "I v" for c v
  proof (cases "PageStart c \<le> q \<and> q \<le> PageEnd c")
    case True
    have doc: "in_doc m c" "fsys v (j_inputPath J) = Some doc" using plan(1) c v by (simp_all add: I_def)
    then have "Pages c \<le> m" by (simp add: in_doc_def Pages_def)
    with retry_floor [OF spec(1) env(1,3,4) doc(1) conjunct1 [OF True] conjunct2 [OF True] doc(2), of 0] mono True show ?thesis by auto
  next
    case False
    then have "chunk_fits (all_but q) c" by (simp add: chunk_fits_def all_but_def)
    with retry_fits [OF spec(1) env(3), of c v 0 False] plan(1) c v notout [of c] False show ?thesis by (auto simp: I_def)
  qed
  from renderAll_fails [where I = I and f = "renderWithRetry E J 0" and P = "floor_error q 0 m"
      and bad = "\<lambda>c. PageStart c \<le> q \<and> q \<le> PageEnd c", OF step env(1) plan(2) w1(1)]
  obtain e w' where all: "renderAll (env_sched E) False (Chunks plan) (renderWithRetry E J 0) w1 = (Err e, w')" "floor_error q 0 m e" by blast
  have "hung (snd (renderAll (env_sched E) False (Chunks plan) (renderWithRetry E J 0) w1)) = hung w"
    by (rule renderAll_keeps) (use retry_returns [OF env(2) spec(2)] w1(2) in simp_all)
  with all show ?thesis unfolding dispatchOneShot_def Let_def w1_def [symmetric] by simp
qed

section \<open>The final cache\<close>

lemma finalPath_nonempty: "Enabled m \<Longrightarrow> sha_key sha \<Longrightarrow> finalPath m sha \<noteq> ''''"
  using layer_path_slash [of m "''final''" sha "''''"] layer_plain(1) by (auto simp: layer_path_def finalPath_def)

lemma streamFile_ok:
  assumes "env_os E = no_faults" "st p = Some c" "w_cap dst = None"
  shows "streamFile E p dst st = (None, received dst c)"
  using assms by (simp add: streamFile_def run_Open)

text \<open>A job that finds its result in the final layer.\<close>

lemma ConvertJob_hit:
  assumes "Types.Cache opts" "Enabled m" "env_os E = no_faults" "fsys w0 input = Some doc" "sha_key (env_sha E doc)"
    and "fsys w0 (finalPath m (env_sha E doc)) = Some c" "w_cap dst = None"
  shows "\<exists>res w'. ConvertJob E rid input fmt opts s m scratch dst w0 = Some (Ok res, received dst c, w') \<and>
    fsys w' = fsys w0 \<and> ChunksRendered res = 0 \<and> CacheHits res = 1"
proof -
  have "fileSHA256 E input (fsys w0) = Ok (env_sha E doc)" using assms(3,4) by (simp add: fileSHA256_def run_Open)
  moreover have "GetFinal m (env_sha E doc) (fsys w0) = finalPath m (env_sha E doc)"
    using assms(2,6) by (simp add: GetFinal_def os_Stat_def)
  ultimately show ?thesis
    using assms(1,2) finalPath_nonempty [OF assms(2,5)] streamFile_ok [where st = "fsys w0", OF assms(3,6,7)] by (simp add: ConvertJob_def Let_def)
qed

text \<open>A job with the cache on leaves what it delivered in the final layer.\<close>

lemma merge_and_finish_cached:
  assumes "merge_and_finish E J started cps dst w = Some (Ok res, dst', w')" "j_cacheActive J" "Enabled (j_manager J)"
    and "env_os E = no_faults"
  shows "\<exists>c. written dst' = written dst @ c \<and> fsys w' (finalPath (j_manager J) (j_sourceSHA J)) = Some c"
proof -
  define final temp where "final = finalPath (j_manager J) (j_sourceSHA J)" and "temp = tempName (env_pid E) (env_rnd E (ticks w)) final"
  have temp: "temp \<noteq> ''''" "temp \<noteq> final" by (simp_all add: temp_def tempName_def)
  have path: "fst (FinalTempPath (env_os E) (env_pid E) (env_rnd E (ticks w)) (j_manager J) (j_sourceSHA J)) = temp"
    using assms(3,4) by (simp add: FinalTempPath_def Let_def temp_def final_def)
  obtain e d st where r: "ConcatStreaming (env_os E) (env_qpdf E) (ordered_paths cps) dst temp (fsys w) = Some (e, d, st)"
    using assms(1,2) by (cases "ConcatStreaming (env_os E) (env_qpdf E) (ordered_paths cps) dst temp (fsys w)")
      (auto simp: merge_and_finish_def Let_def path)
  have "e = None" using assms(1,2) r by (cases e) (simp_all add: merge_and_finish_def Let_def path)
  with assms(1,2) r temp(1) have st: "ConcatStreaming (env_os E) (env_qpdf E) (ordered_paths cps) dst temp (fsys w) = Some (None, dst', st)"
      "fsys w' = snd (run_io (FinalizeFinal (env_os E) (j_manager J) (j_sourceSHA J) temp) st)"
    by (auto simp: merge_and_finish_def Let_def path snapshot_def fs_effect_def)
  from ConcatStreaming_success [OF st(1) temp(1)] assms(4) obtain c where c: "written dst' = written dst @ c" "st = (fsys w)(temp \<mapsto> c)" by auto
  have "run_io (FinalizeFinal (env_os E) (j_manager J) (j_sourceSHA J) temp) st = (None, (st(temp := None))(final \<mapsto> c))"
    using assms(3,4) c(2) by (simp add: FinalizeFinal_def run_Rename final_def)
  with st(2) c show ?thesis by (simp add: final_def)
qed

lemma ConvertJob_fills:
  assumes "ConvertJob E rid input fmt opts s m scratch dst w0 = Some (Ok res, dst', w')" "Types.Cache opts" "Enabled m"
    and "env_os E = no_faults" "fsys w0 input = Some doc" "sha_key (env_sha E doc)" "w_cap dst = None"
  shows "\<exists>c. written dst' = written dst @ c \<and> fsys w' (finalPath m (env_sha E doc)) = Some c"
proof (cases "fsys w0 (finalPath m (env_sha E doc))")
  case (Some c)
  from ConvertJob_hit [where ?w0.0 = w0, OF assms(2-6) Some assms(7), of rid fmt s scratch] assms(1) Some show ?thesis by auto
next
  case None
  define J where "J = (job_of rid input fmt s m scratch)\<lparr>j_sourceSHA := env_sha E doc, j_cacheActive := True\<rparr>"
  define w where "w = w0\<lparr>ticks := ticks w0 + 1, ctr := zero_counters\<rparr>"
  have "fileSHA256 E input (fsys w0) = Ok (env_sha E doc)" using assms(4,5) by (simp add: fileSHA256_def run_Open)
  moreover have "GetFinal m (env_sha E doc) (fsys w0) = ''''" using None by (simp add: GetFinal_def os_Stat_def)
  ultimately have run: "convert_uncached E J (env_clock E (ticks w0)) dst w = Some (Ok res, dst', w')"
    using assms(1-3) by (simp add: ConvertJob_def Let_def J_def w_def job_of_def)
  have "\<exists>(pr :: ProbeResult) cps w2. merge_and_finish E (J\<lparr>j_format := Format pr\<rparr>) (env_clock E (ticks w0)) cps dst w2 = Some (Ok res, dst', w')"
    using run unfolding convert_uncached_def Let_def by (simp split: prod.splits sum.splits if_splits) blast+
  then obtain pr :: ProbeResult and cps w2 where "merge_and_finish E (J\<lparr>j_format := Format pr\<rparr>) (env_clock E (ticks w0)) cps dst w2 = Some (Ok res, dst', w')" by blast
  from merge_and_finish_cached [OF this] assms(3,4) show ?thesis by (simp add: J_def job_of_def)
qed

section \<open>An example environment\<close>

text \<open>
  Programs that keep the promises, for documents of at most 255 pages: a PDF file is the list of its
  page numbers, one byte each, the worker writes the page range of its command line, and \<^verbatim>\<open>qpdf\<close>
  concatenates its inputs and refuses an empty file. The renders complete in reverse order.
\<close>

definition demo_pdf :: "string \<rightharpoonup> int list" where
  "demo_pdf c = (if c = '''' then None else Some (map (\<lambda>x. int (of_char x)) c))"

definition demo_render :: "int \<Rightarrow> int \<Rightarrow> string" where
  "demo_render a b = map (\<lambda>i. char_of (nat i)) [a..b]"

definition demo_range :: "string \<Rightarrow> int \<times> int" where
  "demo_range t = (the (parse_int (takeWhile (\<lambda>c. c \<noteq> CHR ''-'') t)), the (parse_int (tl (dropWhile (\<lambda>c. c \<noteq> CHR ''-'') t))))"

definition demo_exec :: "(int \<Rightarrow> int \<Rightarrow> bool) \<Rightarrow> worker_exec" where
  "demo_exec fits argv st =
     (let (a, b) = demo_range (argv ! 15)
      in if fits a b then (Exited ExitOK '''' '''', st(argv ! 13 \<mapsto> demo_render a b)) else (Exited ExitOOM '''' '''', st(argv ! 13 \<mapsto> '''')))"

definition demo_qpdf :: "string list \<Rightarrow> fs \<Rightarrow> proc" where
  "demo_qpdf argv st =
     (let ps = take (length argv - 4) (drop 2 argv)
      in if list_ex (\<lambda>p. st p = None \<or> st p = Some '''') ps then Exited 2 '''' ''invalid PDF''
         else Exited 0 (concat (map (\<lambda>p. the (st p)) ps)) '''')"

fun demo_ask :: "int \<Rightarrow> worker_ask" where
  "demo_ask n (Load p) st = (Reply [''status'' \<mapsto> JStr ''ok'', ''page_count'' \<mapsto> JInt n], st)"
| "demo_ask n (Render a b p) st = (Reply [''status'' \<mapsto> JStr ''ok''], st(p \<mapsto> demo_render a b))"
| "demo_ask n Quit st = (StdoutEOF, st)"

definition demo_env :: "(int \<Rightarrow> int \<Rightarrow> bool) \<Rightarrow> int \<Rightarrow> (string \<rightharpoonup> string) \<Rightarrow> Env" where
  "demo_env fits pages vars =
     \<lparr>env_os = no_faults, env_exec = demo_exec fits, env_qpdf = demo_qpdf, env_sched = (\<lambda>cs. rev [0..<length cs]), env_clock = (\<lambda>i. int i),
      env_sha = (\<lambda>c. ''a1b2''), env_pid = 7, env_rnd = (\<lambda>i. ''r''),
      env_readers = \<lparr>unzip = (\<lambda>_. Some [(''docProps/app.xml'', Some '''')]), app_props = (\<lambda>_. Some (Some pages, None)),
        unmarshal_probe = (\<lambda>_. Err ''no JSON'')\<rparr>,
      env_oor = (\<lambda>_. 0), env_vars = vars, env_spawn = (\<lambda>_. None), env_ask = (\<lambda>_. demo_ask 4), env_checkout = (\<lambda>_. 0), env_write_error = ''''\<rparr>"

definition demo_world :: World where
  "demo_world = \<lparr>fsys = [''/in'' \<mapsto> ''PK''], ctr = zero_counters,
     stores = \<lparr>Heartbeats = HeartbeatStore, Timings = TimingStore, Progress = NewJobProgressStore\<rparr>, ticks = 0, hung = False\<rparr>"

definition demo_writer :: Writer where "demo_writer = \<lparr>written = '''', w_cap = None, w_called = False\<rparr>"

definition demo_settings :: Settings where "demo_settings = (settings_of id Map.empty)\<lparr>PoolMinChunks := 1\<rparr>"

definition demo_job :: Job where
  "demo_job = job_of ''r1'' ''/in'' FormatDOCX demo_settings \<lparr>cache_dir = '''', asposeVersion = ''v''\<rparr> ''/s''"

definition demo_chunk :: "rat \<Rightarrow> int \<Rightarrow> int \<Rightarrow> Chunk" where
  "demo_chunk i a b = \<lparr>Index = i, PageStart = a, PageEnd = b, NaturalSeam = False\<rparr>"

lemma demo_pdf_render: "1 \<le> a \<Longrightarrow> a \<le> b \<Longrightarrow> b \<le> 255 \<Longrightarrow> demo_pdf (demo_render a b) = Some [a..b]"
  by (auto simp: demo_pdf_def demo_render_def of_char_of intro!: map_idI)

lemma demo_range_itoa:
  assumes "0 \<le> a" "a \<le> 255" "0 \<le> b" "b \<le> 255"
  shows "demo_range (itoa a @ ''-'' @ itoa b) = (a, b)"
proof -
  have "\<forall>c \<in> set (itoa a). c \<noteq> CHR ''-''" using assms(1) utoa_digits by (fastforce simp: itoa_def is_digit_def)
  then have "takeWhile (\<lambda>c. c \<noteq> CHR ''-'') (itoa a @ ''-'' @ itoa b) = itoa a" "dropWhile (\<lambda>c. c \<noteq> CHR ''-'') (itoa a @ ''-'' @ itoa b) = ''-'' @ itoa b"
    by (simp_all add: takeWhile_append2 dropWhile_append2)
  then show ?thesis using assms by (simp add: demo_range_def parse_int_itoa)
qed

lemma demo_worker: "n \<le> 255 \<Longrightarrow> worker_spec demo_pdf n fits doc (demo_exec fits) s fmt input"
  unfolding worker_spec_def
proof (intro allI impI)
  fix a b outp st assume n: "n \<le> 255" and ab: "1 \<le> a \<and> a \<le> b \<and> b \<le> n \<and> st input = Some doc"
  have "render_argv s fmt input a b outp ! 15 = itoa a @ ''-'' @ itoa b" "render_argv s fmt input a b outp ! 13 = outp"
    by (simp_all add: render_argv_def prlimitArgs_def)
  moreover have "demo_range (itoa a @ ''-'' @ itoa b) = (a, b)" by (rule demo_range_itoa) (use n ab in simp_all)
  ultimately show "\<exists>c so se. if fits a b
      then demo_exec fits (render_argv s fmt input a b outp) st = (Exited ExitOK so se, st(outp \<mapsto> c)) \<and> demo_pdf c = Some [a..b]
      else demo_exec fits (render_argv s fmt input a b outp) st = (Exited ExitOOM so se, st(outp \<mapsto> c))"
    using n ab by (intro exI [of _ "if fits a b then demo_render a b else ''''"] exI [of _ "''''"])
      (simp add: demo_exec_def demo_pdf_render)
qed

lemma demo_qpdf_argv: "demo_qpdf (concat_argv ps) st =
    (if list_ex (\<lambda>p. st p = None \<or> st p = Some '''') ps then Exited 2 '''' ''invalid PDF'' else Exited 0 (concat (map (\<lambda>p. the (st p)) ps)) '''')"
  by (simp add: demo_qpdf_def concat_argv_def)

lemma demo_concat:
  assumes "list_all2 (file_pages demo_pdf st) ps ls"
  shows "\<not> list_ex (\<lambda>p. st p = None \<or> st p = Some '''') ps \<and>
    map (\<lambda>x. int (of_char x)) (concat (map (\<lambda>p. the (st p)) ps)) = concat ls \<and> (ps \<noteq> [] \<longrightarrow> concat (map (\<lambda>p. the (st p)) ps) \<noteq> [])"
  using assms
proof (induction rule: list_all2_induct)
  case (Cons p ps l ls)
  then show ?case by (auto simp: file_pages_def demo_pdf_def split: if_splits)
qed simp

lemma demo_qpdf_ok: "qpdf_spec demo_pdf demo_qpdf" "qpdf_returns demo_qpdf" "qpdf_rejects_empty demo_qpdf"
proof -
  show "qpdf_spec demo_pdf demo_qpdf" unfolding qpdf_spec_def
  proof (intro allI impI)
    fix ps ls st assume a: "ps \<noteq> [] \<and> list_all2 (file_pages demo_pdf st) ps ls"
    show "\<exists>outp err. demo_qpdf (concat_argv ps) st = Exited 0 outp err \<and> demo_pdf outp = Some (concat ls)"
      unfolding demo_qpdf_argv using a demo_concat [of st ps ls] by (simp add: demo_pdf_def)
  qed
  show "qpdf_returns demo_qpdf" by (simp add: qpdf_returns_def demo_qpdf_def Let_def)
  show "qpdf_rejects_empty demo_qpdf" unfolding qpdf_rejects_empty_def demo_qpdf_argv by (auto simp: list_ex_iff)
qed

lemma demo_sched: "complete_sched (\<lambda>cs. rev [0..<length cs])"
  by (auto simp: complete_sched_def)

lemma demo_pool: "n \<le> 255 \<Longrightarrow> pool_spec demo_pdf oor n doc input (demo_ask n)"
  by (auto simp: pool_spec_def status_ok_def demo_pdf_render)

lemma demo_range_settings: "settings_in_range demo_settings"
proof -
  have "config_errors id Map.empty = []"
    by (simp add: config_errors_def int_fail_def envInt64_def envPrefix_def fail_def oneOf_def envStr_def)
  then have "settings_in_range (settings_of id Map.empty)" by (rule settings_ranges)
  then show ?thesis by (simp add: demo_settings_def settings_in_range_def)
qed

lemma demo_probe:
  assumes "0 < n" "E = demo_env fits n vars"
  shows "Probe (env_readers E) (env_os E) (env_qpdf E) (env_exec E) demo_settings ''/in'' FormatDOCX (fsys demo_world) =
    (Ok \<lparr>PageCount = n, Format = FormatDOCX, NaturalSeams = [], SizeBytes = 2\<rparr>, fsys demo_world)"
  using assms by (simp add: Probe_def ProbeLite_def ooxmlCount_def zip_open_def run_io_def os_Open_def demo_env_def demo_world_def
      staleMetadataSizeThreshold_def Let_def)

lemma demo_env_sel [simp]:
  "env_os (demo_env fits n vars) = no_faults" "env_exec (demo_env fits n vars) = demo_exec fits" "env_qpdf (demo_env fits n vars) = demo_qpdf"
  "env_sched (demo_env fits n vars) = (\<lambda>cs. rev [0..<length cs])" "env_vars (demo_env fits n vars) = vars" "env_spawn (demo_env fits n vars) i = None"
  "env_ask (demo_env fits n vars) i = demo_ask 4" "env_sha (demo_env fits n vars) c = ''a1b2''"
  by (simp_all add: demo_env_def)

lemma demo_job_sel [simp]:
  "j_settings demo_job = demo_settings" "j_inputPath demo_job = ''/in''" "j_format demo_job = FormatDOCX" "j_scratchDir demo_job = ''/s''"
  "\<not> j_cacheActive demo_job"
  by (simp_all add: demo_job_def job_of_def)

lemma demo_world_sel [simp]: "fsys demo_world = [''/in'' \<mapsto> ''PK'']" "\<not> hung demo_world" "w_cap demo_writer = None" "written demo_writer = ''''"
  by (simp_all add: demo_world_def demo_writer_def)

text \<open>Chunks of at most six pages are halved at most once when three pages fit.\<close>

lemma demo_renderable: "in_doc 6 c \<Longrightarrow> renderable (\<lambda>a b. b < a + 3) c"
proof -
  assume doc: "in_doc 6 c"
  show ?thesis
  proof (cases "Pages c \<le> 3")
    case True
    then show ?thesis by (simp add: renderable_def chunk_fits_def Pages_def)
  next
    case False
    have "Pages d \<le> 3" if "d \<in> set (Subdivide c)" for d
      using that doc False Subdivide_cases [of c] by (auto simp: in_doc_def Pages_def split: if_splits)
    then have "list_all (chunk_fits (\<lambda>a b. b < a + 3)) (Subdivide c)"
      by (fastforce simp: chunk_fits_def Pages_def list_all_iff)
    with False show ?thesis by (simp add: renderable_def)
  qed
qed

lemma convert_uncached_err:
  assumes "Probe (env_readers E) (env_os E) (env_qpdf E) (env_exec E) (j_settings J) (j_inputPath J) (j_format J) (fsys w) = (Ok pr, s1)"
    and "plan = PlanChunks pr (eff_max_pages E (j_settings J) pr) (MaxMBPerChunk (j_settings J))"
    and "dispatch E (J\<lparr>j_format := Format pr\<rparr>) plan (eff_max_pages E (j_settings J) pr) pr (loading E (j_requestID J) plan (w\<lparr>fsys := s1\<rparr>)) =
      (Err e, w2)"
    and "\<not> hung w2"
  shows "convert_uncached E J started dst w = Some (Err e, dst, w2)"
  unfolding convert_uncached_def Let_def assms(1) prod.case sum.case assms(2) [symmetric] loading_def [symmetric] assms(3)
  using assms(4) by simp

text \<open>
  The whole pipeline, one-shot mode. When the probe gives a page count (and seams that tile the
  document or none), the worker writes the pages it is asked for or is killed for memory, every
  chunk of the plan fits into memory at once or in two halves, \<^verbatim>\<open>qpdf\<close> concatenates, and the renders
  complete in any order, then \<^verbatim>\<open>ConvertJob\<close> returns a result and the client has received one PDF with
  exactly the pages \<open>1, \<dots>, PageCount\<close> in order.
\<close>

lemma ConvertJob_one_shot:
  assumes "worker_spec pdf (PageCount pr) fits doc (env_exec E) s (Format pr) input" "qpdf_spec pdf (env_qpdf E)"
    and "env_os E = no_faults" "complete_sched (env_sched E)" "\<not> (Types.Cache opts \<and> Enabled m)"
    and "Probe (env_readers E) (env_os E) (env_qpdf E) (env_exec E) s input fmt (fsys w0) = (Ok pr, fsys w0)"
    and "0 < PageCount pr" "PageCount pr \<le> 1000000" "NaturalSeams pr = [] \<or> seams_tile (NaturalSeams pr) 1 (PageCount pr)"
    and "plan = PlanChunks pr (eff_max_pages E s pr) (MaxMBPerChunk s)"
    and "\<not> PoolModeAvailable (env_vars E) \<or> int (length (Chunks plan)) < PoolMinChunks s"
    and "list_all (renderable fits) (Chunks plan)"
    and "fsys w0 input = Some doc" "\<not> has_prefix input (scratch @ ''/chunk-'')" "\<not> hung w0" "w_cap dst = None"
  shows "\<exists>res dst' w' outp. ConvertJob E rid input fmt opts s m scratch dst w0 = Some (Ok res, dst', w') \<and>
    written dst' = written dst @ outp \<and> pdf outp = Some [1..PageCount pr]"
proof -
  define J where "J = (job_of rid input fmt s m scratch)\<lparr>j_format := Format pr\<rparr>"
  define w where "w = w0\<lparr>ticks := ticks w0 + 1, ctr := zero_counters\<rparr>"
  define w1 where "w1 = loading E rid plan w"
  have J: "j_settings J = s" "j_format J = Format pr" "j_inputPath J = input" "j_scratchDir J = scratch" "\<not> j_cacheActive J"
    by (simp_all add: J_def job_of_def)
  note cover = eff_plan_cover [OF assms(7-9), of "eff_max_pages E s pr" "MaxMBPerChunk s", folded assms(10)]
  have "fsys w1 (j_inputPath J) = Some doc" using assms(13) J(3) by (simp add: w1_def w_def loading_def)
  from dispatchOneShot_ok [of pdf "PageCount pr" fits doc E J plan w1] this J assms cover obtain cps w2 where
    disp: "dispatchOneShot E J plan w1 = (Ok cps, w2)" "map fst cps = Chunks plan" "hung w2 = hung w1"
      "\<forall>cp \<in> set cps. file_pages pdf (fsys w2) (snd cp) (chunk_pages (fst cp))" by auto
  from merge_and_finish_ok [OF assms(2) J(5) assms(16) cover(1,4,3) disp(2,4), of "env_clock E (ticks w0)"] cover(2)
  obtain res dst' w' outp where fin: "merge_and_finish E J (env_clock E (ticks w0)) cps dst w2 = Some (Ok res, dst', w')"
      "written dst' = written dst @ outp" "pdf outp = Some [1..PageCount pr]" by auto
  have "\<not> hung w2" using disp(3) assms(15) by (simp add: w1_def w_def loading_def)
  have "convert_uncached E (job_of rid input fmt s m scratch) (env_clock E (ticks w0)) dst w =
      merge_and_finish E J (env_clock E (ticks w0)) cps dst w2"
    unfolding J_def by (rule convert_uncached_run [where pr = pr and ?s1.0 = "fsys w0" and plan = plan])
      (use assms(6,10,11) disp(1) \<open>\<not> hung w2\<close> in \<open>auto simp: job_of_def J_def w1_def w_def dispatch_def\<close>)
  with fin show ?thesis unfolding ConvertJob_inactive [OF assms(5)] w_def by auto
qed

section \<open>Properties\<close>





text \<open>
  C4: convert, then convert again. When a job with the cache on has succeeded and its upload is still in
  place, a second job for the same document and cache, by any client, succeeds from the final layer alone:
  no chunk is rendered, the file system stays as it is, and the client receives the same bytes.
\<close>

theorem convert_twice_same_bytes:
  assumes "ConvertJob E rid input fmt opts s m scratch dst w0 = Some (Ok res, dst', w1)"
    and "Types.Cache opts" "Enabled m" "env_os E = no_faults" "fsys w0 input = Some doc" "sha_key (env_sha E doc)" "w_cap dst = None"
    and "fsys w2 = fsys w1" "fsys w2 input' = Some doc" "w_cap dst2 = None"
  shows "\<exists>c res2 w3. written dst' = written dst @ c \<and>
    ConvertJob E rid2 input' fmt2 opts s2 m scratch2 dst2 w2 = Some (Ok res2, received dst2 c, w3) \<and>
    fsys w3 = fsys w2 \<and> ChunksRendered res2 = 0 \<and> CacheHits res2 = 1"
proof -
  obtain c where c: "written dst' = written dst @ c" "fsys w1 (finalPath m (env_sha E doc)) = Some c"
    using ConvertJob_fills [OF assms(1-7)] by blast
  have "fsys w2 (finalPath m (env_sha E doc)) = Some c" using c(2) assms(8) by simp
  from ConvertJob_hit [where ?w0.0 = w2, OF assms(2-4,9,6) this assms(10), of rid2 fmt2 s2 scratch2] c(1) show ?thesis by blast
qed

theorem convert_twice_same_bytes_witness:
  "\<exists>c res w. ConvertJob (demo_env (\<lambda>a b. True) 6 Map.empty) ''r2'' ''/in'' FormatDOCX \<lparr>Cache = True, LogLevel = ''''\<rparr> demo_settings
      \<lparr>cache_dir = ''/c'', asposeVersion = ''v''\<rparr> ''/t'' demo_writer (demo_world\<lparr>fsys := [''/in'' \<mapsto> ''PK'', ''/c/v/final/a1b2.pdf'' \<mapsto> ''PDF'']\<rparr>) =
    Some (Ok res, received demo_writer c, w) \<and> CacheHits res = 1"
proof -
  define E where "E = demo_env (\<lambda>a b. True) 6 Map.empty"
  define m where "m = \<lparr>cache_dir = ''/c'', asposeVersion = ''v''\<rparr>"
  define w0 where "w0 = demo_world\<lparr>fsys := [''/in'' \<mapsto> ''PK'', ''/c/v/final/a1b2.pdf'' \<mapsto> ''PDF'']\<rparr>"
  have env: "env_os E = no_faults" "env_sha E ''PK'' = ''a1b2''" by (simp_all add: E_def)
  have m: "Enabled m" "sha_key ''a1b2''" by (simp_all add: m_def Enabled_def sha_key_def)
  have "finalPath m ''a1b2'' = ''/c/v/final/a1b2.pdf''" by (simp add: m_def finalPath_def path_join_def) code_simp
  then have final: "fsys w0 (finalPath m (env_sha E ''PK'')) = Some ''PDF''" "fsys w0 ''/in'' = Some ''PK''" by (simp_all add: w0_def env)
  have cap: "w_cap demo_writer = None" "Types.Cache \<lparr>Cache = True, LogLevel = ''''\<rparr>" by simp_all
  from ConvertJob_hit [where ?w0.0 = w0, OF cap(2) m(1) env(1) final(2) _ final(1) cap(1), of "''r1''" FormatDOCX demo_settings "''/s''"]
  obtain res w1 where first: "ConvertJob E ''r1'' ''/in'' FormatDOCX \<lparr>Cache = True, LogLevel = ''''\<rparr> demo_settings m ''/s'' demo_writer w0 =
      Some (Ok res, received demo_writer ''PDF'', w1)" "fsys w1 = fsys w0" using m env by auto
  from convert_twice_same_bytes [OF first(1) cap(2) m(1) env(1) final(2) _ cap(1), of w0 "''/in''" demo_writer "''r2''" FormatDOCX demo_settings "''/t''"]
    first(2) m(2) env(2) final(2) cap show ?thesis unfolding E_def m_def w0_def by auto
qed

text \<open>
  C36: the retry reuses the index of a chunk for its first half, and with it the name of the merged file.
  When the left half of a too large chunk is too large again, its merged file is also the output of the
  outer merge, which is truncated before \<^verbatim>\<open>qpdf\<close> reads it: the chunk fails with a merge error in every
  order of the renders, although all its parts fit into memory.
\<close>

theorem left_subdivision_merge_fails:
  assumes "worker_spec pdf n fits doc (env_exec E) (j_settings J) (j_format J) (j_inputPath J)" "qpdf_spec pdf (env_qpdf E)"
      "qpdf_rejects_empty (env_qpdf E)"
    and "env_os E = no_faults" "complete_sched (env_sched E)" "\<not> j_cacheActive J"
    and "in_doc n c" "whole_index (Index c)" "\<not> chunk_fits fits c" "Subdivide c = [l, r]" "chunk_fits fits r"
    and "\<not> chunk_fits fits l" "2 \<le> Pages l" "list_all (chunk_fits fits) (Subdivide l)"
    and "fsys w (j_inputPath J) = Some doc" "\<not> has_prefix (j_inputPath J) (j_scratchDir J @ ''/chunk-'')"
  shows "\<exists>rc err w'. renderWithRetry E J d False c w = (Err (OError (NewMerge rc err)), w') \<and> rc \<noteq> 0"
  using assms by (rule retry_left_nested)

theorem left_subdivision_merge_fails_witness:
  "\<exists>rc err w'. renderWithRetry (demo_env (\<lambda>a b. a = b \<or> a = 3) 4 Map.empty) demo_job 0 False (demo_chunk 0 1 4) demo_world =
     (Err (OError (NewMerge rc err)), w') \<and> rc \<noteq> 0"
proof -
  define fits where "fits = (\<lambda>a b :: int. a = b \<or> a = 3)"
  have idx: "whole_index 0" "half_index 0" unfolding whole_index_def half_index_def by (rule exI [of _ 0], simp)+
  have sub: "Subdivide (demo_chunk 0 1 4) = [demo_chunk 0 1 2, demo_chunk (1 / 2) 3 4]"
      "Subdivide (demo_chunk 0 1 2) = [demo_chunk 0 1 1, demo_chunk (1 / 2) 2 2]"
    using half_fadd [OF idx(2)] by (simp_all add: Subdivide_def demo_chunk_def Let_def subdivisionFloorPages_def)
  have subs: "list_all (chunk_fits fits) (Subdivide (demo_chunk 0 1 2))" unfolding sub(2) by (simp add: chunk_fits_def fits_def demo_chunk_def)
  have "\<exists>rc err w'. renderWithRetry (demo_env fits 4 Map.empty) demo_job 0 False (demo_chunk 0 1 4) demo_world =
     (Err (OError (NewMerge rc err)), w') \<and> rc \<noteq> 0"
    by (rule left_subdivision_merge_fails [where pdf = demo_pdf and n = 4 and fits = fits and doc = "''PK''", OF _ _ _ _ _ _ _ _ _ sub(1) _ _ _ subs])
      (use demo_worker [of 4 fits] demo_qpdf_ok demo_sched idx(1) in \<open>simp_all add: in_doc_def chunk_fits_def demo_chunk_def fits_def Pages_def has_prefix_def\<close>)
  then show ?thesis by (simp add: fits_def)
qed

text \<open>
  C37: a second subdivision on the right reaches the index of the next chunk, and so its file. When the
  next chunk has been rendered first, its file is overwritten with the last quarter of this chunk and the
  call still reports success: the result repeats those pages and lacks the pages of the next chunk.
\<close>

theorem right_subdivision_overwrites_next:
  assumes "worker_spec pdf n fits doc (env_exec E) (j_settings J) (j_format J) (j_inputPath J)" "qpdf_spec pdf (env_qpdf E)"
    and "env_os E = no_faults" "complete_sched (env_sched E)" "\<not> j_cacheActive J" "env_sched E [c, c'] = [1, 0]"
    and "in_doc n c" "whole_index (Index c)" "whole_index (Index c + 1)" "\<not> chunk_fits fits c" "Subdivide c = [l, r]" "chunk_fits fits l"
    and "\<not> chunk_fits fits r" "2 \<le> Pages r" "list_all (chunk_fits fits) (Subdivide r)" "Subdivide r = [rl, rr]"
    and "in_doc n c'" "chunk_fits fits c'" "Index c' = Index c + 1"
    and "fsys w (j_inputPath J) = Some doc" "\<not> has_prefix (j_inputPath J) (j_scratchDir J @ ''/chunk-'')"
  shows "\<exists>p p' w'. renderAll (env_sched E) False [c, c'] (renderWithRetry E J 0) w = (Ok [(c, p), (c', p')], w') \<and>
    file_pages pdf (fsys w') p (chunk_pages c) \<and> file_pages pdf (fsys w') p' (chunk_pages rr)"
proof -
  from retry_fits [OF assms(1,5,18,17,20), of 0 False] obtain x w1 where one:
    "renderWithRetry E J 0 False c' w = (Ok (chunk_output (j_scratchDir J) c'), w1)"
    "fsys w1 = (fsys w)(chunk_output (j_scratchDir J) c' \<mapsto> x)" by blast
  have "j_inputPath J \<noteq> chunk_output (j_scratchDir J) c'" using assms(21) by (auto simp: chunk_output_def has_prefix_def)
  with one(2) assms(20) have "fsys w1 (j_inputPath J) = Some doc" by simp
  from retry_right_nested [OF assms(1-5,7-16) this assms(21), of 0] obtain w2 where two:
    "renderWithRetry E J 0 False c w1 = (Ok (merged_path (j_scratchDir J) c), w2)"
    "file_pages pdf (fsys w2) (merged_path (j_scratchDir J) c) (chunk_pages c)"
    "file_pages pdf (fsys w2) (chunk_output (j_scratchDir J) c') (chunk_pages rr)" by (auto simp: chunk_output_def assms(19))
  have "renderAll (env_sched E) False [c, c'] (renderWithRetry E J 0) w =
      (Ok [(c, merged_path (j_scratchDir J) c), (c', chunk_output (j_scratchDir J) c')], w2)"
    using one(1) two(1) assms(6) by (simp add: renderAll_def render_one_def slot_value_def numeral_2_eq_2)
  with two(2,3) show ?thesis by blast
qed

theorem right_subdivision_overwrites_next_witness:
  "\<exists>p p' w'. renderAll (\<lambda>cs. rev [0..<length cs]) False [demo_chunk 0 1 4, demo_chunk 1 5 6]
      (renderWithRetry (demo_env (\<lambda>a b. a = b \<or> a = 1 \<and> b = 2 \<or> a = 5) 6 Map.empty) demo_job 0) demo_world =
      (Ok [(demo_chunk 0 1 4, p), (demo_chunk 1 5 6, p')], w') \<and>
    file_pages demo_pdf (fsys w') p [1, 2, 3, 4] \<and> file_pages demo_pdf (fsys w') p' [4]"
proof -
  define fits where "fits = (\<lambda>a b :: int. a = b \<or> a = 1 \<and> b = 2 \<or> a = 5)"
  have idx: "whole_index 0" "whole_index 1" unfolding whole_index_def by (rule exI [of _ 0], simp) (rule exI [of _ 1], simp)
  have half: "fadd 0 (1 / 2) = 1 / 2" "fadd (1 / 2) (1 / 2) = 1"
    using half_fadd [of 0] half_fadd [of "1 / 2"] whole_half [OF idx(1)] by simp_all
  have sub: "Subdivide (demo_chunk 0 1 4) = [demo_chunk 0 1 2, demo_chunk (1 / 2) 3 4]"
      "Subdivide (demo_chunk (1 / 2) 3 4) = [demo_chunk (1 / 2) 3 3, demo_chunk 1 4 4]"
    using half by (simp_all add: Subdivide_def demo_chunk_def Let_def subdivisionFloorPages_def)
  have subs: "list_all (chunk_fits fits) (Subdivide (demo_chunk (1 / 2) 3 4))" unfolding sub(2) by (simp add: chunk_fits_def fits_def demo_chunk_def)
  have pages: "chunk_pages (demo_chunk 0 1 4) = [1, 2, 3, 4]" "chunk_pages (demo_chunk 1 4 4) = [4]"
    by (simp_all add: chunk_pages_def demo_chunk_def upto.simps)
  have "\<exists>p p' w'. renderAll (env_sched (demo_env fits 6 Map.empty)) False [demo_chunk 0 1 4, demo_chunk 1 5 6]
      (renderWithRetry (demo_env fits 6 Map.empty) demo_job 0) demo_world = (Ok [(demo_chunk 0 1 4, p), (demo_chunk 1 5 6, p')], w') \<and>
    file_pages demo_pdf (fsys w') p (chunk_pages (demo_chunk 0 1 4)) \<and> file_pages demo_pdf (fsys w') p' (chunk_pages (demo_chunk 1 4 4))"
    by (rule right_subdivision_overwrites_next [where n = 6 and fits = fits and doc = "''PK''", OF _ _ _ _ _ _ _ _ _ _ sub(1) _ _ _ subs sub(2)])
      (use demo_worker [of 6 fits] demo_qpdf_ok demo_sched idx in
        \<open>simp_all add: in_doc_def chunk_fits_def demo_chunk_def fits_def Pages_def has_prefix_def upt_rec\<close>)
  then show ?thesis by (simp add: pages fits_def)
qed

end
