(* ===== verification/Ratelimit.thy ===== *)
theory Ratelimit
  imports Errors "HOL-Library.AList"
begin

text \<open>
  \<^verbatim>\<open>internal/ratelimit/ratelimit.go\<close>: a token bucket per client, with a bounded number of clients.
  The Go map from clients to list elements is an association list, the linked list of the least
  recently used clients the list of their names. The mutex is held for the whole of \<^verbatim>\<open>Check\<close>, so a run of
  the limiter is a sequence of calls. The two clock readings of \<^verbatim>\<open>Check\<close> are its arguments: \<open>now\<close> in
  nanoseconds of the monotonic clock, \<open>wall\<close> in nanoseconds since the epoch.
\<close>

section \<open>Definitions\<close>

record Decision =
  Allowed :: bool
  Limit :: int
  Remaining :: int
  ResetEpochSeconds :: int
  RetryAfterSeconds :: int

record bucket =
  tokens :: rat
  last_seen :: int

record Limiter =
  perMinute :: int
  burst :: int
  maxKeys :: int
  refillPerSec :: rat
  buckets :: "(string \<times> bucket) list"
  lru :: "string list"

definition ratelimit_New :: "int \<Rightarrow> int \<Rightarrow> int \<Rightarrow> (go_error, Limiter) result" where
  "ratelimit_New pm bst keys =
     (if pm < 1 \<or> bst < 1 \<or> keys < 1
      then Err (Panic ''ratelimit: per_minute/burst/max_keys must be >= 1'')
      else Ok \<lparr>perMinute = pm, burst = bst, maxKeys = keys, refillPerSec = fdiv (fl pm) 60, buckets = [], lru = []\<rparr>)"

definition minF :: "rat \<Rightarrow> rat \<Rightarrow> rat" where
  "minF a b = (if a < b then a else b)"

text \<open>The bucket of a known client with the tokens of the time since its last request.\<close>

definition refill :: "Limiter \<Rightarrow> int \<Rightarrow> bucket \<Rightarrow> rat" where
  "refill l now b = minF (fl (burst l)) (fadd (tokens b) (fmul (seconds (now - last_seen b)) (refillPerSec l)))"

definition evict_front :: "Limiter \<Rightarrow> Limiter" where
  "evict_front l =
     (case lru l of [] \<Rightarrow> l | oldest # rest \<Rightarrow> l\<lparr>buckets := AList.delete oldest (buckets l), lru := rest\<rparr>)"

text \<open>The tokens that \<^verbatim>\<open>Check\<close> finds for a client, and the limiter with room for it.\<close>

definition find_bucket :: "int \<Rightarrow> string \<Rightarrow> Limiter \<Rightarrow> rat \<times> Limiter" where
  "find_bucket now c l =
     (case map_of (buckets l) c of
        Some b \<Rightarrow> (refill l now b, l\<lparr>lru := remove1 c (lru l) @ [c]\<rparr>)
      | None \<Rightarrow> (fl (burst l), if int (length (buckets l)) \<ge> maxKeys l then evict_front l else l))"

definition put_bucket :: "string \<Rightarrow> bucket \<Rightarrow> Limiter \<Rightarrow> Limiter" where
  "put_bucket c b l =
     (if map_of (buckets l) c \<noteq> None then l\<lparr>buckets := AList.update c b (buckets l)\<rparr>
      else l\<lparr>buckets := AList.update c b (buckets l), lru := lru l @ [c]\<rparr>)"

definition retry_after :: "(rat \<Rightarrow> int) \<Rightarrow> Limiter \<Rightarrow> rat \<Rightarrow> int" where
  "retry_after oor l t =
     (let r = f2i oor (fdiv (fsub 1 t) (refillPerSec l)) + 1 in if r < 1 then 1 else r)"

definition Check :: "(rat \<Rightarrow> int) \<Rightarrow> int \<Rightarrow> int \<Rightarrow> string \<Rightarrow> Limiter \<Rightarrow> Decision \<times> Limiter" where
  "Check oor now wall c l =
     (let (t, l1) = find_bucket now c l;
          allowed = (t \<ge> 1);
          t' = (if allowed then fsub t 1 else t);
          l2 = put_bucket c \<lparr>tokens = t', last_seen = now\<rparr> l1;
          secondsToFull = fdiv (fsub (fl (burst l)) t') (refillPerSec l);
          resetEpoch = (wall + f2i oor (fmul secondsToFull (10 ^ 9))) div 10 ^ 9
      in (\<lparr>Allowed = allowed, Limit = perMinute l, Remaining = f2i oor t', ResetEpochSeconds = resetEpoch,
           RetryAfterSeconds = (if allowed then 0 else retry_after oor l t')\<rparr>, l2))"

text \<open>The client of a request, from its \<^verbatim>\<open>X-Forwarded-For\<close> header (empty when absent) and its address.\<close>

definition ClientIDFor :: "string \<Rightarrow> string \<Rightarrow> bool \<Rightarrow> string" where
  "ClientIDFor xff RemoteAddr trustXFF =
     (let first = trim_space (fst (cut (CHR '','') xff));
          host = (case cut_last (CHR '':'') RemoteAddr of None \<Rightarrow> RemoteAddr | Some (a, b) \<Rightarrow> butlast a)
      in if trustXFF \<and> xff \<noteq> '''' \<and> first \<noteq> '''' then first
         else if host = '''' then ''unknown'' else host)"

text \<open>A run: the requests in the order in which they get the mutex, with their clock readings.\<close>

type_synonym request = "string \<times> int \<times> int"

fun checks :: "(rat \<Rightarrow> int) \<Rightarrow> request list \<Rightarrow> Limiter \<Rightarrow> Decision list \<times> Limiter" where
  "checks oor [] l = ([], l)"
| "checks oor ((c, now, wall) # rs) l =
     (let (d, l1) = Check oor now wall c l; (ds, l2) = checks oor rs l1 in (d # ds, l2))"

abbreviation request_time :: "request \<Rightarrow> int" where "request_time r \<equiv> fst (snd r)"

section \<open>The invariant\<close>

definition limiter_inv :: "int \<Rightarrow> Limiter \<Rightarrow> bool" where
  "limiter_inv now l \<longleftrightarrow>
     1 \<le> perMinute l \<and> 1 \<le> burst l \<and> burst l < 2 ^ 53 \<and> 1 \<le> maxKeys l \<and> refillPerSec l = fdiv (fl (perMinute l)) 60 \<and>
     distinct (map fst (buckets l)) \<and> distinct (lru l) \<and> set (lru l) = fst ` set (buckets l) \<and>
     int (length (buckets l)) \<le> maxKeys l \<and>
     (\<forall>c b. map_of (buckets l) c = Some b \<longrightarrow> 0 \<le> tokens b \<and> tokens b \<le> of_int (burst l) \<and> last_seen b \<le> now)"

lemma limiter_inv_later: "limiter_inv now l \<Longrightarrow> now \<le> now' \<Longrightarrow> limiter_inv now' l"
  unfolding limiter_inv_def by (meson order_trans)

lemma limiter_inv_New: "ratelimit_New pm bst keys = Ok l \<Longrightarrow> bst < 2 ^ 53 \<Longrightarrow> limiter_inv now l"
  by (auto simp: ratelimit_New_def limiter_inv_def split: if_splits)

lemma Check_config:
  "perMinute (snd (Check oor now wall c l)) = perMinute l" "burst (snd (Check oor now wall c l)) = burst l"
  "maxKeys (snd (Check oor now wall c l)) = maxKeys l" "refillPerSec (snd (Check oor now wall c l)) = refillPerSec l"
  by (auto simp: Check_def Let_def find_bucket_def put_bucket_def evict_front_def split: option.splits list.splits)

text \<open>The tokens found are never negative and never above the burst.\<close>

lemma refill_bounds:
  assumes "limiter_inv now l" "map_of (buckets l) c = Some b"
  shows "0 \<le> refill l now b" "refill l now b \<le> of_int (burst l)"
proof -
  have b: "0 \<le> tokens b" "last_seen b \<le> now" and l: "refillPerSec l = fdiv (fl (perMinute l)) 60" "1 \<le> perMinute l" "1 \<le> burst l" "burst l < 2 ^ 53"
    using assms unfolding limiter_inv_def by simp_all
  have "0 \<le> refillPerSec l" using l by (simp add: fdiv_nonneg fl_nonneg)
  with b have "0 \<le> fadd (tokens b) (fmul (seconds (now - last_seen b)) (refillPerSec l))"
    unfolding fadd_def by (intro f64.rnd_nonneg add_nonneg_nonneg fmul_nonneg seconds_nonneg) simp_all
  moreover have "fl (burst l) = of_int (burst l)" using l by (simp add: fl_int)
  ultimately show "0 \<le> refill l now b" "refill l now b \<le> of_int (burst l)"
    using l by (simp_all add: refill_def minF_def)
qed

lemma find_bucket_bounds:
  assumes "limiter_inv now l" "find_bucket now c l = (t, l1)"
  shows "0 \<le> t" "t \<le> of_int (burst l)"
  using assms refill_bounds [OF assms(1), of c] unfolding find_bucket_def
  by (auto simp: limiter_inv_def fl_int split: option.splits)

text \<open>Room for the client: afterwards one more bucket fits, or the client already has one.\<close>

lemma length_delete_less: "k \<in> fst ` set al \<Longrightarrow> length (AList.delete k al) < length al"
  by (auto simp: AList.delete_eq intro!: length_filter_less)

lemma limiter_inv_evict:
  assumes "limiter_inv now l" "lru l = oldest # rest"
  shows "limiter_inv now (evict_front l)" "length (buckets (evict_front l)) < length (buckets l)"
proof -
  have "oldest \<in> fst ` set (buckets l)" using assms by (auto simp: limiter_inv_def)
  then have less: "length (AList.delete oldest (buckets l)) < length (buckets l)" by (rule length_delete_less)
  then show "length (buckets (evict_front l)) < length (buckets l)" using assms(2) by (simp add: evict_front_def)
  have "set rest = fst ` set (buckets l) - {oldest}" using assms by (auto simp: limiter_inv_def)
  also have "\<dots> = set (removeAll oldest (map fst (buckets l)))" by simp
  finally have rest: "set rest = fst ` set (AList.delete oldest (buckets l))" unfolding AList.delete_keys [symmetric] by simp
  have le: "int (length (AList.delete oldest (buckets l))) \<le> maxKeys l" "distinct (map fst (AList.delete oldest (buckets l)))"
    using less assms(1) by (simp_all add: limiter_inv_def AList.distinct_delete)
  have "0 \<le> tokens b \<and> tokens b \<le> of_int (burst l) \<and> last_seen b \<le> now" if "map_of (AList.delete oldest (buckets l)) c = Some b" for c b
  proof -
    have "map_of (buckets l) c = Some b" using that by (simp add: AList.delete_conv' split: if_splits)
    then show ?thesis using assms(1) unfolding limiter_inv_def by metis
  qed
  with rest le assms show "limiter_inv now (evict_front l)"
    unfolding limiter_inv_def evict_front_def by (simp del: map_of_eq_Some_iff)
qed

lemma limiter_inv_touch:
  assumes "limiter_inv now l" "c \<in> set (lru l)"
  shows "limiter_inv now (l\<lparr>lru := remove1 c (lru l) @ [c]\<rparr>)"
proof -
  have "distinct (lru l)" using assms(1) by (simp add: limiter_inv_def)
  with assms(2) have "distinct (remove1 c (lru l) @ [c])" "set (remove1 c (lru l) @ [c]) = set (lru l)" by auto
  with assms(1) show ?thesis by (simp add: limiter_inv_def)
qed

lemma find_bucket_room:
  assumes inv: "limiter_inv now l" and f: "find_bucket now c l = (t, l1)"
  shows "limiter_inv now l1 \<and> (map_of (buckets l1) c = None \<longrightarrow> int (length (buckets l1)) < maxKeys l1) \<and>
    map_of (buckets l1) c = map_of (buckets l) c \<and> t = (case map_of (buckets l) c of None \<Rightarrow> of_int (burst l) | Some b \<Rightarrow> refill l now b)"
proof (cases "map_of (buckets l) c")
  case (Some b)
  then have "c \<in> fst ` set (buckets l)" by (metis domI dom_map_of_conv_image_fst)
  then have "c \<in> set (lru l)" using inv by (simp add: limiter_inv_def)
  with Some f limiter_inv_touch [OF inv] show ?thesis
    by (auto simp: find_bucket_def)
next
  case None
  have burst: "fl (burst l) = of_int (burst l)" using inv by (simp add: limiter_inv_def fl_int)
  show ?thesis
  proof (cases "int (length (buckets l)) \<ge> maxKeys l")
    case True
    with inv have "set (lru l) \<noteq> {}" by (auto simp: limiter_inv_def)
    then obtain k ks where lru: "lru l = k # ks" by (cases "lru l") auto
    from limiter_inv_evict [OF inv this] inv have "limiter_inv now (evict_front l)" "int (length (buckets (evict_front l))) < maxKeys l"
      by (auto simp: limiter_inv_def)
    with True None f lru burst show ?thesis by (auto simp: find_bucket_def evict_front_def AList.delete_conv')
  next
    case False
    with None f inv burst show ?thesis by (auto simp: find_bucket_def)
  qed
qed

lemma limiter_inv_put:
  assumes inv: "limiter_inv now l" and room: "map_of (buckets l) c = None \<Longrightarrow> int (length (buckets l)) < maxKeys l"
    and b: "0 \<le> tokens b" "tokens b \<le> of_int (burst l)" "last_seen b \<le> now"
  shows "limiter_inv now (put_bucket c b l)"
proof -
  have len: "length (AList.update c b al) = (if map_of al c = None then Suc (length al) else length al)" for al
    by (induction al) auto
  show ?thesis
  proof (cases "map_of (buckets l) c")
    case None
    then have "c \<notin> fst ` set (buckets l)" by (simp add: map_of_eq_None_iff)
    with None assms show ?thesis
      by (auto simp: limiter_inv_def put_bucket_def len AList.dom_update AList.distinct_update AList.update_conv' split: if_splits)
  next
    case (Some b')
    then have "c \<in> fst ` set (buckets l)" by (metis domI dom_map_of_conv_image_fst)
    with Some assms show ?thesis
      by (auto simp: limiter_inv_def put_bucket_def len AList.dom_update AList.distinct_update AList.update_conv' split: if_splits)
  qed
qed

text \<open>What one call does, over the invariant.\<close>

lemma Check_cases:
  assumes inv: "limiter_inv now l" and chk: "Check oor now wall c l = (d, l')"
  obtains t where "t = (case map_of (buckets l) c of None \<Rightarrow> of_int (burst l) | Some b \<Rightarrow> refill l now b)"
    and "0 \<le> t" "t \<le> of_int (burst l)" and "Allowed d = (1 \<le> t)"
    and "map_of (buckets l') c = Some \<lparr>tokens = (if 1 \<le> t then fsub t 1 else t), last_seen = now\<rparr>"
    and "Remaining d = f2i oor (if 1 \<le> t then fsub t 1 else t)" and "Limit d = perMinute l"
    and "RetryAfterSeconds d = (if 1 \<le> t then 0 else retry_after oor l t)" and "limiter_inv now l'"
proof -
  obtain t l1 where f: "find_bucket now c l = (t, l1)" by fastforce
  note room = find_bucket_room [OF inv f]
  note t = find_bucket_bounds [OF inv f]
  have burst: "burst l1 = burst l" using f by (auto simp: find_bucket_def evict_front_def split: option.splits list.splits if_splits)
  define b where "b = \<lparr>tokens = (if 1 \<le> t then fsub t 1 else t), last_seen = now\<rparr>"
  have "fsub t 1 \<le> of_int (burst l)"
    using t inv f64.rnd_le_int [of "burst l" "t - 1"] by (simp add: fsub_def limiter_inv_def)
  then have "0 \<le> tokens b" "tokens b \<le> of_int (burst l1)" "last_seen b \<le> now"
    using t by (auto simp: b_def fsub_def f64.rnd_nonneg burst)
  with limiter_inv_put [of now l1 c b] room have "limiter_inv now (put_bucket c b l1)" by simp
  moreover have "map_of (buckets (put_bucket c b l1)) c = Some b" by (simp add: put_bucket_def AList.update_conv')
  ultimately show ?thesis using that [of t] chk t room by (auto simp: Check_def Let_def f b_def)
qed

lemma checks_Cons:
  "checks oor (r # rs) l =
     (fst (Check oor (request_time r) (snd (snd r)) (fst r) l) # fst (checks oor rs (snd (Check oor (request_time r) (snd (snd r)) (fst r) l))),
      snd (checks oor rs (snd (Check oor (request_time r) (snd (snd r)) (fst r) l))))"
  by (cases r) (simp add: split_beta)

lemma limiter_inv_checks:
  "limiter_inv t l \<Longrightarrow> sorted (map request_time rs) \<Longrightarrow> \<forall>r \<in> set rs. t \<le> request_time r \<Longrightarrow> \<forall>r \<in> set rs. request_time r \<le> t' \<Longrightarrow> t \<le> t' \<Longrightarrow>
     limiter_inv t' (snd (checks oor rs l))"
proof (induction rs arbitrary: t l)
  case Nil
  then show ?case by (simp add: limiter_inv_later)
next
  case (Cons r rs)
  obtain c now wall where r: "r = (c, now, wall)" by (cases r)
  obtain d l1 where chk: "Check oor now wall c l = (d, l1)" by fastforce
  have "limiter_inv now l" using Cons.prems(1,3) r by (auto intro: limiter_inv_later)
  from Check_cases [OF this chk] have "limiter_inv now l1" by blast
  with Cons.IH [OF this] Cons.prems r chk show ?case by (auto simp: split_beta)
qed

text \<open>Requests of others leave the bucket of a client alone or drop it.\<close>

lemma Check_other:
  assumes "c' \<noteq> c"
  shows "map_of (buckets (snd (Check oor now wall c' l))) c \<in> {None, map_of (buckets l) c}"
  using assms by (auto simp: Check_def Let_def find_bucket_def put_bucket_def evict_front_def AList.update_conv' AList.delete_conv'
      split: option.splits list.splits)

lemma checks_other:
  "\<forall>r \<in> set rs. fst r \<noteq> c \<Longrightarrow> map_of (buckets (snd (checks oor rs l))) c \<in> {None, map_of (buckets l) c}"
proof (induction rs arbitrary: l)
  case (Cons r rs)
  obtain c' now wall where r: "r = (c', now, wall)" by (cases r)
  have "map_of (buckets (snd (checks oor rs (snd (Check oor now wall c' l))))) c \<in> {None, map_of (buckets (snd (Check oor now wall c' l))) c}"
    using Cons by simp
  with Check_other [of c' c oor now wall l] Cons.prems r show ?case by (auto simp: split_beta)
qed simp

lemma checks_config:
  "perMinute (snd (checks oor rs l)) = perMinute l" "burst (snd (checks oor rs l)) = burst l"
  "maxKeys (snd (checks oor rs l)) = maxKeys l" "refillPerSec (snd (checks oor rs l)) = refillPerSec l"
  by (induction rs arbitrary: l) (simp_all add: checks_Cons Check_config del: checks.simps(2))

section \<open>Waiting\<close>

lemma refill_rate_pos:
  assumes "limiter_inv now l"
  shows "1 / 61 \<le> refillPerSec l"
proof -
  have "fl 1 \<le> fl (perMinute l)" using assms by (intro fl_mono) (simp add: limiter_inv_def)
  then have "(1 :: rat) \<le> fl (perMinute l)" using fl_int [of 1] by simp
  then have "fdiv 1 60 \<le> fdiv (fl (perMinute l)) 60" by (intro fdiv_mono) simp_all
  moreover have "1 / 61 \<le> fdiv 1 60" using f64.rnd_lower [of "1 / 60"] by (simp add: fdiv_def)
  ultimately show ?thesis using assms by (simp add: limiter_inv_def)
qed

text \<open>After the seconds announced to a refused client its bucket holds a token again.\<close>

lemma retry_after_refills:
  assumes inv: "limiter_inv now l" and t: "0 \<le> t" "t < 1"
    and wait: "now + retry_after oor l t * 10 ^ 9 \<le> now'"
  shows "1 \<le> fadd t (fmul (seconds (now' - now)) (refillPerSec l))" "1 \<le> retry_after oor l t"
proof -
  define r where "r = refillPerSec l"
  define s where "s = fsub 1 t"
  define R where "R = f2i oor (fdiv s r) + 1"
  have r: "1 / 61 \<le> r" "0 < r" using refill_rate_pos [OF inv] by (simp_all add: r_def)
  have s: "0 \<le> s" "s \<le> 1" using t f64.rnd_nonneg [of "1 - t"] f64.rnd_le_int [of 1 "1 - t"] by (simp_all add: s_def fsub_def)
  have "s / r \<le> 1 / (1 / 61)" using r s by (intro frac_le) simp_all
  then have q: "0 \<le> s / r" "s / r \<le> 61" using s r by simp_all
  then have x: "0 \<le> fdiv s r" "fdiv s r \<le> 61" using f64.rnd_nonneg f64.rnd_le_int [of 61 "s / r"] by (simp_all add: fdiv_def)
  then have R: "1 \<le> R" "R \<le> 62" "fdiv s r < of_int R" using f2i_bounds [of "fdiv s r" oor] f2i_range [of "fdiv s r" oor] by (auto simp: R_def floor_le_iff)
  have ra: "retry_after oor l t = R" using R(1) by (simp add: retry_after_def R_def Let_def r_def s_def)
  then show "1 \<le> retry_after oor l t" using R by simp
  have "s / r < of_int R"
  proof (rule ccontr)
    assume "\<not> s / r < of_int R"
    then have "of_int R \<le> fdiv s r" unfolding fdiv_def using R by (intro f64.rnd_ge_int) simp_all
    with R(3) show False by simp
  qed
  then have "s \<le> of_int R * r" using r by (simp add: field_simps)
  moreover have "of_int R \<le> seconds (now' - now)" using R wait ra by (intro seconds_ge) simp_all
  ultimately have "s \<le> seconds (now' - now) * r" using r by (meson mult_right_mono less_imp_le order_trans)
  then have "s \<le> fmul (seconds (now' - now)) r" unfolding fmul_def s_def fsub_def by (metis rnd64_mono rnd64_rnd64)
  then show "1 \<le> fadd t (fmul (seconds (now' - now)) (refillPerSec l))"
    using fadd_complement [OF t] by (simp add: s_def r_def)
qed

section \<open>The rate over a run\<close>

definition allowed_count :: "string \<Rightarrow> request list \<Rightarrow> Decision list \<Rightarrow> nat" where
  "allowed_count c rs ds = length (filter (\<lambda>(r, d). fst r = c \<and> Allowed d) (zip rs ds))"

definition request_count :: "string \<Rightarrow> request list \<Rightarrow> nat" where
  "request_count c rs = length (filter (\<lambda>r. fst r = c) rs)"

lemma counts_Cons:
  "allowed_count c (r # rs) (d # ds) = of_bool (fst r = c \<and> Allowed d) + allowed_count c rs ds"
  "request_count c (r # rs) = of_bool (fst r = c) + request_count c rs"
  by (simp_all add: allowed_count_def request_count_def)

text \<open>The tokens per second that are never exceeded, in spite of the rounding.\<close>

definition rate_above :: "Limiter \<Rightarrow> rat" where
  "rate_above l = of_int (perMinute l) / 60 * (1 + 1 / 2 ^ 50)"

lemma refill_upper:
  assumes inv: "limiter_inv now l" and b: "map_of (buckets l) c = Some b"
  shows "refill l now b \<le> tokens b + of_int (now - last_seen b) / 10 ^ 9 * rate_above l + of_int (burst l) * 2 / 2 ^ 53"
proof -
  define u :: rat where "u = 1 + 1 / 2 ^ 53"
  define d where "d = now - last_seen b"
  define z where "z = tokens b + fmul (seconds d) (refillPerSec l)"
  have l: "1 \<le> perMinute l" "1 \<le> burst l" "burst l < 2 ^ 53" "refillPerSec l = fdiv (fl (perMinute l)) 60" and tb: "0 \<le> tokens b" "0 \<le> d"
    using inv b unfolding limiter_inv_def d_def by simp_all
  have up: "rnd64 x \<le> x * u" if "0 \<le> x" for x using f64.rnd_upper [OF that] by (simp add: u_def)
  have u: "1 \<le> u" by (simp add: u_def)
  have "fl (perMinute l) \<le> of_int (perMinute l) * u" "0 \<le> fl (perMinute l)" using up [of "of_int (perMinute l)"] l by (simp_all add: fl_def fl_nonneg f64.rnd_nonneg)
  then have "fl (perMinute l) / 60 * u \<le> of_int (perMinute l) * u / 60 * u" using u by (intro mult_right_mono divide_right_mono) simp_all
  with up [of "fl (perMinute l) / 60"] \<open>0 \<le> fl (perMinute l)\<close> have r: "refillPerSec l \<le> of_int (perMinute l) / 60 * u ^ 2" "0 \<le> refillPerSec l"
    by (simp_all add: l(4) fdiv_def power2_eq_square f64.rnd_nonneg)
  have s: "seconds d \<le> of_int d / 10 ^ 9 * u ^ 3" "0 \<le> seconds d" using seconds_upper seconds_nonneg tb(2) by (simp_all add: u_def)
  have "fmul (seconds d) (refillPerSec l) \<le> seconds d * refillPerSec l * u" unfolding fmul_def using s r by (intro up) simp
  also have "\<dots> \<le> (of_int d / 10 ^ 9 * u ^ 3) * (of_int (perMinute l) / 60 * u ^ 2) * u"
    using s r u tb by (intro mult_right_mono mult_mono) simp_all
  also have "\<dots> = of_int d / 10 ^ 9 * (of_int (perMinute l) / 60) * u ^ 6" by (simp add: field_simps eval_nat_numeral)
  also have "\<dots> \<le> of_int d / 10 ^ 9 * (of_int (perMinute l) / 60) * (1 + 1 / 2 ^ 50)"
    using tb l by (intro mult_left_mono) (simp_all add: u_def power_divide)
  finally have m: "fmul (seconds d) (refillPerSec l) \<le> of_int d / 10 ^ 9 * rate_above l" by (simp add: rate_above_def)
  have z: "0 \<le> z" using tb s r by (simp add: z_def fmul_nonneg)
  have "refill l now b \<le> z + of_int (burst l) * 2 / 2 ^ 53"
  proof (cases "rnd64 z \<le> of_int (burst l)")
    case True
    have "z * (1 - 1 / 2 ^ 53) \<le> of_int (burst l)" using f64.rnd_lower [OF z] True by simp
    then have "z / 2 ^ 53 \<le> of_int (burst l) * 2 / 2 ^ 53" using l by (simp add: field_simps)
    moreover have "rnd64 z \<le> z + z / 2 ^ 53" using f64.rnd_upper [OF z] by (simp add: field_simps)
    moreover have "refill l now b = rnd64 z" using True l by (simp add: refill_def minF_def fadd_def z_def d_def fl_int)
    ultimately show ?thesis by linarith
  next
    case False
    then have "of_int (burst l) \<le> z" using f64.rnd_le_int [of "burst l" z] l by linarith
    moreover have "refill l now b \<le> of_int (burst l)" using refill_bounds [OF inv b] by simp
    ultimately show ?thesis using l by simp
  qed
  with m show ?thesis by (simp add: z_def d_def)
qed

text \<open>One request: the tokens left and the decision, against the tokens before.\<close>

lemma Check_spends:
  assumes inv: "limiter_inv now l" and chk: "Check oor now wall c l = (d, l')"
  obtains b' where "map_of (buckets l') c = Some b'" "last_seen b' = now" "limiter_inv now l'"
    "tokens b' + of_bool (Allowed d) \<le>
       (case map_of (buckets l) c of None \<Rightarrow> of_int (burst l)
        | Some b \<Rightarrow> tokens b + of_int (now - last_seen b) / 10 ^ 9 * rate_above l) + of_int (burst l) / 2 ^ 51"
proof -
  obtain t where t: "t = (case map_of (buckets l) c of None \<Rightarrow> of_int (burst l) | Some b \<Rightarrow> refill l now b)"
    "0 \<le> t" "t \<le> of_int (burst l)" "Allowed d = (1 \<le> t)" "limiter_inv now l'"
    "map_of (buckets l') c = Some \<lparr>tokens = (if 1 \<le> t then fsub t 1 else t), last_seen = now\<rparr>"
    by (rule Check_cases [OF inv chk])
  have burst: "1 \<le> burst l" using inv by (simp add: limiter_inv_def)
  have "fsub t 1 \<le> t - 1 + of_int (burst l) / 2 ^ 53" if "1 \<le> t"
    using f64.rnd_upper [of "t - 1"] that t(3) by (simp add: fsub_def field_simps)
  then have "(if 1 \<le> t then fsub t 1 else t) + of_bool (1 \<le> t) \<le> t + of_int (burst l) / 2 ^ 53"
    using burst by (cases "1 \<le> t") (simp_all add: algebra_simps)
  moreover have "t \<le> (case map_of (buckets l) c of None \<Rightarrow> of_int (burst l)
        | Some b \<Rightarrow> tokens b + of_int (now - last_seen b) / 10 ^ 9 * rate_above l) + of_int (burst l) * 2 / 2 ^ 53"
    using t(1) refill_upper [OF inv] burst by (simp split: option.splits)
  moreover have "of_int (burst l) * 2 / 2 ^ 53 + of_int (burst l) / 2 ^ 53 \<le> (of_int (burst l) / 2 ^ 51 :: rat)" using burst by simp
  ultimately show ?thesis using that [OF t(6)] t(4,5) by simp
qed

lemma Check_keys:
  assumes inv: "limiter_inv now l" and room: "c \<in> fst ` set (buckets l) \<or> int (length (buckets l)) < maxKeys l"
  shows "fst ` set (buckets (snd (Check oor now wall c l))) = insert c (fst ` set (buckets l))"
    "c' \<noteq> c \<Longrightarrow> map_of (buckets (snd (Check oor now wall c l))) c' = map_of (buckets l) c'"
  using room
  by (auto simp: Check_def Let_def find_bucket_def put_bucket_def AList.dom_update AList.update_conv' dom_map_of_conv_image_fst [symmetric]
      split: option.splits if_splits)

text \<open>What a client can still spend until the time \<open>e\<close>.\<close>

definition spendable :: "string \<Rightarrow> int \<Rightarrow> int \<Rightarrow> Limiter \<Rightarrow> rat" where
  "spendable c now e l =
     (case map_of (buckets l) c of None \<Rightarrow> of_int (burst l) + of_int (e - now) / 10 ^ 9 * rate_above l
      | Some b \<Rightarrow> tokens b + of_int (e - last_seen b) / 10 ^ 9 * rate_above l)"

lemma rate_above_nonneg: "limiter_inv now l \<Longrightarrow> 0 \<le> rate_above l"
  by (simp add: limiter_inv_def rate_above_def)

lemma allowed_count_bound:
  assumes "limiter_inv t l" "sorted (map request_time rs)" "\<forall>r \<in> set rs. t \<le> request_time r \<and> request_time r \<le> e" "t \<le> e"
    and "int (card (fst ` set (buckets l) \<union> fst ` set rs)) \<le> maxKeys l"
  shows "of_nat (allowed_count c rs (fst (checks oor rs l))) \<le> spendable c t e l + of_nat (request_count c rs) * of_int (burst l) / 2 ^ 51"
  using assms
proof (induction rs arbitrary: t l)
  case Nil
  have "0 \<le> tokens b" "0 \<le> of_int (e - last_seen b) / (10 ^ 9 :: rat)" if "map_of (buckets l) c = Some b" for b
    using Nil.prems(1,4) that unfolding limiter_inv_def by (force simp: divide_nonneg_pos)+
  then show ?case using rate_above_nonneg [OF Nil.prems(1)] Nil.prems(1,4)
    by (auto simp: allowed_count_def request_count_def spendable_def limiter_inv_def split: option.splits)
next
  case (Cons r rs)
  obtain c' now wall where r: "r = (c', now, wall)" by (cases r)
  obtain d l1 where chk: "Check oor now wall c' l = (d, l1)" by fastforce
  have now: "t \<le> now" "now \<le> e" and inv: "limiter_inv now l" using Cons.prems(1,3) r by (auto intro: limiter_inv_later)
  have "length (buckets l) = card (fst ` set (buckets l))"
    using inv distinct_card [of "map fst (buckets l)"] by (simp add: limiter_inv_def)
  moreover have "card (insert c' (fst ` set (buckets l))) \<le> card (fst ` set (buckets l) \<union> fst ` set (r # rs))" using r by (intro card_mono) auto
  ultimately have room: "c' \<in> fst ` set (buckets l) \<or> int (length (buckets l)) < maxKeys l"
    using Cons.prems(5) by (cases "c' \<in> fst ` set (buckets l)") auto
  note keys = Check_keys [OF inv this, where oor = oor and wall = wall, unfolded chk snd_conv]
  have conf: "burst l1 = burst l" "rate_above l1 = rate_above l" "maxKeys l1 = maxKeys l"
    using Check_config [of oor now wall c' l] by (simp_all add: chk rate_above_def)
  obtain b' where b': "map_of (buckets l1) c' = Some b'" "last_seen b' = now" "limiter_inv now l1"
    "tokens b' + of_bool (Allowed d) \<le> (case map_of (buckets l) c' of None \<Rightarrow> of_int (burst l)
        | Some b \<Rightarrow> tokens b + of_int (now - last_seen b) / 10 ^ 9 * rate_above l) + of_int (burst l) / 2 ^ 51"
    by (rule Check_spends [OF inv chk])
  have "fst ` set (buckets l1) \<union> fst ` set rs = fst ` set (buckets l) \<union> fst ` set (r # rs)" using keys(1) r by auto
  then have IH: "of_nat (allowed_count c rs (fst (checks oor rs l1))) \<le> spendable c now e l1 + of_nat (request_count c rs) * of_int (burst l) / 2 ^ 51"
    using Cons.IH [OF b'(3), unfolded conf] Cons.prems(2,3,5) now(2) r by simp
  have ds: "fst (checks oor (r # rs) l) = d # fst (checks oor rs l1)" by (simp add: r chk split_beta)
  have rate: "0 \<le> rate_above l" using rate_above_nonneg [OF inv] .
  show ?case
  proof (cases "c' = c")
    case True
    have "of_bool (Allowed d) + spendable c now e l1 \<le> spendable c t e l + of_int (burst l) / 2 ^ 51"
    proof (cases "map_of (buckets l) c")
      case None
      have "of_int (e - now) / 10 ^ 9 * rate_above l \<le> of_int (e - t) / 10 ^ 9 * rate_above l"
        using now rate by (intro mult_right_mono divide_right_mono) simp_all
      with None True b' conf show ?thesis by (simp add: spendable_def)
    next
      case (Some b)
      with True b' conf show ?thesis by (simp add: spendable_def field_simps)
    qed
    with IH True show ?thesis unfolding ds by (simp add: counts_Cons r add_divide_distrib distrib_right)
  next
    case False
    have "spendable c now e l1 \<le> spendable c t e l"
    proof -
      have "of_int (e - now) / 10 ^ 9 * rate_above l \<le> of_int (e - t) / 10 ^ 9 * rate_above l"
        using now rate by (intro mult_right_mono divide_right_mono) simp_all
      with keys(2) [of c] False conf show ?thesis by (simp add: spendable_def split: option.splits)
    qed
    with IH False show ?thesis unfolding ds by (simp add: counts_Cons r)
  qed
qed

lemma checks_decisions:
  assumes "limiter_inv t l" "sorted (map request_time rs)" "\<forall>r \<in> set rs. t \<le> request_time r"
    and "\<And>d now wall c l1 l2. limiter_inv now l1 \<Longrightarrow> burst l1 = burst l \<Longrightarrow> perMinute l1 = perMinute l \<Longrightarrow> Check oor now wall c l1 = (d, l2) \<Longrightarrow> P d"
  shows "\<forall>d \<in> set (fst (checks oor rs l)). P d"
  using assms
proof (induction rs arbitrary: t l)
  case (Cons r rs)
  obtain c now wall where r: "r = (c, now, wall)" by (cases r)
  obtain d l1 where chk: "Check oor now wall c l = (d, l1)" by fastforce
  have inv: "limiter_inv now l" using Cons.prems(1,3) r by (auto intro: limiter_inv_later)
  have inv1: "limiter_inv now l1" by (rule Check_cases [OF inv chk])
  have "burst l1 = burst l" "perMinute l1 = perMinute l" using Check_config [of oor now wall c l] chk by simp_all
  then have "\<forall>d \<in> set (fst (checks oor rs l1)). P d" using Cons.prems(2,3,4) r by (intro Cons.IH [OF inv1]) auto
  moreover have "P d" using Cons.prems(4) [OF inv refl refl chk] .
  ultimately show ?case by (simp add: r chk split_beta)
qed simp

lemma Check_decision:
  assumes inv: "limiter_inv now l" and chk: "Check oor now wall c l = (d, l')"
  shows "Limit d = perMinute l" "0 \<le> Remaining d" "Remaining d < burst l" "Allowed d \<Longrightarrow> RetryAfterSeconds d = 0"
    "\<not> Allowed d \<Longrightarrow> 1 \<le> RetryAfterSeconds d \<and> Remaining d = 0"
proof -
  obtain t where t: "0 \<le> t" "t \<le> of_int (burst l)" "Allowed d = (1 \<le> t)" "Remaining d = f2i oor (if 1 \<le> t then fsub t 1 else t)"
    "Limit d = perMinute l" "RetryAfterSeconds d = (if 1 \<le> t then 0 else retry_after oor l t)"
    by (rule Check_cases [OF inv chk])
  have b: "1 \<le> burst l" "burst l < 2 ^ 53" using inv by (simp_all add: limiter_inv_def)
  define t' where "t' = (if 1 \<le> t then fsub t 1 else t)"
  have "fsub t 1 \<le> of_int (burst l - 1)" using t(2) b unfolding fsub_def by (intro f64.rnd_le_int) simp_all
  moreover have "0 \<le> fsub t 1" if "1 \<le> t" using that by (simp add: fsub_def f64.rnd_nonneg)
  moreover have "t < of_int (burst l)" if "\<not> 1 \<le> t" using that b by (meson less_le_trans not_le of_int_1_le_iff)
  ultimately have t': "0 \<le> t'" "t' < of_int (burst l)" using t(1) by (auto simp: t'_def intro: le_less_trans)
  have "(of_int (burst l) :: rat) < of_int (2 ^ 53)" using b(2) by (simp only: of_int_less_iff)
  with t'(2) have "t' < 2 ^ 63" by simp
  then have rem: "Remaining d = \<lfloor>t'\<rfloor>" using t(4) t'(1) by (simp add: f2i_range t'_def)
  with t' show "Limit d = perMinute l" "0 \<le> Remaining d" "Remaining d < burst l" "Allowed d \<Longrightarrow> RetryAfterSeconds d = 0"
    using t(3,5,6) by (simp_all add: floor_less_iff)
  show "1 \<le> RetryAfterSeconds d \<and> Remaining d = 0" if "\<not> Allowed d"
  proof -
    have "t < 1" using that t(3) by simp
    moreover from this have "\<lfloor>t'\<rfloor> = 0" using t(1) by (simp add: t'_def floor_eq_iff)
    ultimately show ?thesis using retry_after_refills(2) [OF inv t(1) _ order_refl] t(6) rem by auto
  qed
qed

section \<open>Properties\<close>

text \<open>
  In every run of the limiter, with any number of clients and requests at non-decreasing times, the
  map and the list of least recently used clients hold the same clients, each once and at most
  \<^verbatim>\<open>maxKeys\<close> of them; every bucket holds between 0 and \<^verbatim>\<open>burst\<close> tokens; and every decision announces
  the limit, between 0 and \<^verbatim>\<open>burst - 1\<close> remaining tokens, and a retry delay that is positive exactly
  for a refusal.
\<close>

theorem limiter_run_bounded:
  assumes "ratelimit_New pm bst keys = Ok l0" "bst < 2 ^ 53"
    and "sorted (map request_time rs)" "\<forall>r \<in> set rs. 0 \<le> request_time r" and "checks oor rs l0 = (ds, l)"
  shows "int (length (buckets l)) \<le> keys \<and> distinct (lru l) \<and> set (lru l) = fst ` set (buckets l) \<and>
    (\<forall>(c, b) \<in> set (buckets l). 0 \<le> tokens b \<and> tokens b \<le> of_int bst) \<and>
    (\<forall>d \<in> set ds. Limit d = pm \<and> 0 \<le> Remaining d \<and> Remaining d < bst \<and> (Allowed d \<longleftrightarrow> RetryAfterSeconds d = 0) \<and> 0 \<le> RetryAfterSeconds d)"
proof (intro conjI)
  have inv0: "limiter_inv 0 l0" and conf: "perMinute l0 = pm" "burst l0 = bst" "maxKeys l0 = keys"
    using limiter_inv_New [OF assms(1,2)] assms(1) by (auto simp: ratelimit_New_def split: if_splits)
  define e where "e = Max (insert 0 (request_time ` set rs))"
  have e: "0 \<le> e" "\<forall>r \<in> set rs. request_time r \<le> e" by (simp_all add: e_def)
  have inv: "limiter_inv e l" using limiter_inv_checks [OF inv0 assms(3,4) e(2,1), of oor] assms(5) by simp
  have conf': "burst l = bst" "maxKeys l = keys" using checks_config [of oor rs l0] assms(5) conf by simp_all
  show "int (length (buckets l)) \<le> keys" "distinct (lru l)" "set (lru l) = fst ` set (buckets l)"
    using inv conf' by (simp_all add: limiter_inv_def)
  have "distinct (map fst (buckets l))" using inv by (simp add: limiter_inv_def)
  then show "\<forall>(c, b) \<in> set (buckets l). 0 \<le> tokens b \<and> tokens b \<le> of_int bst"
    using inv conf' by (auto simp: limiter_inv_def)
  have "\<forall>d \<in> set (fst (checks oor rs l0)). Limit d = pm \<and> 0 \<le> Remaining d \<and> Remaining d < bst \<and>
      (Allowed d \<longleftrightarrow> RetryAfterSeconds d = 0) \<and> 0 \<le> RetryAfterSeconds d"
  proof (rule checks_decisions [OF inv0 assms(3,4)])
    fix d now wall c l1 l2
    assume "limiter_inv now l1" "burst l1 = burst l0" "perMinute l1 = perMinute l0" "Check oor now wall c l1 = (d, l2)"
    with Check_decision [of now l1 oor wall c d l2] conf
    show "Limit d = pm \<and> 0 \<le> Remaining d \<and> Remaining d < bst \<and> (Allowed d \<longleftrightarrow> RetryAfterSeconds d = 0) \<and> 0 \<le> RetryAfterSeconds d"
      by (cases "Allowed d") simp_all
  qed
  then show "\<forall>d \<in> set ds. Limit d = pm \<and> 0 \<le> Remaining d \<and> Remaining d < bst \<and> (Allowed d \<longleftrightarrow> RetryAfterSeconds d = 0) \<and> 0 \<le> RetryAfterSeconds d"
    using assms(5) conf by simp
qed

text \<open>
  C21: A refused client that waits for the announced number of seconds is served: whatever other clients
  have requested before and in the meantime, its next request after at least \<^verbatim>\<open>RetryAfterSeconds\<close> is
  allowed. The rounding of the float64 arithmetic does not break the announcement.
\<close>

theorem retry_after_honoured:
  assumes "ratelimit_New pm bst keys = Ok l0" "bst < 2 ^ 53"
    and "sorted (map request_time rs)" "\<forall>r \<in> set rs. 0 \<le> request_time r \<and> request_time r \<le> now" "0 \<le> now"
    and "checks oor rs l0 = (ds, l)" "Check oor now wall c l = (d, l1)" "\<not> Allowed d"
    and "sorted (map request_time rs')" "\<forall>r \<in> set rs'. now \<le> request_time r \<and> request_time r \<le> now' \<and> fst r \<noteq> c"
    and "checks oor rs' l1 = (ds', l2)" "now + RetryAfterSeconds d * 10 ^ 9 \<le> now'"
  shows "Allowed (fst (Check oor now' wall' c l2))"
proof -
  have inv: "limiter_inv now l"
    using limiter_inv_checks [OF limiter_inv_New [OF assms(1,2)] assms(3), of 0 now oor] assms(4,5,6) by simp
  obtain t where t: "0 \<le> t" "Allowed d = (1 \<le> t)" "RetryAfterSeconds d = (if 1 \<le> t then 0 else retry_after oor l t)" "limiter_inv now l1"
    "map_of (buckets l1) c = Some \<lparr>tokens = (if 1 \<le> t then fsub t 1 else t), last_seen = now\<rparr>"
    by (rule Check_cases [OF inv assms(7)])
  have t1: "t < 1" "now + retry_after oor l t * 10 ^ 9 \<le> now'" using t assms(8,12) by simp_all
  have full: "1 \<le> fadd t (fmul (seconds (now' - now)) (refillPerSec l))" "now \<le> now'"
    using retry_after_refills [OF inv t(1) t1] t1(2) by simp_all
  have inv2: "limiter_inv now' l2" using limiter_inv_checks [OF t(4) assms(9), of now' oor] assms(10,11) full(2) by auto
  have rate: "refillPerSec l2 = refillPerSec l"
    using checks_config(4) [of oor rs' l1] Check_config(4) [of oor now wall c l] assms(7,11) by simp
  have "map_of (buckets l2) c \<in> {None, Some \<lparr>tokens = t, last_seen = now\<rparr>}"
    using checks_other [of rs' c oor l1] t(5) t1(1) assms(10,11) by auto
  moreover have "1 \<le> burst l2" "burst l2 < 2 ^ 53" using inv2 by (simp_all add: limiter_inv_def)
  ultimately have "1 \<le> (case map_of (buckets l2) c of None \<Rightarrow> of_int (burst l2) | Some b \<Rightarrow> refill l2 now' b)"
    using full(1) by (auto simp: refill_def minF_def rate fl_int)
  moreover obtain d' l3 where "Check oor now' wall' c l2 = (d', l3)" by fastforce
  ultimately show ?thesis using Check_cases [OF inv2, of oor wall' c d' l3] by auto
qed

text \<open>
  C22: The number of allowed requests of one client is bounded by its burst and the refill over the time
  of the run: while no more than \<^verbatim>\<open>maxKeys\<close> clients occur (so that no bucket is evicted), a client gets
  at most \<^verbatim>\<open>burst\<close> requests plus \<^verbatim>\<open>perMinute\<close> a minute, up to a relative error of \<open>2 ^ - 50\<close> of the
  refill and a rounding error of \<open>2 ^ - 51\<close> of the burst for each of its requests.
\<close>

theorem rate_limit_enforced:
  assumes "ratelimit_New pm bst keys = Ok l0" "bst < 2 ^ 53"
    and "sorted (map request_time rs)" "\<forall>r \<in> set rs. s \<le> request_time r \<and> request_time r \<le> e" "s \<le> e"
    and "int (card (fst ` set rs)) \<le> keys"
  shows "of_nat (allowed_count c rs (fst (checks oor rs l0))) \<le>
    of_int bst + of_int (e - s) / 10 ^ 9 * (of_int pm / 60) * (1 + 1 / 2 ^ 50) + of_nat (request_count c rs) * (of_int bst / 2 ^ 51 :: rat)"
proof -
  have l0: "buckets l0 = []" "perMinute l0 = pm" "burst l0 = bst" "maxKeys l0 = keys"
    using assms(1) by (auto simp: ratelimit_New_def split: if_splits)
  from allowed_count_bound [OF limiter_inv_New [OF assms(1,2)] assms(3,4,5)] assms(6)
  show ?thesis by (simp add: l0 spendable_def rate_above_def mult.assoc)
qed

text \<open>Two requests of one client at a time with a burst of one: the second is refused.\<close>

definition demo_limiter :: Limiter where
  "demo_limiter = \<lparr>perMinute = 60, burst = 1, maxKeys = 2, refillPerSec = fdiv (fl 60) 60, buckets = [], lru = []\<rparr>"

lemma demo_limiter_New: "ratelimit_New 60 1 2 = Ok demo_limiter"
  by (simp add: ratelimit_New_def demo_limiter_def)

lemma demo_limiter_rate: "fdiv (fl 60) 60 = 1" "fsub 1 1 = 0" "seconds 0 = 0" "fmul 0 1 = 0" "fadd 0 0 = 0" "fl 1 = 1" "fsub 1 0 = 1" "fdiv 1 1 = 1"
  using rnd64_of_int [of 1] fl_int [of 60] fl_int [of 1] fl_int [of 0] by (simp_all add: fdiv_def fsub_def seconds_def fmul_def fadd_def)

lemmas demo_limiter_simps = Check_def find_bucket_def put_bucket_def refill_def minF_def retry_after_def f2i_def trunc_rat_def demo_limiter_rate
  demo_limiter_def Let_def

lemma demo_first: "\<exists>d l. Check oor 0 0 c demo_limiter = (d, l) \<and> Allowed d \<and> map_of (buckets l) c = Some \<lparr>tokens = 0, last_seen = 0\<rparr> \<and>
    refillPerSec l = 1 \<and> burst l = 1 \<and> perMinute l = 60"
  by (simp add: demo_limiter_simps)

lemma demo_second:
  assumes "map_of (buckets l) c = Some \<lparr>tokens = 0, last_seen = 0\<rparr>" "refillPerSec l = 1" "burst l = 1"
  shows "\<not> Allowed (fst (Check oor 0 0 c l)) \<and> RetryAfterSeconds (fst (Check oor 0 0 c l)) = 2"
  using assms by (simp add: demo_limiter_simps split_beta)

theorem limiter_run_bounded_witness:
  "list_all (\<lambda>d. 0 \<le> Remaining d \<and> Remaining d < 1) (fst (checks (\<lambda>_. 0) [(''a'', 0, 0), (''a'', 0, 0)] demo_limiter))"
  using limiter_run_bounded [OF demo_limiter_New, of "[(''a'', 0, 0), (''a'', 0, 0)]" "\<lambda>_. 0"]
  by (simp add: split_beta list_all_iff)

theorem retry_after_honoured_witness:
  "Allowed (fst (Check (\<lambda>_. 0) (2 * 10 ^ 9) 0 ''a'' (snd (checks (\<lambda>_. 0) [(''b'', 10 ^ 9, 0)] (snd (Check (\<lambda>_. 0) 0 0 ''a'' (snd (checks (\<lambda>_. 0) [(''a'', 0, 0)] demo_limiter))))))))"
proof -
  obtain d l where first: "Check (\<lambda>_. 0) 0 0 ''a'' demo_limiter = (d, l)" "map_of (buckets l) ''a'' = Some \<lparr>tokens = 0, last_seen = 0\<rparr>"
    "refillPerSec l = 1" "burst l = 1" using demo_first [of "\<lambda>_. 0" "''a''"] by blast
  obtain d' l' where second: "Check (\<lambda>_. 0) 0 0 ''a'' l = (d', l')" by fastforce
  then have "\<not> Allowed d'" "RetryAfterSeconds d' = 2" using demo_second [OF first(2-4), of "\<lambda>_. 0"] by simp_all
  then show ?thesis
    using retry_after_honoured [OF demo_limiter_New, where rs = "[(''a'', 0, 0)]" and now = 0 and oor = "\<lambda>_. 0" and wall = 0 and c = "''a''"
        and rs' = "[(''b'', 10 ^ 9, 0)]" and now' = "2 * 10 ^ 9" and wall' = 0] first(1) second
    by (simp add: split_beta)
qed

theorem rate_limit_enforced_witness:
  "of_nat (allowed_count ''a'' [(''a'', 0, 0), (''a'', 0, 0)] (fst (checks (\<lambda>_. 0) [(''a'', 0, 0), (''a'', 0, 0)] demo_limiter))) \<le>
     (1 + 2 * (1 / 2 ^ 51) :: rat)"
  using rate_limit_enforced [OF demo_limiter_New, of "[(''a'', 0, 0), (''a'', 0, 0)]" 0 0 "''a''" "\<lambda>_. 0"]
  by (simp add: request_count_def)

end
