(* ===== verification/S3.thy ===== *)
theory S3
  imports Config Fs
begin

text \<open>
  \<^verbatim>\<open>internal/s3/s3.go\<close> and \<^verbatim>\<open>internal/s3/aws.go\<close>: S3 URLs, the bucket allowlists, the output target,
  and the three operations of \<^verbatim>\<open>AWSOps\<close>. The AWS SDK is the parameter \<open>aws_sdk\<close>: what loading its
  configuration, \<^verbatim>\<open>GetObject\<close>, the upload manager and the presign client answer. Each operation also
  returns the list of the SDK calls it made, so that it can be stated which calls happen at all. The
  text that \<^verbatim>\<open>%q\<close> quotes is the argument \<open>quote\<close>.
\<close>

section \<open>Definitions\<close>

subsection \<open>URLs and allowlists\<close>

definition scheme :: string where "scheme = ''s3://''"

definition ParseURL :: "(string \<Rightarrow> string) \<Rightarrow> string \<Rightarrow> (go_error, string \<times> string) result" where
  "ParseURL quote url =
     (if url = '''' \<or> \<not> has_prefix url scheme then Err (OError (NewS3InvalidURL quote url))
      else (let rest = drop (length scheme) url; (bucket, key, found) = cut CHR ''/'' rest
            in if bucket = '''' then Err (OError (NewS3InvalidURL quote url)) else Ok (bucket, key)))"

definition ParseAllowlist :: "string \<Rightarrow> string list" where
  "ParseAllowlist raw =
     (if raw = '''' then [] else filter (\<lambda>t. t \<noteq> '''') (map trim_space (split CHR '','' raw)))"

definition IsInputBucketAllowed :: "string \<Rightarrow> Settings \<Rightarrow> bool" where
  "IsInputBucketAllowed bucket s = list_ex (\<lambda>b. b = bucket) (ParseAllowlist (S3InputBucketsAllowlist s))"

definition IsOutputBucketAllowed :: "string \<Rightarrow> Settings \<Rightarrow> bool" where
  "IsOutputBucketAllowed bucket s =
     (list_ex (\<lambda>b. b = bucket) (ParseAllowlist (S3OutputBucketsAllowlist s)) \<or>
      (S3DefaultOutputBucket s \<noteq> '''' \<and> bucket = S3DefaultOutputBucket s))"

definition ResolveOutputTarget :: "(string \<Rightarrow> string) \<Rightarrow> string \<Rightarrow> string \<Rightarrow> Settings \<Rightarrow> (go_error, string \<times> string) result" where
  "ResolveOutputTarget quote url requestID s =
     (case ParseURL quote url of
        Err e \<Rightarrow> Err e
      | Ok (bucket, key) \<Rightarrow>
          Ok (bucket, if key = '''' then replace_all (S3OutputKeyTemplate s) ''{request_id}'' requestID else key))"

subsection \<open>The operations\<close>

text \<open>A client of the SDK: its region, its base endpoint (empty: the SDK's own) and path-style addressing.\<close>

record client =
  region :: string
  base_endpoint :: string
  path_style :: bool

datatype sdk_call = GetObject client string string | Upload client string string string | PresignGet client string string int

record aws_sdk =
  aws_config :: "string \<Rightarrow> string option"
  aws_get :: "client \<Rightarrow> string \<Rightarrow> string \<Rightarrow> (string \<times> string, string \<times> string option) result"
  aws_put :: "client \<Rightarrow> string \<Rightarrow> string \<Rightarrow> string \<Rightarrow> string option"
  aws_presign :: "client \<Rightarrow> string \<Rightarrow> string \<Rightarrow> int \<Rightarrow> (string, string) result"

text \<open>\<open>GetObject\<close> answers with an API error code and text, or with the body and the error that ends its stream early.\<close>

definition notFoundCodes :: "string list" where
  "notFoundCodes = [''NoSuchKey'', ''NoSuchBucket'', ''404'', ''NotFound'']"

definition forbiddenCodes :: "string list" where
  "forbiddenCodes = [''AccessDenied'', ''403'', ''AllAccessDisabled'']"

fun firstNonEmpty :: "string list \<Rightarrow> string" where
  "firstNonEmpty [] = ''''"
| "firstNonEmpty (v # vs) = (if trim_space v \<noteq> '''' then v else firstNonEmpty vs)"

definition getenv :: "(string \<rightharpoonup> string) \<Rightarrow> string \<Rightarrow> string" where
  "getenv env name = (case env name of None \<Rightarrow> '''' | Some v \<Rightarrow> v)"

definition region_endpoint :: "Settings \<Rightarrow> string" where
  "region_endpoint s = (if S3Region s \<noteq> '''' then ''https://s3.'' @ S3Region s @ ''.amazonaws.com'' else '''')"

definition loadClient :: "aws_sdk \<Rightarrow> (string \<rightharpoonup> string) \<Rightarrow> Settings \<Rightarrow> (string, client) result" where
  "loadClient aws env s =
     (case aws_config aws (S3Region s) of
        Some e \<Rightarrow> Err e
      | None \<Rightarrow>
          (let endpoint = firstNonEmpty [getenv env ''AWS_ENDPOINT_URL_S3'', getenv env ''AWS_ENDPOINT_URL'']
           in Ok \<lparr>region = S3Region s, base_endpoint = (if endpoint \<noteq> '''' then endpoint else region_endpoint s),
                  path_style = (endpoint \<noteq> '''')\<rparr>))"

definition DownloadToPath ::
  "aws_sdk \<Rightarrow> (string \<rightharpoonup> string) \<Rightarrow> os_faults \<Rightarrow> (string \<Rightarrow> string) \<Rightarrow> (string \<Rightarrow> string) \<Rightarrow> string \<Rightarrow> string \<Rightarrow> Settings \<Rightarrow> fs \<Rightarrow>
     (go_error, string) result \<times> sdk_call list \<times> fs" where
  "DownloadToPath aws env os quote sha url dest s st =
     (case ParseURL quote url of
        Err e \<Rightarrow> (Err e, [], st)
      | Ok (bucket, key) \<Rightarrow>
          if key = '''' then (Err (OError (NewS3InvalidURL quote url)), [], st)
          else if \<not> IsInputBucketAllowed bucket s then (Err (OError (NewS3InputForbidden bucket)), [], st)
          else (case loadClient aws env s of
             Err e \<Rightarrow> (Err (OError (NewRender None (-1) (''s3 config: '' @ e))), [], st)
           | Ok cl \<Rightarrow>
               (case aws_get aws cl bucket key of
                  Err (code, txt) \<Rightarrow>
                    ((if code \<in> set notFoundCodes then Err (OError (NewS3InputNotFound bucket key))
                      else if code \<in> set forbiddenCodes then Err (OError (NewS3InputForbidden bucket))
                      else Err (OError (NewRender None (-1) (''s3 get: '' @ txt)))), [GetObject cl bucket key], st)
                | Ok (body, broken) \<Rightarrow>
                    (case mkdir_err os (path_dir dest) of
                       Some e \<Rightarrow> (Err (PlainError e), [GetObject cl bucket key], st)
                     | None \<Rightarrow>
                         (case run_io (os_Create os dest) st of
                            (Some e, st1) \<Rightarrow> (Err (PlainError e), [GetObject cl bucket key], st1)
                          | (None, st1) \<Rightarrow>
                              (case run_io (io_Copy os dest body) st1 of
                                 (Some e, st2) \<Rightarrow> (Err (PlainError e), [GetObject cl bucket key], st2)
                               | (None, st2) \<Rightarrow>
                                   ((case broken of Some e \<Rightarrow> Err (PlainError e) | None \<Rightarrow> Ok (sha body)),
                                    [GetObject cl bucket key], st2)))))))"

definition UploadFile ::
  "aws_sdk \<Rightarrow> (string \<rightharpoonup> string) \<Rightarrow> os_faults \<Rightarrow> string \<Rightarrow> string \<Rightarrow> string \<Rightarrow> Settings \<Rightarrow> fs \<Rightarrow> go_error option \<times> sdk_call list" where
  "UploadFile aws env os localPath bucket key s st =
     (if \<not> IsOutputBucketAllowed bucket s then (Some (OError (NewS3OutputForbidden bucket)), [])
      else (case loadClient aws env s of
         Err e \<Rightarrow> (Some (OError (NewS3OutputUploadFailed bucket key e)), [])
       | Ok cl \<Rightarrow>
           (case fst (run_io (os_Open os localPath) st) of
              Err e \<Rightarrow> (Some (OError (NewS3OutputUploadFailed bucket key e)), [])
            | Ok body \<Rightarrow>
                (case aws_put aws cl bucket key body of
                   Some e \<Rightarrow> (Some (OError (NewS3OutputUploadFailed bucket key e)), [Upload cl bucket key body])
                 | None \<Rightarrow> (None, [Upload cl bucket key body])))))"

definition PresignGetURL :: "aws_sdk \<Rightarrow> string \<Rightarrow> string \<Rightarrow> Settings \<Rightarrow> (go_error, string) result \<times> sdk_call list" where
  "PresignGetURL aws bucket key s =
     (if \<not> IsOutputBucketAllowed bucket s then (Err (OError (NewS3OutputForbidden bucket)), [])
      else (case aws_config aws (S3Region s) of
         Some e \<Rightarrow> (Err (OError (NewRender None (-1) (''s3 config: '' @ e))), [])
       | None \<Rightarrow>
           (let signEndpoint = S3PublicEndpoint s;
                cl = \<lparr>region = S3Region s, base_endpoint = (if signEndpoint \<noteq> '''' then signEndpoint else region_endpoint s),
                      path_style = (signEndpoint \<noteq> '''')\<rparr>
            in case aws_presign aws cl bucket key (S3PresignTTLSeconds s) of
                 Err e \<Rightarrow> (Err (OError (NewRender None (-1) (''s3 presign: '' @ e))), [PresignGet cl bucket key (S3PresignTTLSeconds s)])
               | Ok url \<Rightarrow> (Ok url, [PresignGet cl bucket key (S3PresignTTLSeconds s)]))))"

section \<open>Lemmas\<close>

text \<open>What a sequence of calls of the SDK is allowed to touch.\<close>

fun call_allowed :: "Settings \<Rightarrow> sdk_call \<Rightarrow> bool" where
  "call_allowed s (GetObject cl b k) = (IsInputBucketAllowed b s \<and> k \<noteq> '''')"
| "call_allowed s (Upload cl b k body) = IsOutputBucketAllowed b s"
| "call_allowed s (PresignGet cl b k ttl) = IsOutputBucketAllowed b s"

lemma cut_not_sep: "cut c s = (a, b, f) \<Longrightarrow> c \<notin> set a \<and> (if f then s = a @ c # b else s = a \<and> b = [])"
  by (induction s arbitrary: a b f) (auto split: if_splits prod.splits)

lemma ParseURL_Ok:
  "ParseURL quote url = Ok (b, k) \<longleftrightarrow>
     b \<noteq> '''' \<and> CHR ''/'' \<notin> set b \<and> (url = ''s3://'' @ b @ ''/'' @ k \<or> k = '''' \<and> url = ''s3://'' @ b)"
proof (cases "has_prefix url ''s3://''")
  case True
  then obtain rest where url: "url = ''s3://'' @ rest" by (auto simp: has_prefix_conv)
  obtain a c f where cut: "cut CHR ''/'' rest = (a, c, f)" by (cases "cut CHR ''/'' rest")
  have "ParseURL quote url = (if a = '''' then Err (OError (NewS3InvalidURL quote url)) else Ok (a, c))"
    using True by (simp add: ParseURL_def scheme_def Let_def url cut)
  moreover have "b = a \<and> k = c" if "CHR ''/'' \<notin> set b" "rest = b @ CHR ''/'' # k \<or> k = '''' \<and> rest = b"
    using that cut by (auto simp: cut_found cut_absent)
  ultimately show ?thesis using cut_not_sep [OF cut] by (cases f) (auto simp: url)
next
  case False
  then show ?thesis by (auto simp: ParseURL_def scheme_def has_prefix_def)
qed

lemma in_allowlist: "b \<in> set (ParseAllowlist raw) \<longleftrightarrow> b \<noteq> '''' \<and> (\<exists>e \<in> set (split CHR '','' raw). b = trim_space e)"
proof -
  have "trim_space '''' = ''''" by (rule trim_space_visible) simp
  then show ?thesis by (auto simp: ParseAllowlist_def)
qed

section \<open>Properties\<close>


text \<open>
  \<^verbatim>\<open>ParseURL\<close> accepts exactly the S3 URLs and returns their parts: it succeeds with a bucket and a key
  if and only if the bucket is not empty and has no slash and the URL is \<^verbatim>\<open>s3://bucket/key\<close>, or
  \<^verbatim>\<open>s3://bucket\<close> with an empty key.
\<close>

theorem parse_s3_url_exact:
  "ParseURL quote url = Ok (b, k) \<longleftrightarrow>
     b \<noteq> '''' \<and> CHR ''/'' \<notin> set b \<and> (url = ''s3://'' @ b @ ''/'' @ k \<or> k = '''' \<and> url = ''s3://'' @ b)"
  by (rule ParseURL_Ok)

end
