(* ===== verification/License.thy ===== *)
theory License
  imports Types Fs
begin

text \<open>
  \<^verbatim>\<open>internal/license/license.go\<close>: the expiry date of an Aspose license file, cached until the file
  changes. The token stream of \<^verbatim>\<open>encoding/xml\<close> is a parameter (the function \<open>xml\<close> from the content of a
  file to its tokens: well nested, ended by a syntax error when the text is malformed); reading an
  element's text from the stream, the date formats and the calendar are modelled, with the texts of
  \<^verbatim>\<open>time.Parse\<close>'s errors abbreviated. A date is its year, month and day; a clock reading is in nanoseconds since 1970. The mutex is held
  during every query, so a run of the manager is a sequence of queries.
\<close>

section \<open>Definitions\<close>

subsection \<open>Dates\<close>

definition leap :: "int \<Rightarrow> bool" where
  "leap y \<longleftrightarrow> y mod 4 = 0 \<and> (y mod 100 \<noteq> 0 \<or> y mod 400 = 0)"

definition daysIn :: "int \<Rightarrow> int \<Rightarrow> int" where
  "daysIn m y = (if m = 2 then (if leap y then 29 else 28) else if m \<in> {4, 6, 9, 11} then 30 else 31)"

definition year_start :: "int \<Rightarrow> int" where
  "year_start y = 365 * (y - 1) + (y - 1) div 4 - (y - 1) div 100 + (y - 1) div 400"

fun month_start :: "nat \<Rightarrow> int \<Rightarrow> int" where
  "month_start 0 y = 0"
| "month_start (Suc m) y = month_start m y + daysIn (int (Suc m)) y"

type_synonym date = "int \<times> int \<times> int"

text \<open>The number of days since 1 January of the year 1, by which times are compared and subtracted.\<close>

fun day_number :: "date \<Rightarrow> int" where
  "day_number (y, m, d) = year_start y + month_start (nat (m - 1)) y + d - 1"

fun valid_date :: "date \<Rightarrow> bool" where
  "valid_date (y, m, d) \<longleftrightarrow> 0 \<le> y \<and> y \<le> 9999 \<and> 1 \<le> m \<and> m \<le> 12 \<and> 1 \<le> d \<and> d \<le> daysIn m y"

text \<open>\<^verbatim>\<open>time.Parse\<close> with the layouts \<^verbatim>\<open>20060102\<close> and \<^verbatim>\<open>2006-01-02\<close>: fixed-width digits, ranges checked.\<close>

definition parse_ymd :: "string \<Rightarrow> string \<Rightarrow> string \<Rightarrow> (string, date) result" where
  "parse_ymd ys ms ds =
     (let y = int (atou 0 ys); m = int (atou 0 ms); d = int (atou 0 ds)
      in if \<not> (1 \<le> m \<and> m \<le> 12) then Err ''month out of range''
         else if \<not> (1 \<le> d \<and> d \<le> daysIn m y) then Err ''day out of range''
         else Ok (y, m, d))"

definition isAllDigits :: "string \<Rightarrow> bool" where
  "isAllDigits s \<longleftrightarrow> list_all is_digit s \<and> s \<noteq> ''''"

definition parse_iso :: "string \<Rightarrow> (string, date) result" where
  "parse_iso s =
     (let ys = take 4 s; ms = take 2 (drop 5 s); ds = drop 8 s
      in if length s = 10 \<and> s ! 4 = CHR ''-'' \<and> s ! 7 = CHR ''-'' \<and> isAllDigits ys \<and> isAllDigits ms \<and> isAllDigits ds
         then parse_ymd ys ms ds else Err ''cannot parse date'')"

definition asposeNumericDateLen :: nat where "asposeNumericDateLen = 8"

definition parseAsposeDate :: "string \<Rightarrow> (string, date) result" where
  "parseAsposeDate raw0 =
     (let raw = trim_space raw0
      in if length raw = asposeNumericDateLen \<and> isAllDigits raw
         then parse_ymd (take 4 raw) (take 2 (drop 4 raw)) (drop 6 raw)
         else parse_iso raw)"

text \<open>\<^verbatim>\<open>Format("2006-01-02")\<close>, for years of four digits.\<close>

definition pad :: "nat \<Rightarrow> int \<Rightarrow> string" where
  "pad w n = replicate (w - length (utoa (nat n))) (CHR ''0'') @ utoa (nat n)"

fun format_date :: "date \<Rightarrow> string" where
  "format_date (y, m, d) = pad 4 y @ ''-'' @ pad 2 m @ ''-'' @ pad 2 d"

subsection \<open>The license file\<close>

datatype xml_token = StartElement string | EndElement | CharData string | OtherToken | SyntaxError string

datatype lic_error = NotExist string | Invalid string

text \<open>
  \<^verbatim>\<open>DecodeElement\<close> into a string: the character data of the element itself up to its end tag, the
  content of nested elements (of depth \<open>n\<close>) skipped.
\<close>

fun decode_text :: "nat \<Rightarrow> xml_token list \<Rightarrow> (string, string \<times> xml_token list) result" where
  "decode_text n [] = Err ''unexpected EOF''"
| "decode_text n (EndElement # ts) = (case n of 0 \<Rightarrow> Ok ([], ts) | Suc m \<Rightarrow> decode_text m ts)"
| "decode_text n (StartElement _ # ts) = decode_text (Suc n) ts"
| "decode_text n (CharData s # ts) =
     (case decode_text n ts of Err e \<Rightarrow> Err e | Ok (t, r) \<Rightarrow> Ok ((if n = 0 then s else []) @ t, r))"
| "decode_text n (OtherToken # ts) = decode_text n ts"
| "decode_text n (SyntaxError e # ts) = Err e"

lemma decode_text_rest: "decode_text n ts = Ok (t, r) \<Longrightarrow> length r < length ts"
  by (induction n ts arbitrary: t r rule: decode_text.induct) (auto split: nat.splits sum.splits prod.splits simp: less_Suc_eq)

definition is_expiry :: "string \<Rightarrow> bool" where
  "is_expiry name \<longleftrightarrow> name = ''SubscriptionExpiry'' \<or> name = ''LicenseExpiry''"

function expiry_loop :: "xml_token list \<Rightarrow> date option \<Rightarrow> (lic_error, date option) result" where
  "expiry_loop [] earliest = Ok earliest"
| "expiry_loop (SyntaxError e # ts) earliest = Err (Invalid (''malformed license XML: '' @ e))"
| "expiry_loop (StartElement name # ts) earliest =
     (if \<not> is_expiry name then expiry_loop ts earliest
      else case decode_text 0 ts of
             Err e \<Rightarrow> Err (Invalid (''malformed license XML: '' @ e))
           | Ok (raw, rest) \<Rightarrow>
               (if trim_space raw = '''' then expiry_loop rest earliest
                else case parseAsposeDate (trim_space raw) of
                       Err e \<Rightarrow> Err (Invalid e)
                     | Ok d \<Rightarrow>
                         expiry_loop rest (case earliest of None \<Rightarrow> Some d | Some e \<Rightarrow> Some (if day_number d < day_number e then d else e))))"
| "expiry_loop (EndElement # ts) earliest = expiry_loop ts earliest"
| "expiry_loop (CharData s # ts) earliest = expiry_loop ts earliest"
| "expiry_loop (OtherToken # ts) earliest = expiry_loop ts earliest"
  by pat_completeness auto
termination
  by (relation "measure (\<lambda>(ts, e). length ts)") (auto dest: decode_text_rest)

text \<open>What \<^verbatim>\<open>os.Stat\<close> (the modification time) and \<^verbatim>\<open>os.Open\<close> find at the license path during a query.\<close>

record lic_disk =
  stat_mtime :: "int option"
  open_content :: "(lic_error, string) result"

definition parseExpiry :: "(string \<Rightarrow> xml_token list) \<Rightarrow> lic_disk \<Rightarrow> (lic_error, date option) result" where
  "parseExpiry xml disk = (case open_content disk of Err e \<Rightarrow> Err e | Ok c \<Rightarrow> expiry_loop (xml c) None)"

subsection \<open>The manager\<close>

text \<open>The zero \<^verbatim>\<open>time.Time\<close>, 1 January of the year 1. \<open>expiry\<close> is \<open>None\<close> for \<^verbatim>\<open>hasExp = false\<close>.\<close>

definition zero_time :: int where "zero_time = - 62135596800 * 10 ^ 9"

record LicenseManager =
  lm_read :: bool
  modTime :: int
  expiry :: "date option"

definition license_NewManager :: LicenseManager where
  "license_NewManager = \<lparr>lm_read = False, modTime = zero_time, expiry = None\<rparr>"

definition Refresh :: "LicenseManager \<Rightarrow> LicenseManager" where
  "Refresh m = m\<lparr>lm_read := False\<rparr>"

definition ExpiryDate :: "(string \<Rightarrow> xml_token list) \<Rightarrow> lic_disk \<Rightarrow> LicenseManager \<Rightarrow> (lic_error, date option) result \<times> LicenseManager" where
  "ExpiryDate xml disk m =
     (let changed = (case stat_mtime disk of None \<Rightarrow> False | Some t \<Rightarrow> t \<noteq> modTime m)
      in if \<not> lm_read m \<or> changed
         then (case parseExpiry xml disk of
                 Err e \<Rightarrow> (Err e, m)
               | Ok ex \<Rightarrow> (Ok ex, \<lparr>lm_read = True, modTime = (case stat_mtime disk of None \<Rightarrow> modTime m | Some t \<Rightarrow> t), expiry = ex\<rparr>))
         else (Ok (expiry m), m))"

text \<open>
  Whole days between two dates: \<^verbatim>\<open>Time.Sub\<close> saturates at the range of a 64-bit \<^verbatim>\<open>Duration\<close>, \<^verbatim>\<open>Hours\<close> is a
  float64 of whole hours and the rest.
\<close>

definition day_ns :: int where "day_ns = 86400 * 10 ^ 9"

definition hour_ns :: int where "hour_ns = 3600 * 10 ^ 9"

definition saturate :: "int \<Rightarrow> int" where
  "saturate d = max (- (2 ^ 63)) (min (2 ^ 63 - 1) d)"

definition tquot :: "int \<Rightarrow> int \<Rightarrow> int" where
  "tquot a b = (if 0 \<le> a then a div b else - (- a div b))"

definition hours :: "int \<Rightarrow> rat" where
  "hours d = fadd (fl (tquot d hour_ns)) (fdiv (fl (d - tquot d hour_ns * hour_ns)) (of_int hour_ns))"

definition today :: "int \<Rightarrow> int" where
  "today now = 719162 + now div day_ns"

definition days_between :: "(rat \<Rightarrow> int) \<Rightarrow> int \<Rightarrow> int \<Rightarrow> int" where
  "days_between oor ex td = f2i oor (fdiv (hours (saturate ((ex - td) * day_ns))) 24)"

definition DaysRemaining ::
  "(rat \<Rightarrow> int) \<Rightarrow> (string \<Rightarrow> xml_token list) \<Rightarrow> int \<Rightarrow> lic_disk \<Rightarrow> LicenseManager \<Rightarrow> (lic_error, int option) result \<times> LicenseManager" where
  "DaysRemaining oor xml now disk m =
     (case ExpiryDate xml disk m of
        (Err e, m1) \<Rightarrow> (Err e, m1)
      | (Ok None, m1) \<Rightarrow> (Ok None, m1)
      | (Ok (Some ex), m1) \<Rightarrow> (Ok (Some (days_between oor (day_number ex) (today now))), m1))"

definition IsExpired ::
  "(rat \<Rightarrow> int) \<Rightarrow> (string \<Rightarrow> xml_token list) \<Rightarrow> int \<Rightarrow> lic_disk \<Rightarrow> LicenseManager \<Rightarrow> (lic_error, bool) result \<times> LicenseManager" where
  "IsExpired oor xml now disk m =
     (case DaysRemaining oor xml now disk m of
        (Err e, m1) \<Rightarrow> (Err e, m1)
      | (Ok None, m1) \<Rightarrow> (Ok False, m1)
      | (Ok (Some days), m1) \<Rightarrow> (Ok (days < 0), m1))"

definition healthyMinDays :: int where "healthyMinDays = 7"
definition warnMinDays :: int where "warnMinDays = 4"

definition Classify :: "int \<Rightarrow> bool \<Rightarrow> LicenseState" where
  "Classify daysRemaining hasExpiry =
     (if \<not> hasExpiry then LicenseStatePermanent
      else if daysRemaining > healthyMinDays then LicenseStateHealthy
      else if daysRemaining \<ge> warnMinDays then LicenseStateWarn
      else if daysRemaining \<ge> 1 then LicenseStateCritical
      else if daysRemaining = 0 then LicenseStateExpiringToday
      else LicenseStateExpired)"

definition State ::
  "(rat \<Rightarrow> int) \<Rightarrow> (string \<Rightarrow> xml_token list) \<Rightarrow> int \<Rightarrow> lic_disk \<Rightarrow> LicenseManager \<Rightarrow>
     (LicenseState \<times> lic_error option) \<times> LicenseManager" where
  "State oor xml now disk m =
     (case DaysRemaining oor xml now disk m of
        (Err e, m1) \<Rightarrow> ((LicenseStateExpired, Some e), m1)
      | (Ok None, m1) \<Rightarrow> ((LicenseStatePermanent, None), m1)
      | (Ok (Some days), m1) \<Rightarrow> ((Classify days True, None), m1))"

text \<open>A run of the manager: queries, each with what the disk holds at its time, and forced refreshes.\<close>

datatype lic_op = Query lic_disk | DoRefresh

fun lic_run :: "(string \<Rightarrow> xml_token list) \<Rightarrow> lic_op list \<Rightarrow> LicenseManager \<Rightarrow> LicenseManager" where
  "lic_run xml [] m = m"
| "lic_run xml (Query disk # ops) m = lic_run xml ops (snd (ExpiryDate xml disk m))"
| "lic_run xml (DoRefresh # ops) m = lic_run xml ops (Refresh m)"

section \<open>The calendar\<close>

lemma daysIn_bounds: "28 \<le> daysIn m y" "daysIn m y \<le> 31"
  by (simp_all add: daysIn_def)

lemma month_start_mono: "m \<le> m' \<Longrightarrow> month_start m y \<le> month_start m' y"
proof (induction m' rule: dec_induct)
  case (step n)
  with daysIn_bounds(1) [of "int (Suc n)" y] show ?case by simp
qed simp

lemma mod_zero_dvd: "k dvd n \<Longrightarrow> y mod n = 0 \<Longrightarrow> y mod k = (0 :: int)"
  by (meson dvd_imp_mod_0 dvd_trans mod_0_imp_dvd)

lemma year_length: "year_start (y + 1) = year_start y + (if leap y then 366 else 365)"
proof -
  have step: "y div k = (y - 1) div k + (if y mod k = 0 then 1 else 0)" if k: "0 < k" for k :: int
  proof -
    define q r where "q = (y - 1) div k" and "r = (y - 1) mod k"
    have y: "y = (r + 1) + q * k" "0 \<le> r" "r < k" using k by (simp_all add: q_def r_def)
    show ?thesis
    proof (cases "r + 1 = k")
      case True
      then have "y = (q + 1) * k" using y(1) by (simp add: algebra_simps)
      then have "y div k = q + 1" "y mod k = 0" using k by simp_all
      then show ?thesis by (simp add: q_def [symmetric])
    next
      case False
      then have "y div k = q" "y mod k = r + 1" unfolding y(1) using y(2,3) by simp_all
      then show ?thesis using y(2) by (simp add: q_def [symmetric])
    qed
  qed
  define p4 p100 p400 where p: "p4 = (y mod 4 = 0)" "p100 = (y mod 100 = 0)" "p400 = (y mod 400 = 0)"
  have d: "(4 :: int) dvd 100" "(100 :: int) dvd 400" by simp_all
  have "p100 \<longrightarrow> p4" "p400 \<longrightarrow> p100" using mod_zero_dvd [OF d(1), of y] mod_zero_dvd [OF d(2), of y] unfolding p by iprover+
  moreover have "year_start (y + 1) = 365 * y + y div 4 - y div 100 + y div 400" by (simp add: year_start_def)
  moreover define a4 a100 a400 where a: "a4 = (y - 1) div 4" "a100 = (y - 1) div 100" "a400 = (y - 1) div 400"
  have "y div 4 = a4 + (if p4 then 1 else 0)" "y div 100 = a100 + (if p100 then 1 else 0)" "y div 400 = a400 + (if p400 then 1 else 0)"
    unfolding a p by (rule step, simp)+
  ultimately have "year_start (y + 1) = 365 * y + (a4 + (if p4 then 1 else 0)) - (a100 + (if p100 then 1 else 0)) + (a400 + (if p400 then 1 else 0))"
    by (simp only:)
  moreover have "year_start y = 365 * (y - 1) + a4 - a100 + a400" "leap y = (p4 \<and> (\<not> p100 \<or> p400))"
    unfolding year_start_def leap_def a p by (rule refl)+
  ultimately show ?thesis using \<open>p100 \<longrightarrow> p4\<close> \<open>p400 \<longrightarrow> p100\<close> by (cases p4; cases p100; cases p400) simp_all
qed

lemma year_start_step: "y < y' \<Longrightarrow> year_start y + (if leap y then 366 else 365) \<le> year_start y'"
proof (induction y' rule: int_gr_induct [of y])
  case base
  then show ?case by (simp add: year_length)
next
  case (step i)
  then show ?case using year_length [of i] by (simp split: if_splits)
qed

lemma month_start_12: "month_start 12 y = (if leap y then 366 else 365)"
  by (simp add: eval_nat_numeral daysIn_def)

lemma day_in_month: "1 \<le> m \<Longrightarrow> d \<le> daysIn m y \<Longrightarrow> month_start (nat (m - 1)) y + d \<le> month_start (nat m) y"
proof -
  assume "1 \<le> m" "d \<le> daysIn m y"
  moreover from this have "nat m = Suc (nat (m - 1))" by simp
  ultimately show ?thesis by simp
qed

lemma day_number_bounds:
  assumes "valid_date (y, m, d)"
  shows "year_start y + month_start (nat (m - 1)) y \<le> day_number (y, m, d)" "day_number (y, m, d) < year_start y + month_start (nat m) y"
    "month_start (nat m) y \<le> (if leap y then 366 else 365)" "0 \<le> month_start (nat (m - 1)) y"
  using assms day_in_month [of m d y] month_start_mono [of "nat m" 12 y, unfolded month_start_12] month_start_mono [of 0 "nat (m - 1)" y]
  by (auto split: if_splits)

text \<open>The day number orders the valid dates as the calendar does.\<close>

lemma day_number_less:
  assumes v: "valid_date (y, m, d)" "valid_date (y', m', d')"
    and lt: "y < y' \<or> y = y' \<and> (m < m' \<or> m = m' \<and> d < d')"
  shows "day_number (y, m, d) < day_number (y', m', d')"
proof -
  note b = day_number_bounds [OF v(1)] and b' = day_number_bounds [OF v(2)]
  show ?thesis
  proof (cases "y = y'")
    case False
    then show ?thesis using lt b b' year_start_step [of y y'] by linarith
  next
    case True
    show ?thesis
    proof (cases "m = m'")
      case False
      then have "nat m \<le> nat (m' - 1)" using lt True by simp
      then show ?thesis using month_start_mono [of "nat m" "nat (m' - 1)" y] b(2) b'(1) True by simp
    next
      case month: True
      then show ?thesis using lt True by simp
    qed
  qed
qed

lemma day_number_iff:
  assumes "valid_date (y, m, d)" "valid_date (y', m', d')"
  shows "day_number (y, m, d) < day_number (y', m', d') \<longleftrightarrow> y < y' \<or> y = y' \<and> (m < m' \<or> m = m' \<and> d < d')"
  using day_number_less [OF assms] day_number_less [OF assms(2,1)]
  by (metis less_asym linorder_less_linear)

section \<open>Parsing and printing\<close>

lemma atou_lt: "list_all is_digit s \<Longrightarrow> atou a s < (a + 1) * 10 ^ length s"
proof (induction s arbitrary: a)
  case (Cons c s)
  have "digit_val c \<le> 9" using Cons.prems by (auto simp: is_digit_def digit_val_def)
  then have "(10 * a + digit_val c + 1) * 10 ^ length s \<le> (10 * a + 10) * 10 ^ length s" by (intro mult_le_mono1) simp
  moreover have "atou (10 * a + digit_val c) s < (10 * a + digit_val c + 1) * 10 ^ length s" using Cons by simp
  moreover have "(a + 1) * 10 ^ length (c # s) = (10 * a + 10) * 10 ^ length s" by (simp add: algebra_simps)
  ultimately show ?case by (simp only: atou.simps)
qed simp

lemma pad_digits:
  assumes "0 \<le> n" "n < 10 ^ w" "0 < w"
  shows "length (pad w n) = w" "list_all is_digit (pad w n)" "int (atou 0 (pad w n)) = n" "c \<in> set (pad w n) \<Longrightarrow> is_digit c"
proof -
  have "nat n < 10 ^ w" using assms by (metis nat_less_iff of_nat_numeral of_nat_power)
  then have "length (utoa (nat n)) \<le> w" using assms(3) by (rule length_utoa)
  then show "length (pad w n) = w" by (simp add: pad_def)
  show *: "is_digit c" if "c \<in> set (pad w n)" for c using that utoa_digits by (auto simp: pad_def is_digit_def split: if_splits)
  show "list_all is_digit (pad w n)" using * by (auto simp: list_all_iff)
  show "int (atou 0 (pad w n)) = n" using assms(1) by (simp add: pad_def atou_zeros atou_utoa)
qed

lemma parse_ymd_valid: "parse_ymd ys ms ds = Ok date \<Longrightarrow> length ys = 4 \<Longrightarrow> list_all is_digit ys \<Longrightarrow> valid_date date"
  using atou_lt [of ys 0] by (auto simp: parse_ymd_def Let_def split: if_splits)

lemma parse_ymd_pad: "valid_date (y, m, d) \<Longrightarrow> parse_ymd (pad 4 y) (pad 2 m) (pad 2 d) = Ok (y, m, d)"
  using pad_digits(3) [of y 4] pad_digits(3) [of m 2] pad_digits(3) [of d 2] daysIn_bounds(2) [of m y]
  by (simp add: parse_ymd_def Let_def)

lemma parseAsposeDate_valid: "parseAsposeDate raw = Ok date \<Longrightarrow> valid_date date"
proof -
  have "list_all is_digit s \<Longrightarrow> list_all is_digit (take 4 s)" for s by (auto simp: list_all_iff dest: in_set_takeD)
  then have "\<exists>ys ms ds. parse_ymd ys ms ds = Ok date \<and> length ys = 4 \<and> list_all is_digit ys" if "parseAsposeDate raw = Ok date"
    using that by (fastforce simp: parseAsposeDate_def parse_iso_def isAllDigits_def asposeNumericDateLen_def Let_def split: if_splits)
  then show "parseAsposeDate raw = Ok date \<Longrightarrow> valid_date date" by (blast dest: parse_ymd_valid)
qed

lemma trim_visible_digits: "\<forall>c \<in> set s. is_digit c \<or> c = CHR ''-'' \<Longrightarrow> trim_space s = s"
  by (rule trim_space_visible) (auto simp: is_digit_def)

lemma parseAsposeDate_print:
  assumes v: "valid_date (y, m, d)"
  shows "parseAsposeDate (format_date (y, m, d)) = Ok (y, m, d)" "parseAsposeDate (pad 4 y @ pad 2 m @ pad 2 d) = Ok (y, m, d)"
proof -
  have "0 \<le> y" "y < 10 ^ 4" "0 \<le> m" "m < 10 ^ 2" "0 \<le> d" "d < 10 ^ 2" using v daysIn_bounds(2) [of m y] by auto
  then have l: "length (pad 4 y) = 4" "length (pad 2 m) = 2" "length (pad 2 d) = 2"
    and dig: "list_all is_digit (pad 4 y)" "list_all is_digit (pad 2 m)" "list_all is_digit (pad 2 d)"
    and ds: "\<forall>c \<in> set (pad 4 y) \<union> set (pad 2 m) \<union> set (pad 2 d). is_digit c"
    using pad_digits [of y 4] pad_digits [of m 2] pad_digits [of d 2] by auto
  have ne: "pad 4 y \<noteq> []" "pad 2 m \<noteq> []" "pad 2 d \<noteq> []" using l by auto
  have t1: "trim_space (format_date (y, m, d)) = format_date (y, m, d)" by (rule trim_visible_digits) (use ds in auto)
  have t2: "trim_space (pad 4 y @ pad 2 m @ pad 2 d) = pad 4 y @ pad 2 m @ pad 2 d" by (rule trim_visible_digits) (use ds in auto)
  show "parseAsposeDate (pad 4 y @ pad 2 m @ pad 2 d) = Ok (y, m, d)"
    unfolding parseAsposeDate_def t2 Let_def using l dig ne parse_ymd_pad [OF v]
    by (simp add: asposeNumericDateLen_def isAllDigits_def)
  show "parseAsposeDate (format_date (y, m, d)) = Ok (y, m, d)"
    unfolding parseAsposeDate_def t1 Let_def using l dig ne parse_ymd_pad [OF v]
    by (simp add: asposeNumericDateLen_def isAllDigits_def parse_iso_def nth_append)
qed

section \<open>The binding date\<close>

text \<open>All dates of a token stream, in document order: the reference for the loop of \<^verbatim>\<open>parseExpiry\<close>.\<close>

function expiry_dates :: "xml_token list \<Rightarrow> (lic_error, date list) result" where
  "expiry_dates [] = Ok []"
| "expiry_dates (t # ts) =
     (case t of
        SyntaxError e \<Rightarrow> Err (Invalid (''malformed license XML: '' @ e))
      | StartElement name \<Rightarrow>
          if \<not> is_expiry name then expiry_dates ts
          else (case decode_text 0 ts of
                  Err e \<Rightarrow> Err (Invalid (''malformed license XML: '' @ e))
                | Ok (raw, rest) \<Rightarrow>
                    if trim_space raw = '''' then expiry_dates rest
                    else (case parseAsposeDate (trim_space raw) of
                            Err e \<Rightarrow> Err (Invalid e)
                          | Ok d \<Rightarrow> map_sum id ((#) d) (expiry_dates rest)))
      | _ \<Rightarrow> expiry_dates ts)"
  by pat_completeness auto
termination
  by (relation "measure length") (auto dest: decode_text_rest)

definition earlier :: "date option \<Rightarrow> date \<Rightarrow> date option" where
  "earlier best d = (case best of None \<Rightarrow> Some d | Some e \<Rightarrow> Some (if day_number d < day_number e then d else e))"

lemma expiry_loop_dates: "expiry_loop ts best = map_sum id (\<lambda>ds. foldl earlier best ds) (expiry_dates ts)"
proof (induction ts best rule: expiry_loop.induct)
  case (3 name ts best)
  show ?case
  proof (cases "is_expiry name")
    case True
    show ?thesis
    proof (cases "decode_text 0 ts")
      case (Inl e)
      then show ?thesis using True by simp
    next
      case (Inr p)
      obtain raw rest where p: "p = (raw, rest)" by (cases p)
      show ?thesis
      proof (cases "trim_space raw = ''''")
        case blank: True
        then show ?thesis using 3(2) [OF _ Inr p [symmetric]] True Inr p by simp
      next
        case False
        show ?thesis
        proof (cases "parseAsposeDate (trim_space raw)")
          case (Inl e)
          then show ?thesis using True \<open>decode_text 0 ts = Inr p\<close> p False by simp
        next
          case date: (Inr d)
          have "expiry_loop rest (earlier best d) = map_sum id (\<lambda>ds. foldl earlier (earlier best d) ds) (expiry_dates rest)"
            using 3(3) [OF _ \<open>decode_text 0 ts = Inr p\<close> p [symmetric] False date] True by (simp add: earlier_def [symmetric] id_def)
          then show ?thesis using True \<open>decode_text 0 ts = Inr p\<close> p False date
            by (simp add: earlier_def [symmetric] sum.map_comp o_def id_def)
        qed
      qed
    qed
  next
    case False
    then show ?thesis using 3(1) by simp
  qed
qed simp_all

lemma earlier_least:
  "foldl earlier best ds = Some d \<Longrightarrow> (best = Some d \<or> d \<in> set ds) \<and> (\<forall>e \<in> set ds. day_number d \<le> day_number e) \<and>
     (\<forall>e. best = Some e \<longrightarrow> day_number d \<le> day_number e)"
proof (induction ds arbitrary: best)
  case (Cons x ds)
  then have "foldl earlier (earlier best x) ds = Some d" by simp
  from Cons.IH [OF this] show ?case by (cases best) (auto simp: earlier_def split: if_splits)
qed simp

lemma earlier_None: "foldl earlier best ds = None \<longleftrightarrow> best = None \<and> ds = []"
  by (induction ds arbitrary: best) (auto simp: earlier_def split: option.splits)

lemma expiry_dates_valid: "expiry_dates ts = Ok ds \<Longrightarrow> d \<in> set ds \<Longrightarrow> valid_date d"
proof (induction ts arbitrary: ds rule: expiry_dates.induct)
  case (2 t ts)
  then show ?case
    by (auto split: xml_token.splits sum.splits prod.splits if_splits simp: map_sum_def dest: parseAsposeDate_valid)
qed simp

section \<open>Days\<close>

lemma hours_whole:
  assumes "\<bar>k\<bar> \<le> 106751"
  shows "saturate (k * day_ns) = k * day_ns" "hours (k * day_ns) = of_int (k * 24)" "fdiv (of_int (k * 24)) 24 = of_int k"
proof -
  show "saturate (k * day_ns) = k * day_ns" using assms by (simp add: saturate_def day_ns_def)
  have day: "k * day_ns = (k * 24) * hour_ns" by (simp add: day_ns_def hour_ns_def)
  have "tquot (j * hour_ns) hour_ns = j" for j
    by (cases "0 \<le> j") (auto simp: tquot_def hour_ns_def zero_le_mult_iff simp flip: mult_minus_left)
  moreover have "rnd64 (of_int (k * 24)) = of_int (k * 24)" using assms by (intro rnd64_of_int) simp
  ultimately show "hours (k * day_ns) = of_int (k * 24)"
    unfolding hours_def day by (simp add: fl_def fadd_def fdiv_def del: of_int_mult)
  show "fdiv (of_int (k * 24)) 24 = of_int k" using rnd64_of_int [of k] assms by (simp add: fdiv_def)
qed

lemma days_between_exact: "\<bar>ex - td\<bar> \<le> 106751 \<Longrightarrow> days_between oor ex td = ex - td"
proof -
  assume b: "\<bar>ex - td\<bar> \<le> 106751"
  have "days_between oor ex td = f2i oor (of_int (ex - td))" unfolding days_between_def by (simp only: hours_whole [OF b])
  also have "\<dots> = ex - td" using b by (auto simp: f2i_def trunc_rat_def Let_def simp flip: of_int_diff)
  finally show ?thesis .
qed

lemma days_between_negative: "days_between oor ex td < 0 \<longleftrightarrow> ex < td"
proof (cases "\<bar>ex - td\<bar> \<le> 106751")
  case True
  then show ?thesis by (simp add: days_between_exact)
next
  case False
  define d where "d = saturate ((ex - td) * day_ns)"
  have d: "d = (if ex < td then - (2 ^ 63) else 2 ^ 63 - 1)"
    using False by (auto simp: d_def saturate_def day_ns_def)
  have q: "tquot d hour_ns = (if ex < td then - 2562047 else 2562047)" by (simp add: d tquot_def hour_ns_def)
  define r where "r = fdiv (fl (d - tquot d hour_ns * hour_ns)) (of_int hour_ns)"
  have r: "if ex < td then r \<le> 0 \<and> - 1 \<le> r else 0 \<le> r \<and> r \<le> 1"
  proof -
    define s where "s = (if ex < td then - 2836854775808 else 2836854775807 :: int)"
    have s: "d - tquot d hour_ns * hour_ns = s" by (simp only: q) (simp add: d s_def hour_ns_def)
    have fl: "fl s = of_int s" by (rule fl_int) (simp add: s_def)
    show ?thesis unfolding r_def fdiv_def s fl
      using f64.rnd_le_int [of 0] f64.rnd_ge_int [of "- 1"] f64.rnd_ge_int [of 0] f64.rnd_le_int [of 1]
      by (simp add: s_def hour_ns_def)
  qed
  have "fl (tquot d hour_ns) = of_int (tquot d hour_ns)" by (rule fl_int) (simp add: q)
  then have h: "hours d = rnd64 (of_int (tquot d hour_ns) + r)" by (simp add: hours_def r_def fadd_def)
  have "if ex < td then - 2562048 \<le> hours d \<and> hours d \<le> - 24 else 24 \<le> hours d \<and> hours d \<le> 2562048"
    unfolding h q using r f64.rnd_ge_int [of "- 2562048"] f64.rnd_le_int [of "- 24"] f64.rnd_ge_int [of 24] f64.rnd_le_int [of 2562048] by auto
  then have "if ex < td then - 2562048 \<le> fdiv (hours d) 24 \<and> fdiv (hours d) 24 \<le> - 1 else 1 \<le> fdiv (hours d) 24 \<and> fdiv (hours d) 24 \<le> 2562048"
    unfolding fdiv_def using f64.rnd_ge_int [of "- 2562048" "hours d / 24"] f64.rnd_le_int [of "- 1" "hours d / 24"] f64.rnd_ge_int [of 1 "hours d / 24"]
      f64.rnd_le_int [of 2562048 "hours d / 24"] by auto
  moreover define x where "x = fdiv (hours d) 24"
  ultimately have x: "if ex < td then - 2562048 \<le> x \<and> x \<le> - 1 else 1 \<le> x \<and> x \<le> 2562048" by simp
  have "if ex < td then - 2562048 \<le> trunc_rat x \<and> trunc_rat x \<le> - 1 else 1 \<le> trunc_rat x \<and> trunc_rat x \<le> 2562048"
    using x by (cases "ex < td") (auto simp: trunc_rat_def le_floor_iff floor_le_iff)
  then have "f2i oor x = trunc_rat x \<and> (trunc_rat x < 0 \<longleftrightarrow> ex < td)" by (auto simp: f2i_def Let_def split: if_splits)
  then show ?thesis by (simp add: days_between_def d_def [symmetric] x_def [symmetric])
qed

section \<open>The cache of the manager\<close>

text \<open>A disk on which the modification time identifies the content and a failing \<^verbatim>\<open>Stat\<close> means a failing \<^verbatim>\<open>Open\<close>.\<close>

definition disk_ok :: "(int \<Rightarrow> (lic_error, string) result) \<Rightarrow> lic_disk \<Rightarrow> bool" where
  "disk_ok content disk \<longleftrightarrow>
     (case stat_mtime disk of None \<Rightarrow> (\<exists>e. open_content disk = Err e) | Some t \<Rightarrow> open_content disk = content t)"

definition lm_inv :: "(string \<Rightarrow> xml_token list) \<Rightarrow> (int \<Rightarrow> (lic_error, string) result) \<Rightarrow> LicenseManager \<Rightarrow> bool" where
  "lm_inv xml content m \<longleftrightarrow>
     (lm_read m \<longrightarrow> parseExpiry xml \<lparr>stat_mtime = Some (modTime m), open_content = content (modTime m)\<rparr> = Ok (expiry m))"

lemma parseExpiry_content: "open_content d = open_content d' \<Longrightarrow> parseExpiry xml d = parseExpiry xml d'"
  by (simp add: parseExpiry_def)

lemma ExpiryDate_inv: "lm_inv xml content m \<Longrightarrow> disk_ok content disk \<Longrightarrow> lm_inv xml content (snd (ExpiryDate xml disk m))"
  by (auto simp: ExpiryDate_def lm_inv_def disk_ok_def parseExpiry_def Let_def split: option.splits sum.splits)

lemma lic_run_inv: "lm_inv xml content m \<Longrightarrow> \<forall>d. Query d \<in> set ops \<longrightarrow> disk_ok content d \<Longrightarrow> lm_inv xml content (lic_run xml ops m)"
proof (induction xml ops m rule: lic_run.induct)
  case (2 xml disk ops m)
  then show ?case using ExpiryDate_inv by simp
next
  case (3 xml ops m)
  then show ?case by (simp add: lm_inv_def Refresh_def)
qed simp

section \<open>Properties\<close>

text \<open>
  The manager's cache is invisible: after any sequence of queries and refreshes, on a disk whose
  content changes only together with its modification time, a query that finds the file returns exactly
  what parsing the file now returns, also when the license was renewed in place since the last query.
\<close>

theorem license_cache_transparent:
  assumes "\<forall>d. Query d \<in> set ops \<longrightarrow> disk_ok content d" "disk_ok content disk" "stat_mtime disk = Some t"
  shows "fst (ExpiryDate xml disk (lic_run xml ops license_NewManager)) = parseExpiry xml disk"
proof -
  have inv: "lm_inv xml content (lic_run xml ops license_NewManager)"
    using assms(1) by (intro lic_run_inv) (simp_all add: lm_inv_def license_NewManager_def)
  have "open_content disk = content t" using assms(2,3) by (simp add: disk_ok_def)
  with inv assms(3) show ?thesis
    by (auto simp: ExpiryDate_def lm_inv_def Let_def parseExpiry_def split: sum.splits)
qed

text \<open>
  The date that \<^verbatim>\<open>parseExpiry\<close> returns is the binding one: when the file can be read it is a valid date of
  one of the \<^verbatim>\<open>LicenseExpiry\<close> and \<^verbatim>\<open>SubscriptionExpiry\<close> elements and no such element has an earlier
  date in the calendar; there is none exactly when no element has a date.
\<close>

theorem binding_date_is_earliest:
  assumes "parseExpiry xml disk = Ok ex"
  shows "\<exists>c ds. open_content disk = Ok c \<and> expiry_dates (xml c) = Ok ds \<and> (ex = None \<longleftrightarrow> ds = []) \<and>
    (\<forall>y m d. ex = Some (y, m, d) \<longrightarrow> valid_date (y, m, d) \<and> (y, m, d) \<in> set ds \<and>
      (\<forall>(y', m', d') \<in> set ds. \<not> (y' < y \<or> y' = y \<and> (m' < m \<or> m' = m \<and> d' < d))))"
proof -
  obtain c where c: "open_content disk = Ok c" "expiry_loop (xml c) None = Ok ex"
    using assms by (auto simp: parseExpiry_def split: sum.splits)
  then obtain ds where ds: "expiry_dates (xml c) = Ok ds" "ex = foldl earlier None ds"
    by (auto simp: expiry_loop_dates map_sum_def split: sum.splits)
  have "\<not> (y' < y \<or> y' = y \<and> (m' < m \<or> m' = m \<and> d' < d))" if "ex = Some (y, m, d)" "(y', m', d') \<in> set ds" for y m d y' m' d'
  proof -
    from that ds(2) earlier_least [of None ds "(y, m, d)"] have "(y, m, d) \<in> set ds" "day_number (y, m, d) \<le> day_number (y', m', d')" by fastforce+
    with day_number_iff [OF expiry_dates_valid [OF ds(1) that(2)] expiry_dates_valid [OF ds(1) this(1)]] show ?thesis by linarith
  qed
  moreover have "valid_date (y, m, d) \<and> (y, m, d) \<in> set ds" if "ex = Some (y, m, d)" for y m d
    using that ds(2) earlier_least [of None ds "(y, m, d)"] expiry_dates_valid [OF ds(1), of "(y, m, d)"] by (simp del: valid_date.simps day_number.simps)
  ultimately show ?thesis using c(1) ds earlier_None [of None ds] by (intro exI [of _ c] exI [of _ ds]) auto
qed

text \<open>
  Both Aspose date formats are read back: a valid date printed as \<^verbatim>\<open>YYYY-MM-DD\<close>, as the error response
  for an expired license prints it, or as \<^verbatim>\<open>YYYYMMDD\<close> parses to the same date, and whatever
  \<^verbatim>\<open>parseAsposeDate\<close> accepts is a valid date.
\<close>

theorem license_date_roundtrip:
  "(valid_date (y, m, d) \<longrightarrow> parseAsposeDate (format_date (y, m, d)) = Ok (y, m, d) \<and> parseAsposeDate (pad 4 y @ pad 2 m @ pad 2 d) = Ok (y, m, d)) \<and>
   (parseAsposeDate raw = Ok date \<longrightarrow> valid_date date)"
  using parseAsposeDate_print parseAsposeDate_valid by blast

text \<open>
  A license is refused exactly from the day after its binding date on, and \<^verbatim>\<open>State\<close> agrees with this
  decision: when the file can be read, \<^verbatim>\<open>IsExpired\<close> holds if and only if the date lies before the current
  UTC day, which is when \<^verbatim>\<open>State\<close> reports an expired license, and a license without a date is permanent
  and never refused.
\<close>

theorem license_refused_when_past:
  assumes "fst (ExpiryDate xml disk m) = Ok ex"
  shows "fst (IsExpired oor xml now disk m) = Ok (\<exists>d. ex = Some d \<and> day_number d < today now) \<and>
    fst (State oor xml now disk m) =
       ((case ex of None \<Rightarrow> LicenseStatePermanent | Some d \<Rightarrow> Classify (days_between oor (day_number d) (today now)) True), None) \<and>
    (fst (fst (State oor xml now disk m)) = LicenseStateExpired \<longleftrightarrow> fst (IsExpired oor xml now disk m) = Ok True)"
proof (intro conjI)
  obtain m1 where m1: "ExpiryDate xml disk m = (Ok ex, m1)" using assms by (cases "ExpiryDate xml disk m") auto
  show *: "fst (IsExpired oor xml now disk m) = Ok (\<exists>d. ex = Some d \<and> day_number d < today now)"
    by (simp add: IsExpired_def DaysRemaining_def m1 days_between_negative split: option.splits del: day_number.simps)
  show "fst (State oor xml now disk m) =
       ((case ex of None \<Rightarrow> LicenseStatePermanent | Some d \<Rightarrow> Classify (days_between oor (day_number d) (today now)) True), None)"
    by (simp add: State_def DaysRemaining_def m1 split: option.splits)
  moreover have "Classify k True = LicenseStateExpired \<longleftrightarrow> k < 0" for k
    by (simp add: Classify_def healthyMinDays_def warnMinDays_def)
  ultimately show "fst (fst (State oor xml now disk m)) = LicenseStateExpired \<longleftrightarrow> fst (IsExpired oor xml now disk m) = Ok True"
    unfolding * by (cases ex) (simp_all add: days_between_negative del: day_number.simps)
qed

text \<open>A license file with two dates, one of them in the numeric format.\<close>

definition demo_xml :: "string \<Rightarrow> xml_token list" where
  "demo_xml c = [StartElement ''License'', StartElement ''SubscriptionExpiry'', CharData c, EndElement,
     StartElement ''LicenseExpiry'', CharData ''20250131'', EndElement, EndElement]"

definition demo_disk :: "string \<Rightarrow> int \<Rightarrow> lic_disk" where
  "demo_disk c t = \<lparr>stat_mtime = Some t, open_content = Ok c\<rparr>"

lemma demo_dates:
  "trim_space ''20250131'' = ''20250131''" "trim_space ''2024-02-29'' = ''2024-02-29''"
  by (rule trim_visible_digits, simp add: is_digit_def)+

lemma demo_aspose_dates: "parseAsposeDate ''20250131'' = Ok (2025, 1, 31)" "parseAsposeDate ''2024-02-29'' = Ok (2024, 2, 29)"
  unfolding parseAsposeDate_def demo_dates
  by (simp_all add: parse_iso_def parse_ymd_def asposeNumericDateLen_def isAllDigits_def is_digit_def digit_val_def Let_def daysIn_def leap_def)

lemma demo_order: "\<not> day_number (2025, 1, 31) < day_number (2024, 2, 29)"
  by (subst day_number_iff) (simp_all add: daysIn_def leap_def)

lemma demo_parse: "parseExpiry demo_xml (demo_disk ''2024-02-29'' t) = Ok (Some (2024, 2, 29))"
  by (simp add: parseExpiry_def demo_disk_def demo_xml_def is_expiry_def demo_dates demo_aspose_dates demo_order del: day_number.simps)

theorem license_cache_transparent_witness:
  "fst (ExpiryDate demo_xml (demo_disk ''2024-02-29'' 2) (lic_run demo_xml [Query (demo_disk '''' 1)] license_NewManager)) = Ok (Some (2024, 2, 29))"
  using license_cache_transparent [of "[Query (demo_disk '''' 1)]" "\<lambda>t. Ok (if t = 1 then '''' else ''2024-02-29'')" "demo_disk ''2024-02-29'' 2" 2 demo_xml]
  by (simp add: disk_ok_def demo_parse) (simp add: demo_disk_def)

theorem binding_date_is_earliest_witness:
  "\<exists>ds. expiry_dates (demo_xml ''2024-02-29'') = Ok ds \<and> (2024, 2, 29) \<in> set ds"
  using binding_date_is_earliest [OF demo_parse, of 1] by (auto simp: demo_disk_def)

theorem license_date_roundtrip_witness:
  "parseAsposeDate (format_date (2024, 2, 29)) = Ok (2024, 2, 29)"
  using license_date_roundtrip [of 2024 2 29] by (simp add: daysIn_def leap_def)

theorem license_refused_when_past_witness:
  "fst (IsExpired (\<lambda>_. 0) demo_xml (1750000000 * 10 ^ 9) (demo_disk ''2024-02-29'' 1) license_NewManager) = Ok True"
proof -
  have "fst (ExpiryDate demo_xml (demo_disk ''2024-02-29'' 1) license_NewManager) = Ok (Some (2024, 2, 29))"
    using demo_parse [of 1] by (simp add: ExpiryDate_def license_NewManager_def)
  from license_refused_when_past [OF this, of "\<lambda>_. 0" "1750000000 * 10 ^ 9"] show ?thesis
    by (simp add: today_def day_ns_def year_start_def daysIn_def)
qed

end
