(* ===== verification/Csvinput.thy ===== *)
theory Csvinput
  imports Probe
begin

text \<open>
  \<^verbatim>\<open>internal/csvinput/csvinput.go\<close>: a CSV upload is wrapped as a minimal XLSX workbook. The reader of
  \<^verbatim>\<open>encoding/csv\<close>, as it is configured here (comma, lazy quotes, records of any length), and the syntax
  of \<^verbatim>\<open>strconv.ParseFloat\<close> are modelled; the writer of \<^verbatim>\<open>archive/zip\<close> is the parameter \<open>zipw\<close>, from the
  entries to the archive. With lazy quotes and a reader over bytes the CSV reader reports no error.
\<close>

section \<open>Definitions\<close>

definition charToIn :: rat where "charToIn = rnd64 (7 / 96)"
definition minColW :: rat where "minColW = 8"
definition maxColW :: rat where "maxColW = 50"
definition a4PortraitPrintable :: rat where "a4PortraitPrintable = rnd64 (687 / 100)"

definition IsCSVFilename :: "string \<Rightarrow> bool" where
  "IsCSVFilename filename \<longleftrightarrow> filename \<noteq> '''' \<and> has_suffix (to_lower filename) ''.csv''"

subsection \<open>Reading\<close>

definition nl :: char where "nl = CHR 10"
definition cr :: char where "cr = CHR 13"
definition quot :: char where "quot = CHR 34"
definition comma :: char where "comma = CHR 44"

text \<open>A carriage return before a line feed or at the end of the input is dropped.\<close>

fun norm_nl :: "string \<Rightarrow> string" where
  "norm_nl [] = []"
| "norm_nl [c] = (if c = cr then [] else [c])"
| "norm_nl (c # d # s) = (if c = cr \<and> d = nl then norm_nl (d # s) else c # norm_nl (d # s))"

text \<open>
  One field: its text, whether another field of the record follows, and the rest of the input. A quoted
  field keeps line feeds and commas; a doubled quote is a quote; a quote that neither ends the field nor
  is doubled is kept as it is.
\<close>

fun plain_field :: "string \<Rightarrow> string \<times> bool \<times> string" where
  "plain_field [] = ([], False, [])"
| "plain_field (c # s) =
     (if c = comma then ([], True, s) else if c = nl then ([], False, s)
      else (let (f, more, r) = plain_field s in (c # f, more, r)))"

fun quoted_field :: "string \<Rightarrow> string \<times> bool \<times> string" where
  "quoted_field [] = ([], False, [])"
| "quoted_field [c] = (if c = quot then ([], False, []) else ([c], False, []))"
| "quoted_field (c # d # s) =
     (if c \<noteq> quot then (let (f, more, r) = quoted_field (d # s) in (c # f, more, r))
      else if d = quot then (let (f, more, r) = quoted_field s in (quot # f, more, r))
      else if d = comma then ([], True, s)
      else if d = nl then ([], False, s)
      else (let (f, more, r) = quoted_field (d # s) in (quot # f, more, r)))"

definition csv_field :: "string \<Rightarrow> string \<times> bool \<times> string" where
  "csv_field s = (case s of [] \<Rightarrow> plain_field [] | c # s' \<Rightarrow> if c = quot then quoted_field s' else plain_field s)"

lemma plain_field_shrinks: "length (snd (snd (plain_field s))) \<le> length s"
  by (induction s) (auto split: prod.splits)

lemma quoted_field_shrinks: "length (snd (snd (quoted_field s))) \<le> length s"
  by (induction s rule: quoted_field.induct) (auto split: prod.splits)

lemma csv_field_shrinks: "s \<noteq> [] \<Longrightarrow> length (snd (snd (csv_field s))) < length s"
proof -
  have "length (snd (snd (plain_field (c # s')))) < Suc (length s')" for c s'
    using plain_field_shrinks [of s'] by (auto split: prod.splits)
  then show "s \<noteq> [] \<Longrightarrow> length (snd (snd (csv_field s))) < length s"
    using quoted_field_shrinks by (cases s) (auto simp: csv_field_def less_Suc_eq_le)
qed

lemma csv_field_more: "fst (snd (csv_field s)) \<Longrightarrow> length (snd (snd (csv_field s))) < length s"
  using csv_field_shrinks [of s] by (cases "s = []") (auto simp: csv_field_def)

function csv_record :: "string \<Rightarrow> string list \<times> string" where
  "csv_record s =
     (if fst (snd (csv_field s))
      then (fst (csv_field s) # fst (csv_record (snd (snd (csv_field s)))), snd (csv_record (snd (snd (csv_field s)))))
      else ([fst (csv_field s)], snd (snd (csv_field s))))"
  by pat_completeness auto
termination
  by (relation "measure length") (auto dest: csv_field_more)

declare csv_record.simps [simp del]

lemma csv_record_le: "length (snd (csv_record s)) \<le> length s"
proof (induction s rule: csv_record.induct)
  case (1 s)
  then show ?case using csv_field_shrinks [of s] csv_field_more [of s] by (cases "s = []") (auto simp: csv_record.simps [of s] csv_record.simps [of "[]"] csv_field_def)
qed

lemma csv_record_shrinks: "s \<noteq> [] \<Longrightarrow> length (snd (csv_record s)) < length s"
  using csv_field_shrinks [of s] csv_record_le [of "snd (snd (csv_field s))"] by (auto simp: csv_record.simps [of s])

function csv_records :: "string \<Rightarrow> string list list" where
  "csv_records s =
     (if dropWhile (\<lambda>c. c = nl) s = [] then []
      else fst (csv_record (dropWhile (\<lambda>c. c = nl) s)) # csv_records (snd (csv_record (dropWhile (\<lambda>c. c = nl) s))))"
  by pat_completeness auto
termination
proof (relation "measure length", goal_cases)
  case (2 s)
  then show ?case using csv_record_shrinks [OF 2] length_dropWhile_le [of "\<lambda>c. c = nl" s] by simp
qed simp

declare csv_records.simps [simp del]

definition readRows :: "string \<Rightarrow> string list list" where
  "readRows csvBytes =
     (let b = (if has_prefix csvBytes utf8_bom then drop (length utf8_bom) csvBytes else csvBytes) in csv_records (norm_nl b))"

subsection \<open>The sheet\<close>

definition estimateColWidths :: "string list list \<Rightarrow> rat list" where
  "estimateColWidths rows =
     (let nCols = foldr max (map length rows) 0
      in map (\<lambda>ci. let maxLen = foldr max (map (\<lambda>r. if ci < length r then length (r ! ci) else 0) rows) 0;
                       w = fl (int maxLen + 2);
                       w1 = (if w < minColW then minColW else w)
                   in if w1 > maxColW then maxColW else w1) [0..<nCols])"

text \<open>The column name: bijective base 26. \<open>fmt_2f\<close> is \<^verbatim>\<open>%.2f\<close> of a non-negative number.\<close>

function colLetter :: "int \<Rightarrow> string" where
  "colLetter n = (if n < 0 then '''' else colLetter (n div 26 - 1) @ [char_of (65 + nat (n mod 26))])"
  by pat_completeness auto
termination
proof (relation "measure (\<lambda>n. nat (n + 1))", goal_cases)
  case (2 n)
  then show ?case by (simp add: zless_nat_eq_int_zless) presburger
qed simp

declare colLetter.simps [simp del]

definition fmt_2f :: "rat \<Rightarrow> string" where
  "fmt_2f x = (let c = round_even (x * 100) in itoa (c div 100) @ ''.'' @ [digit_char (nat (c mod 100 div 10)), digit_char (nat (c mod 10))])"

definition xmlEscape :: "string \<Rightarrow> string" where
  "xmlEscape s = replace_all (replace_all (replace_all s ''&'' ''&amp;'') ''<'' ''&lt;'') ''>'' ''&gt;''"

subsection \<open>Numbers\<close>

text \<open>\<^verbatim>\<open>strconv.ParseFloat(v, 64)\<close>: the special values in any case, read first.\<close>

fun common_ci :: "string \<Rightarrow> string \<Rightarrow> nat" where
  "common_ci (c # s) (p # ps) = (if lower_byte c = p then Suc (common_ci s ps) else 0)"
| "common_ci s ps = 0"

definition special_len :: "string \<Rightarrow> nat option" where
  "special_len s =
     (let sign = (s \<noteq> '''' \<and> hd s \<in> {CHR ''+'', CHR ''-''}); u = (if sign then tl s else s);
          n = common_ci u ''infinity''; n' = (if 3 < n \<and> n < 8 then 3 else n)
      in if s = '''' then None
         else if (sign \<or> lower_byte (hd s) = CHR ''i'') \<and> (n' = 3 \<or> n' = 8) then Some ((if sign then 1 else 0) + n')
         else if \<not> sign \<and> lower_byte (hd s) = CHR ''n'' \<and> common_ci s ''nan'' = 3 then Some 3
         else None)"

definition hex_val :: "char \<Rightarrow> nat option" where
  "hex_val c =
     (if is_digit c then Some (digit_val c)
      else (let n = of_char (lower_byte c) :: nat in if 97 \<le> n \<and> n \<le> 102 then Some (n - 87) else None))"

definition digit_in :: "bool \<Rightarrow> char \<Rightarrow> nat option" where
  "digit_in hx c = (if hx then hex_val c else if is_digit c then Some (digit_val c) else None)"

text \<open>The digits with at most one point: mantissa, digits after the point, whether there are digits, the rest.\<close>

fun scan_mant :: "bool \<Rightarrow> bool \<Rightarrow> nat \<times> nat \<times> bool \<Rightarrow> string \<Rightarrow> nat \<times> nat \<times> bool \<times> string" where
  "scan_mant hx dot (m, f, some) [] = (m, f, some, [])"
| "scan_mant hx dot (m, f, some) (c # s) =
     (if c = CHR ''_'' then scan_mant hx dot (m, f, some) s
      else if c = CHR ''.'' then (if dot then (m, f, some, c # s) else scan_mant hx True (m, f, some) s)
      else (case digit_in hx c of
              Some d \<Rightarrow> scan_mant hx dot ((if hx then 16 else 10) * m + d, (if dot then f + 1 else f), True) s
            | None \<Rightarrow> (m, f, some, c # s)))"

fun scan_exp :: "nat \<Rightarrow> string \<Rightarrow> nat \<times> string" where
  "scan_exp e [] = (e, [])"
| "scan_exp e (c # s) =
     (if c = CHR ''_'' then scan_exp e s
      else if is_digit c then scan_exp (if e < 10000 then e * 10 + digit_val c else e) s
      else (e, c # s))"

text \<open>Underscores separate digits; \<open>saw\<close> is the class of the character before.\<close>

fun underscores_ok :: "bool \<Rightarrow> char \<Rightarrow> string \<Rightarrow> bool" where
  "underscores_ok hx saw [] = (saw \<noteq> CHR ''_'')"
| "underscores_ok hx saw (c # s) =
     (if digit_in hx c \<noteq> None then underscores_ok hx (CHR ''0'') s
      else if c = CHR ''_'' then saw = CHR ''0'' \<and> underscores_ok hx (CHR ''_'') s
      else saw \<noteq> CHR ''_'' \<and> underscores_ok hx (CHR ''!'') s)"

definition unsigned :: "string \<Rightarrow> string" where
  "unsigned s = (if s \<noteq> '''' \<and> hd s \<in> {CHR ''+'', CHR ''-''} then tl s else s)"

definition underscoreOK :: "string \<Rightarrow> bool" where
  "underscoreOK s =
     (let u = unsigned s
      in if 2 \<le> length u \<and> hd u = CHR ''0'' \<and> lower_byte (u ! 1) \<in> {CHR ''b'', CHR ''o'', CHR ''x''}
         then underscores_ok (lower_byte (u ! 1) = CHR ''x'') (CHR ''0'') (drop 2 u)
         else underscores_ok False (CHR ''^'') u)"

text \<open>The value is out of range from half a unit in the last place above the largest float64 on.\<close>

definition float_limit :: rat where "float_limit = 2 ^ 1024 - 2 ^ 970"

definition ParseFloat_ok :: "string \<Rightarrow> bool" where
  "ParseFloat_ok s =
     (case special_len s of
        Some n \<Rightarrow> n = length s
      | None \<Rightarrow>
          (let u = unsigned s; hx = (2 < length u \<and> hd u = CHR ''0'' \<and> lower_byte (u ! 1) = CHR ''x'');
               (m, f, some, r) = scan_mant hx False (0, 0, False) (if hx then drop 2 u else u);
               has_exp = (r \<noteq> [] \<and> lower_byte (hd r) = (if hx then CHR ''p'' else CHR ''e''));
               neg = (has_exp \<and> tl r \<noteq> [] \<and> hd (tl r) = CHR ''-'');
               x = unsigned (tl r);
               (e, r') = (if has_exp then scan_exp 0 x else (0, r));
               scale = (if hx then 2 else 10 :: rat) powi (if neg then - int e else int e);
               val = of_nat m / (if hx then 16 else 10) ^ f * scale
           in some \<and> (has_exp \<longrightarrow> x \<noteq> [] \<and> is_digit (hd x)) \<and> (hx \<longrightarrow> has_exp) \<and> r' = [] \<and>
              (CHR ''_'' \<in> set s \<longrightarrow> underscoreOK s) \<and> val < float_limit))"

definition isNumber :: "string \<Rightarrow> bool" where
  "isNumber v = (v \<noteq> '''' \<and> ParseFloat_ok v)"

subsection \<open>The workbook\<close>

definition dq :: "string \<Rightarrow> string" where "dq s = quot # s @ [quot]"

definition col_xml :: "nat \<times> rat \<Rightarrow> string" where
  "col_xml p = (let i = itoa (int (fst p) + 1)
     in ''<col min='' @ dq i @ '' max='' @ dq i @ '' width='' @ dq (fmt_2f (snd p)) @ '' customWidth='' @ dq ''1'' @ ''/>'')"

definition cell_ref :: "nat \<Rightarrow> nat \<Rightarrow> string" where
  "cell_ref ci rIdx = colLetter (int ci) @ itoa (int rIdx)"

definition cell_xml :: "nat \<Rightarrow> nat \<times> string \<Rightarrow> string" where
  "cell_xml rIdx p =
     (let ref = cell_ref (fst p) rIdx; val = snd p
      in if rIdx > 1 \<and> isNumber val then ''<c r='' @ dq ref @ ''><v>'' @ val @ ''</v></c>''
         else ''<c r='' @ dq ref @ '' t='' @ dq ''inlineStr'' @ ''><is><t xml:space='' @ dq ''preserve'' @ ''>'' @ xmlEscape val @ ''</t></is></c>'')"

definition row_xml :: "nat \<times> string list \<Rightarrow> string" where
  "row_xml p =
     (let rIdx = fst p + 1
      in ''<row r='' @ dq (itoa (int rIdx)) @ ''>'' @ concat (map (cell_xml rIdx) (List.enumerate 0 (snd p))) @ ''</row>'')"

definition xml_decl :: string where
  "xml_decl = ''<?xml version='' @ dq ''1.0'' @ '' encoding='' @ dq ''UTF-8'' @ '' standalone='' @ dq ''yes'' @ ''?>''"

definition sheetXML :: "string list list \<Rightarrow> rat list \<Rightarrow> string \<Rightarrow> string" where
  "sheetXML rows colWidths orientation =
     (let colsXML = (if colWidths = [] then '''' else ''<cols>'' @ concat (map col_xml (List.enumerate 0 colWidths)) @ ''</cols>'');
          rowsXML = concat (map row_xml (List.enumerate 0 rows))
      in xml_decl @ ''<worksheet xmlns='' @ dq ''http://schemas.openxmlformats.org/spreadsheetml/2006/main'' @ ''>'' @ colsXML @
         ''<sheetData>'' @ rowsXML @ ''</sheetData>'' @
         ''<pageSetup paperSize='' @ dq ''9'' @ '' orientation='' @ dq orientation @ ''/>'' @ ''</worksheet>'')"

definition contentTypesXML :: string where
  "contentTypesXML = xml_decl @
     ''<Types xmlns='' @ dq ''http://schemas.openxmlformats.org/package/2006/content-types'' @ ''>'' @
     ''<Default Extension='' @ dq ''rels'' @ '' ContentType='' @ dq ''application/vnd.openxmlformats-package.relationships+xml'' @ ''/>'' @
     ''<Default Extension='' @ dq ''xml'' @ '' ContentType='' @ dq ''application/xml'' @ ''/>'' @
     ''<Override PartName='' @ dq ''/xl/workbook.xml'' @ '' ContentType='' @
       dq ''application/vnd.openxmlformats-officedocument.spreadsheetml.sheet.main+xml'' @ ''/>'' @
     ''<Override PartName='' @ dq ''/xl/worksheets/sheet1.xml'' @ '' ContentType='' @
       dq ''application/vnd.openxmlformats-officedocument.spreadsheetml.worksheet+xml'' @ ''/>'' @
     ''</Types>''"

definition relationships :: "string \<Rightarrow> string \<Rightarrow> string" where
  "relationships kind target = xml_decl @
     ''<Relationships xmlns='' @ dq ''http://schemas.openxmlformats.org/package/2006/relationships'' @ ''>'' @
     ''<Relationship Id='' @ dq ''rId1'' @ '' Type='' @
       dq (''http://schemas.openxmlformats.org/officeDocument/2006/relationships/'' @ kind) @ '' Target='' @ dq target @ ''/>'' @
     ''</Relationships>''"

definition rootRelsXML :: string where "rootRelsXML = relationships ''officeDocument'' ''xl/workbook.xml''"
definition workbookRelsXML :: string where "workbookRelsXML = relationships ''worksheet'' ''worksheets/sheet1.xml''"

definition workbookXML :: string where
  "workbookXML = xml_decl @
     ''<workbook xmlns='' @ dq ''http://schemas.openxmlformats.org/spreadsheetml/2006/main'' @ '' '' @
     ''xmlns:r='' @ dq ''http://schemas.openxmlformats.org/officeDocument/2006/relationships'' @ ''>'' @
     ''<sheets><sheet name='' @ dq ''Sheet1'' @ '' sheetId='' @ dq ''1'' @ '' r:id='' @ dq ''rId1'' @ ''/></sheets></workbook>''"

definition sheet_orientation :: "rat list \<Rightarrow> string" where
  "sheet_orientation colWidths =
     (let totalIn = foldl (\<lambda>t w. fadd t (fmul w charToIn)) 0 colWidths
      in if totalIn > a4PortraitPrintable then ''landscape'' else ''portrait'')"

definition CSVBytesToXLSXBytes :: "((string \<times> string) list \<Rightarrow> (string, string) result) \<Rightarrow> string \<Rightarrow> (string, string) result" where
  "CSVBytesToXLSXBytes zipw csvBytes =
     (let rows = readRows csvBytes; colWidths = estimateColWidths rows
      in zipw [(''[Content_Types].xml'', contentTypesXML), (''_rels/.rels'', rootRelsXML), (''xl/workbook.xml'', workbookXML),
              (''xl/_rels/workbook.xml.rels'', workbookRelsXML),
              (''xl/worksheets/sheet1.xml'', sheetXML rows colWidths (sheet_orientation colWidths))])"

section \<open>Escaping\<close>

definition esc :: "char \<Rightarrow> string" where
  "esc c = (if c = CHR ''&'' then ''&amp;'' else if c = CHR ''<'' then ''&lt;'' else if c = CHR ''>'' then ''&gt;'' else [c])"

lemma replace_all_char: "replace_all s [c] new = concat (map (\<lambda>x. if x = c then new else [x]) s)"
proof (induction s)
  case (Cons x s)
  then show ?case by (simp add: replace_all.simps [of "x # s"] has_prefix_def)
qed (simp add: replace_all.simps)

lemma xmlEscape_map: "xmlEscape s = concat (map esc s)"
  by (induction s) (simp_all add: xmlEscape_def replace_all_char esc_def)

text \<open>What an XML reader makes of the three entities.\<close>

fun unescape :: "string \<Rightarrow> string" where
  "unescape [] = []"
| "unescape (c # s) =
     (if c = CHR ''&'' \<and> has_prefix s ''amp;'' then CHR ''&'' # unescape (drop 4 s)
      else if c = CHR ''&'' \<and> has_prefix s ''lt;'' then CHR ''<'' # unescape (drop 3 s)
      else if c = CHR ''&'' \<and> has_prefix s ''gt;'' then CHR ''>'' # unescape (drop 3 s)
      else c # unescape s)"

lemma unescape_escape: "unescape (xmlEscape s) = s"
  by (induction s) (auto simp: xmlEscape_map esc_def has_prefix_def)

lemma xmlEscape_no_markup: "CHR ''<'' \<notin> set (xmlEscape s) \<and> CHR ''>'' \<notin> set (xmlEscape s)"
  by (induction s) (auto simp: xmlEscape_map esc_def)

lemma unescape_plain: "CHR ''&'' \<notin> set s \<Longrightarrow> unescape s = s"
  by (induction s) auto

section \<open>Numbers\<close>

abbreviation markup :: "char set" where "markup \<equiv> {CHR ''&'', CHR ''<'', CHR ''>''}"

lemma digit_in_markup: "digit_in hx c \<noteq> None \<Longrightarrow> c \<notin> markup"
  by (auto simp: digit_in_def hex_val_def is_digit_def lower_byte_def Let_def split: if_splits)

lemma scan_mant_prefix:
  "scan_mant hx dot st s = (m, f, some, r) \<Longrightarrow> \<exists>p. s = p @ r \<and> set p \<inter> markup = {}"
proof (induction hx dot st s rule: scan_mant.induct)
  case (2 hx dot m0 f0 some0 c s)
  show ?case
  proof (cases "c = CHR ''_'' \<or> c = CHR ''.'' \<and> \<not> dot \<or> c \<noteq> CHR ''.'' \<and> digit_in hx c \<noteq> None")
    case True
    then have "\<exists>p. s = p @ r \<and> set p \<inter> markup = {}" using 2 by (auto split: if_splits)
    then obtain p where "s = p @ r" "set p \<inter> markup = {}" by blast
    moreover have "c \<notin> markup" using True digit_in_markup [of hx c] by auto
    ultimately show ?thesis by (intro exI [of _ "c # p"]) auto
  next
    case False
    then show ?thesis using 2 by (intro exI [of _ "[]"]) (auto split: if_splits)
  qed
qed simp

lemma scan_exp_prefix: "scan_exp e s = (e', r) \<Longrightarrow> \<exists>p. s = p @ r \<and> set p \<inter> markup = {}"
proof (induction e s rule: scan_exp.induct)
  case (2 e c s)
  show ?case
  proof (cases "c = CHR ''_'' \<or> is_digit c")
    case True
    then have "\<exists>p. s = p @ r \<and> set p \<inter> markup = {}" using 2 by (auto split: if_splits)
    then obtain p where "s = p @ r" "set p \<inter> markup = {}" by blast
    moreover have "c \<notin> markup" using True by (auto simp: is_digit_def)
    ultimately show ?thesis by (intro exI [of _ "c # p"]) auto
  next
    case False
    then show ?thesis using 2 by (intro exI [of _ "[]"]) auto
  qed
qed simp

lemma common_ci_take: "common_ci s p = n \<Longrightarrow> c \<in> set (take n s) \<Longrightarrow> lower_byte c \<in> set p"
  by (induction s p arbitrary: n rule: common_ci.induct) (auto split: if_splits)

lemma markup_lower: "c \<in> markup \<Longrightarrow> lower_byte c = c"
  by (auto simp: lower_byte_def)

lemma special_no_markup:
  assumes "special_len s = Some (length s)"
  shows "set s \<inter> markup = {}"
proof -
  have letters: "c \<notin> markup" if "n \<le> common_ci u p" "length u \<le> n" "set p \<inter> markup = {}" "c \<in> set u" for c u p n
  proof -
    have "c \<in> set (take (common_ci u p) u)" using that by (simp add: take_all)
    then have "lower_byte c \<in> set p" by (rule common_ci_take [OF refl])
    with that(3) markup_lower [of c] show ?thesis by auto
  qed
  have p: "set ''infinity'' \<inter> markup = {}" "set ''nan'' \<inter> markup = {}" by simp_all
  obtain c t where s: "s = c # t" using assms by (cases s) (auto simp: special_len_def)
  show ?thesis
  proof (cases "c \<in> {CHR ''+'', CHR ''-''}")
    case True
    then have "length t \<le> common_ci t ''infinity''" using assms by (auto simp: special_len_def s Let_def split: if_splits)
    then show ?thesis using letters [OF _ order_refl p(1), of t] True by (auto simp: s)
  next
    case False
    then have "length s \<le> common_ci s ''infinity'' \<or> length s \<le> common_ci s ''nan''"
      using assms by (auto simp: special_len_def s Let_def split: if_splits)
    then show ?thesis using letters [OF _ order_refl p(1), of s] letters [OF _ order_refl p(2), of s] by blast
  qed
qed

lemma unsigned_prefix: "\<exists>p. s = p @ unsigned s \<and> set p \<inter> markup = {}"
  by (cases s) (auto simp: unsigned_def)

lemma clean_prefix_trans:
  "\<exists>p. a = p @ b \<and> set p \<inter> markup = {} \<Longrightarrow> \<exists>p. b = p @ c \<and> set p \<inter> markup = {} \<Longrightarrow> \<exists>p. a = p @ c \<and> set p \<inter> markup = {}"
  by (metis append.assoc set_append Int_Un_distrib2 sup_bot.right_neutral)

lemma lower_letter: "lower_byte c = d \<Longrightarrow> d \<notin> markup \<Longrightarrow> c \<notin> markup"
  using markup_lower by metis

lemma ParseFloat_no_markup:
  assumes "ParseFloat_ok s"
  shows "set s \<inter> markup = {}"
proof (cases "special_len s")
  case (Some n)
  then show ?thesis using assms special_no_markup [of s] by (simp add: ParseFloat_ok_def)
next
  case None
  define u where "u = unsigned s"
  define hx where "hx = (2 < length u \<and> hd u = CHR ''0'' \<and> lower_byte (u ! 1) = CHR ''x'')"
  obtain m f some r where scan: "scan_mant hx False (0, 0, False) (if hx then drop 2 u else u) = (m, f, some, r)"
    by (cases "scan_mant hx False (0, 0, False) (if hx then drop 2 u else u)") auto
  define has_exp where "has_exp = (r \<noteq> [] \<and> lower_byte (hd r) = (if hx then CHR ''p'' else CHR ''e''))"
  obtain e r' where ex: "(if has_exp then scan_exp 0 (unsigned (tl r)) else (0, r)) = (e, r')" by fastforce
  have r': "r' = []" using assms None unfolding ParseFloat_ok_def Let_def u_def [symmetric] hx_def [symmetric] scan
    by (simp add: has_exp_def [symmetric] ex)
  have "\<exists>p. u = p @ (if hx then drop 2 u else u) \<and> set p \<inter> markup = {}"
  proof (cases hx)
    case True
    then have "set (take 2 u) \<inter> markup = {}"
      using lower_letter [of "u ! 1" "CHR ''x''"] by (cases u; cases "tl u") (auto simp: hx_def)
    then show ?thesis using True by (metis append_take_drop_id)
  qed auto
  with scan_mant_prefix [OF scan] have "\<exists>p. u = p @ r \<and> set p \<inter> markup = {}" by (rule clean_prefix_trans [rotated, OF _])
  moreover have "\<exists>p. r = p @ [] \<and> set p \<inter> markup = {}"
  proof (cases has_exp)
    case True
    then have "hd r \<notin> markup" using lower_letter [of "hd r" "if hx then CHR ''p'' else CHR ''e''"] by (auto simp: has_exp_def)
    moreover have "r = hd r # tl r" using True by (simp add: has_exp_def)
    ultimately have "\<exists>p. r = p @ tl r \<and> set p \<inter> markup = {}" by (intro exI [of _ "[hd r]"]) auto
    moreover have "\<exists>p. unsigned (tl r) = p @ [] \<and> set p \<inter> markup = {}" using ex True r' scan_exp_prefix [of 0 "unsigned (tl r)" e r'] by simp
    ultimately show ?thesis using clean_prefix_trans unsigned_prefix by meson
  next
    case False
    then show ?thesis using ex r' by simp
  qed
  ultimately have "\<exists>p. u = p @ [] \<and> set p \<inter> markup = {}" by (rule clean_prefix_trans)
  moreover obtain p where "s = p @ u" "set p \<inter> markup = {}" using unsigned_prefix [of s] by (auto simp: u_def)
  ultimately show ?thesis by (simp add: Int_Un_distrib2)
qed

section \<open>Cell names\<close>

definition col_value :: "string \<Rightarrow> int" where
  "col_value s = foldl (\<lambda>a c. 26 * a + (int (of_char c) - 64)) 0 s"

lemma colLetter_value: "- 1 \<le> n \<Longrightarrow> col_value (colLetter n) = n + 1"
proof (induction n rule: colLetter.induct)
  case (1 n)
  show ?case
  proof (cases "n < 0")
    case True
    with 1 show ?thesis by (simp add: colLetter.simps [of n] col_value_def)
  next
    case False
    have "nat (n mod 26) < 26" by (simp add: nat_less_iff)
    then have "int (of_char (char_of (65 + nat (n mod 26)) :: char)) = 65 + n mod 26" by simp
    moreover have "- 1 \<le> n div 26 - 1" using False by simp
    ultimately show ?thesis using 1 False by (simp add: colLetter.simps [of n] col_value_def)
  qed
qed

lemma colLetter_inj: "0 \<le> m \<Longrightarrow> 0 \<le> n \<Longrightarrow> colLetter m = colLetter n \<Longrightarrow> m = n"
proof -
  assume mn: "0 \<le> m" "0 \<le> n" and eq: "colLetter m = colLetter n"
  have "col_value (colLetter m) = m + 1" "col_value (colLetter n) = n + 1" using mn by (simp_all add: colLetter_value)
  then show ?thesis unfolding eq by linarith
qed

lemma colLetter_not_digit: "c \<in> set (colLetter n) \<Longrightarrow> \<not> is_digit c"
proof (induction n rule: colLetter.induct)
  case (1 n)
  have "nat (n mod 26) < 26" by (simp add: nat_less_iff)
  with 1 show ?case by (auto simp: colLetter.simps [of n] is_digit_def split: if_splits)
qed

lemma cell_ref_inj: "cell_ref c r = cell_ref c' r' \<Longrightarrow> c = c' \<and> r = r'"
proof -
  assume eq: "cell_ref c r = cell_ref c' r'"
  have split: "takeWhile (\<lambda>x. \<not> is_digit x) (cell_ref c r) = colLetter (int c)" "dropWhile (\<lambda>x. \<not> is_digit x) (cell_ref c r) = utoa r" for c r
  proof -
    obtain d ds where u: "utoa r = d # ds" by (cases "utoa r") auto
    then have "is_digit d" using utoa_digits [of d r] by simp
    then show "takeWhile (\<lambda>x. \<not> is_digit x) (cell_ref c r) = colLetter (int c)" "dropWhile (\<lambda>x. \<not> is_digit x) (cell_ref c r) = utoa r"
      by (simp_all add: cell_ref_def itoa_def u takeWhile_append2 dropWhile_append2 colLetter_not_digit)
  qed
  from eq split [of c r] split [of c' r'] have "colLetter (int c) = colLetter (int c')" "utoa r = utoa r'" by simp_all
  then show ?thesis using colLetter_inj [of "int c" "int c'"] utoa_inj by simp
qed

section \<open>The archive\<close>

text \<open>What is used of \<^verbatim>\<open>archive/zip\<close>: an archive starts with the local header magic and is read back entry by entry.\<close>

definition zip_law :: "((string \<times> string) list \<Rightarrow> (string, string) result) \<Rightarrow> (string \<Rightarrow> zip_entry list option) \<Rightarrow> bool" where
  "zip_law zipw zipr \<longleftrightarrow>
     (\<forall>es a. zipw es = Ok a \<longrightarrow> es \<noteq> [] \<longrightarrow> has_prefix a zipMagic \<and> zipr a = Some (map (\<lambda>(n, b). (n, Some b)) es))"

lemma has_prefix_step: "has_prefix s [] = True" "has_prefix [] (d # p) = False" "has_prefix (c # s) (d # p) = (c = d \<and> has_prefix s p)"
  by (simp_all add: has_prefix_def)

lemma contains_iff: "contains s p \<longleftrightarrow> (\<exists>a b. s = a @ p @ b)"
proof (induction s)
  case (Cons c s)
  have "(\<exists>a b. c # s = a @ p @ b) \<longleftrightarrow> (\<exists>b. c # s = p @ b) \<or> (\<exists>a b. s = a @ p @ b)"
    by (metis append_Cons append_Nil list.sel(3) neq_Nil_conv)
  with Cons show ?case by (simp add: has_prefix_conv)
qed simp

lemma contains_suffix: "contains s (q @ p) \<Longrightarrow> contains s p"
  by (metis append.assoc contains_iff)

lemma contains_right: "contains b p \<Longrightarrow> contains (a @ b) p"
  by (metis append.assoc contains_iff)

lemma contains_dq: "contains (dq p @ b) p"
  unfolding contains_iff dq_def by (intro exI [of _ "[quot]"] exI [of _ "quot # b"]) simp

text \<open>The pieces of the content types hold no part of the other two types.\<close>

lemma no_word_type:
  "contains (xml_decl @ b) ''wordprocessingml.document.main+xml'' = contains b ''wordprocessingml.document.main+xml''"
  "contains (''<Types xmlns='' @ b) ''wordprocessingml.document.main+xml'' = contains b ''wordprocessingml.document.main+xml''"
  "contains (dq ''http://schemas.openxmlformats.org/package/2006/content-types'' @ b) ''wordprocessingml.document.main+xml'' = contains b ''wordprocessingml.document.main+xml''"
  "contains (''>'' @ b) ''wordprocessingml.document.main+xml'' = contains b ''wordprocessingml.document.main+xml''"
  "contains (''<Default Extension='' @ b) ''wordprocessingml.document.main+xml'' = contains b ''wordprocessingml.document.main+xml''"
  "contains (dq ''rels'' @ b) ''wordprocessingml.document.main+xml'' = contains b ''wordprocessingml.document.main+xml''"
  "contains ('' ContentType='' @ b) ''wordprocessingml.document.main+xml'' = contains b ''wordprocessingml.document.main+xml''"
  "contains (dq ''application/vnd.openxmlformats-package.relationships+xml'' @ b) ''wordprocessingml.document.main+xml'' = contains b ''wordprocessingml.document.main+xml''"
  "contains (''/>'' @ b) ''wordprocessingml.document.main+xml'' = contains b ''wordprocessingml.document.main+xml''"
  "contains (dq ''xml'' @ b) ''wordprocessingml.document.main+xml'' = contains b ''wordprocessingml.document.main+xml''"
  "contains (dq ''application/xml'' @ b) ''wordprocessingml.document.main+xml'' = contains b ''wordprocessingml.document.main+xml''"
  "contains (''<Override PartName='' @ b) ''wordprocessingml.document.main+xml'' = contains b ''wordprocessingml.document.main+xml''"
  "contains (dq ''/xl/workbook.xml'' @ b) ''wordprocessingml.document.main+xml'' = contains b ''wordprocessingml.document.main+xml''"
  "contains (dq ''application/vnd.openxmlformats-officedocument.spreadsheetml.sheet.main+xml'' @ b) ''wordprocessingml.document.main+xml'' = contains b ''wordprocessingml.document.main+xml''"
  "contains (dq ''/xl/worksheets/sheet1.xml'' @ b) ''wordprocessingml.document.main+xml'' = contains b ''wordprocessingml.document.main+xml''"
  "contains (dq ''application/vnd.openxmlformats-officedocument.spreadsheetml.worksheet+xml'' @ b) ''wordprocessingml.document.main+xml'' = contains b ''wordprocessingml.document.main+xml''"
  "contains ''</Types>'' ''wordprocessingml.document.main+xml'' = False"
  by (simp_all add: has_prefix_step xml_decl_def dq_def quot_def)

lemma no_slide_type:
  "contains (xml_decl @ b) ''n.main+xml'' = contains b ''n.main+xml''"
  "contains (''<Types xmlns='' @ b) ''n.main+xml'' = contains b ''n.main+xml''"
  "contains (dq ''http://schemas.openxmlformats.org/package/2006/content-types'' @ b) ''n.main+xml'' = contains b ''n.main+xml''"
  "contains (''>'' @ b) ''n.main+xml'' = contains b ''n.main+xml''"
  "contains (''<Default Extension='' @ b) ''n.main+xml'' = contains b ''n.main+xml''"
  "contains (dq ''rels'' @ b) ''n.main+xml'' = contains b ''n.main+xml''"
  "contains ('' ContentType='' @ b) ''n.main+xml'' = contains b ''n.main+xml''"
  "contains (dq ''application/vnd.openxmlformats-package.relationships+xml'' @ b) ''n.main+xml'' = contains b ''n.main+xml''"
  "contains (''/>'' @ b) ''n.main+xml'' = contains b ''n.main+xml''"
  "contains (dq ''xml'' @ b) ''n.main+xml'' = contains b ''n.main+xml''"
  "contains (dq ''application/xml'' @ b) ''n.main+xml'' = contains b ''n.main+xml''"
  "contains (''<Override PartName='' @ b) ''n.main+xml'' = contains b ''n.main+xml''"
  "contains (dq ''/xl/workbook.xml'' @ b) ''n.main+xml'' = contains b ''n.main+xml''"
  "contains (dq ''application/vnd.openxmlformats-officedocument.spreadsheetml.sheet.main+xml'' @ b) ''n.main+xml'' = contains b ''n.main+xml''"
  "contains (dq ''/xl/worksheets/sheet1.xml'' @ b) ''n.main+xml'' = contains b ''n.main+xml''"
  "contains (dq ''application/vnd.openxmlformats-officedocument.spreadsheetml.worksheet+xml'' @ b) ''n.main+xml'' = contains b ''n.main+xml''"
  "contains ''</Types>'' ''n.main+xml'' = False"
  by (simp_all add: has_prefix_step xml_decl_def dq_def quot_def)

lemma content_types_xlsx: "classifyByContentTypes contentTypesXML = ''xlsx''"
proof -
  have "\<not> contains contentTypesXML ''wordprocessingml.document.main+xml''"
    unfolding contentTypesXML_def by (simp only: append_assoc no_word_type not_False_eq_True)
  then have word: "\<not> contains contentTypesXML ''application/vnd.openxmlformats-officedocument.wordprocessingml.document.main+xml''"
    using contains_suffix [of contentTypesXML "''application/vnd.openxmlformats-officedocument.''" "''wordprocessingml.document.main+xml''"] by auto
  have "\<not> contains contentTypesXML ''n.main+xml''"
    unfolding contentTypesXML_def by (simp only: append_assoc no_slide_type not_False_eq_True)
  then have slide: "\<not> contains contentTypesXML ''application/vnd.openxmlformats-officedocument.presentationml.presentation.main+xml''"
    using contains_suffix [of contentTypesXML "''application/vnd.openxmlformats-officedocument.presentationml.presentatio''" "''n.main+xml''"] by auto
  have "contains contentTypesXML ''application/vnd.openxmlformats-officedocument.spreadsheetml.sheet.main+xml''"
    unfolding contentTypesXML_def append_assoc by (rule contains_dq | rule contains_right)+
  with word slide show ?thesis by (simp add: classifyByContentTypes_def ooxmlContentTypeToFormat_def FormatXLSX_def del: contains.simps)
qed

section \<open>Properties\<close>

text \<open>
  C28: An uploaded CSV file reaches the pipeline as a spreadsheet: whatever its bytes are, when the archive
  could be written the normalized file is detected as \<^verbatim>\<open>xlsx\<close> under every file name, provided the zip
  reader reads back what the zip writer wrote.
\<close>

theorem csv_upload_is_xlsx:
  assumes "zip_law zipw zipr" "CSVBytesToXLSXBytes zipw csv = Ok x"
    and "st path = Some x" "open_err os path = None" "path \<noteq> ''''" "4 \<le> n"
  shows "DetectFormat zipr os (take n x) path name st = Ok ''xlsx''"
proof -
  obtain es where es: "zipw ((''[Content_Types].xml'', contentTypesXML) # es) = Ok x" "list_all (\<lambda>e. fst e \<notin> {''[Content_Types].xml'', ''mimetype''}) es"
    using assms(2) by (force simp: CSVBytesToXLSXBytes_def Let_def)
  then have zip: "has_prefix x zipMagic" "zipr x = Some ((''[Content_Types].xml'', Some contentTypesXML) # map (\<lambda>(n, b). (n, Some b)) es)"
    using assms(1) unfolding zip_law_def by fastforce+
  have rest: "inspect_entries (map (\<lambda>(n, b). (n, Some b)) es) ct = inspect_entries [] ct" for ct
    using es(2) by (induction es) auto
  obtain y where "x = zipMagic @ y" using zip(1) by (auto simp: has_prefix_conv)
  then have head: "take n x \<noteq> []" "has_prefix (take n x) zipMagic" "\<not> has_prefix (take n x) pdfMagic"
    using assms(6) by (auto simp: zipMagic_def pdfMagic_def has_prefix_def bytes_def take_Cons' split: nat.splits)
  have "contentTypesXML \<noteq> ''''" by (simp add: contentTypesXML_def xml_decl_def)
  then have "inspectOOXMLPath zipr os path st = Ok ''xlsx''"
    using assms(3,4) by (simp add: inspectOOXMLPath_def zip_open_def run_Open zip(2) rest readZipEntry_def content_types_xlsx)
  with head assms(5) show ?thesis by (simp add: DetectFormat_def)
qed

text \<open>
  C29: The text of a CSV cell cannot break out of its cell: the payload that \<^verbatim>\<open>sheetXML\<close> writes for a cell
  holds no angle bracket, and reading its entities gives the cell's text back. A numeric cell, which is
  not escaped, has neither brackets nor ampersands because \<^verbatim>\<open>ParseFloat\<close> accepts none.
\<close>

theorem csv_cell_contained:
  "\<exists>open_tag payload close_tag. cell_xml r (ci, v) = open_tag @ payload @ close_tag \<and>
     CHR ''<'' \<notin> set payload \<and> CHR ''>'' \<notin> set payload \<and> unescape payload = v \<and>
     (open_tag, close_tag) \<in> {(''<c r='' @ dq (cell_ref ci r) @ ''><v>'', ''</v></c>''),
       (''<c r='' @ dq (cell_ref ci r) @ '' t='' @ dq ''inlineStr'' @ ''><is><t xml:space='' @ dq ''preserve'' @ ''>'', ''</t></is></c>'')}"
proof (cases "r > 1 \<and> isNumber v")
  case True
  then have "set v \<inter> markup = {}" by (simp add: isNumber_def ParseFloat_no_markup)
  then have "CHR ''<'' \<notin> set v" "CHR ''>'' \<notin> set v" "unescape v = v" using unescape_plain [of v] by auto
  with True show ?thesis
    by (intro exI [of _ "''<c r='' @ dq (cell_ref ci r) @ ''><v>''"] exI [of _ v] exI [of _ "''</v></c>''"]) (simp add: cell_xml_def)
next
  case False
  with xmlEscape_no_markup [of v] unescape_escape [of v] show ?thesis
    by (intro exI [of _ "''<c r='' @ dq (cell_ref ci r) @ '' t='' @ dq ''inlineStr'' @ ''><is><t xml:space='' @ dq ''preserve'' @ ''>''"]
        exI [of _ "xmlEscape v"] exI [of _ "''</t></is></c>''"]) (auto simp: cell_xml_def)
qed

text \<open>
  Every cell of the sheet has a name of its own: the column letters and the row number determine the
  column and the row.
\<close>

theorem cell_names_unique: "cell_ref ci r = cell_ref ci' r' \<longleftrightarrow> ci = ci' \<and> r = r'"
  using cell_ref_inj by blast

text \<open>
  Words are taken for numbers: a cell below the first row whose text is \<^verbatim>\<open>nan\<close>, \<^verbatim>\<open>inf\<close> or
  \<^verbatim>\<open>infinity\<close> in any capitalization (a name, an abbreviation) is written as a numeric cell, which a
  spreadsheet cannot hold, because \<^verbatim>\<open>ParseFloat\<close> accepts the special values.
\<close>

theorem csv_words_become_numbers:
  assumes "map lower_byte v \<in> {''nan'', ''inf'', ''infinity''}" "r > 1"
  shows "cell_xml r (ci, v) = ''<c r='' @ dq (cell_ref ci r) @ ''><v>'' @ v @ ''</v></c>''"
proof -
  have ci: "common_ci s (map lower_byte s @ t) = length s" for s t by (induction s) auto
  have "special_len v = Some (length v)"
  proof -
    have len: "length v = length (map lower_byte v)" by simp
    obtain c u where v: "v = c # u" using assms(1) by (cases v) auto
    have "c \<notin> {CHR ''+'', CHR ''-''}" using assms(1) by (auto simp: v lower_byte_def)
    then show ?thesis
      using assms(1) ci [of v "[]"] ci [of v "''inity''"] len by (auto simp: v special_len_def Let_def)
  qed
  moreover have "v \<noteq> ''''" using assms(1) by auto
  ultimately show ?thesis using assms(2) by (simp add: cell_xml_def Let_def isNumber_def ParseFloat_ok_def)
qed

text \<open>A stored archive: each text as its characters, each after a mark, and an end mark.\<close>

fun demo_enc :: "string \<Rightarrow> string" where
  "demo_enc [] = ''e''"
| "demo_enc (c # s) = CHR ''c'' # c # demo_enc s"

fun demo_dec :: "string \<Rightarrow> string \<times> string" where
  "demo_dec (m # c # s) = (if m = CHR ''c'' then (let (t, r) = demo_dec s in (c # t, r)) else ([], c # s))"
| "demo_dec [m] = ([], [])"
| "demo_dec [] = ([], [])"

lemma demo_dec_enc: "demo_dec (demo_enc s @ r) = (s, r)"
proof (induction s)
  case Nil
  show ?case by (cases r) auto
qed simp

definition demo_zipw :: "(string \<times> string) list \<Rightarrow> (string, string) result" where
  "demo_zipw es = Ok (zipMagic @ concat (map (\<lambda>(n, b). demo_enc n @ demo_enc b) es))"

function demo_entries :: "string \<Rightarrow> zip_entry list" where
  "demo_entries s =
     (if length (snd (demo_dec (snd (demo_dec s)))) < length s
      then (fst (demo_dec s), Some (fst (demo_dec (snd (demo_dec s))))) # demo_entries (snd (demo_dec (snd (demo_dec s)))) else [])"
  by pat_completeness auto
termination
  by (relation "measure length") auto

declare demo_entries.simps [simp del]

lemma demo_entries_concat: "demo_entries (concat (map (\<lambda>(n, b). demo_enc n @ demo_enc b) es)) = map (\<lambda>(n, b). (n, Some b)) es"
proof (induction es)
  case Nil
  show ?case by (simp add: demo_entries.simps)
next
  case (Cons e es)
  obtain n b where e: "e = (n, b)" by (cases e)
  have "0 < length (demo_enc b)" by (cases b) simp_all
  then show ?case using Cons by (subst demo_entries.simps) (simp add: e demo_dec_enc)
qed

lemma demo_zip_law: "zip_law demo_zipw (\<lambda>a. Some (demo_entries (drop 4 a)))"
  by (auto simp: zip_law_def demo_zipw_def demo_entries_concat zipMagic_def bytes_def has_prefix_step)

theorem csv_upload_is_xlsx_witness:
  "DetectFormat (\<lambda>a. Some (demo_entries (drop 4 a))) no_faults (take 512 (projr (CSVBytesToXLSXBytes demo_zipw ''a,b''))) ''/in'' ''x.csv''
     [''/in'' \<mapsto> projr (CSVBytesToXLSXBytes demo_zipw ''a,b'')] = Ok ''xlsx''"
proof -
  obtain x where x: "CSVBytesToXLSXBytes demo_zipw ''a,b'' = Ok x" by (simp add: CSVBytesToXLSXBytes_def demo_zipw_def Let_def)
  from csv_upload_is_xlsx [OF demo_zip_law this, of "[''/in'' \<mapsto> x]" "''/in''" no_faults 512 "''x.csv''"]
  show ?thesis by (simp add: x del: bytes_def)
qed

theorem csv_words_become_numbers_witness:
  "cell_xml 2 (0, ''Inf'') = ''<c r='' @ dq (cell_ref 0 2) @ ''><v>Inf</v></c>''"
proof -
  have "map lower_byte ''Inf'' = ''inf''" by code_simp
  with csv_words_become_numbers [of "''Inf''" 2 0] show ?thesis by simp
qed

end
