(* ===== verification/Converters.thy ===== *)
theory Converters
  imports Probe "HOL-Library.List_Lexorder" "HOL-Library.Char_ord"
begin

text \<open>
  The converters that bypass the chunk pipeline: \<^verbatim>\<open>internal/email/email.go\<close> (two workers in turn),
  \<^verbatim>\<open>internal/libreoffice/libreoffice.go\<close> (a \<^verbatim>\<open>soffice\<close> process) and \<^verbatim>\<open>internal/gotenberg/gotenberg.go\<close>
  (an HTTP service). The processes, the service and the decoding of the probe's JSON are parameters. The
  multipart body is the record \<open>form\<close> of its file and its fields; its encoding and random boundary are
  the business of \<^verbatim>\<open>mime/multipart\<close>. What the two file converters promise to the server is the locale
  \<open>pdf_converter\<close>.
\<close>

section \<open>Definitions\<close>

subsection \<open>File names\<close>

definition last_element :: "string \<Rightarrow> string" where
  "last_element p = (case cut_last CHR ''/'' p of None \<Rightarrow> p | Some (d, e) \<Rightarrow> e)"

definition path_base :: "string \<Rightarrow> string" where
  "path_base p =
     (let q = rev (dropWhile (\<lambda>c. c = CHR ''/'') (rev p))
      in if p = '''' then ''.'' else if q = '''' then ''/'' else last_element q)"

definition path_ext :: "string \<Rightarrow> string" where
  "path_ext p = (case cut_last CHR ''.'' (last_element p) of None \<Rightarrow> '''' | Some (a, b) \<Rightarrow> CHR ''.'' # b)"

definition trim_suffix :: "string \<Rightarrow> string \<Rightarrow> string" where
  "trim_suffix s suf = (if has_suffix s suf then take (length s - length suf) s else s)"

definition stem :: "string \<Rightarrow> string" where
  "stem p = trim_suffix (path_base p) (path_ext p)"

subsection \<open>E-mail\<close>

definition email_runWorker ::
  "worker_exec \<Rightarrow> Settings \<Rightarrow> string \<Rightarrow> string \<Rightarrow> FormatName \<Rightarrow> string \<Rightarrow> (int \<times> int) option \<Rightarrow> fs \<Rightarrow>
     (string \<times> string \<times> go_error option) \<times> fs" where
  "email_runWorker exec s mode inputPath format outputPath pageRange st =
     RunWorker exec s mode inputPath format outputPath pageRange None st"

definition email_ConvertToPDF ::
  "(string \<Rightarrow> (string, int option) result) \<Rightarrow> os_faults \<Rightarrow> worker_exec \<Rightarrow> Settings \<Rightarrow> string \<Rightarrow> string \<Rightarrow> fs \<Rightarrow>
     (go_error, string) result \<times> fs" where
  "email_ConvertToPDF unmarshal_pages os exec s inputPath scratchDir st =
     (case mkdir_err os scratchDir of
        Some e \<Rightarrow> (Err (OError (NewRender None (-1) (''mkdir email scratch: '' @ e))), st)
      | None \<Rightarrow>
          (let mhtPath = path_join [scratchDir, stem inputPath @ ''.mht''];
               pdfPath = path_join [scratchDir, stem inputPath @ ''.pdf'']
           in case email_runWorker exec s ''render'' inputPath ''email'' mhtPath (Some (1, 1)) st of
                ((out1, err1, Some e), st1) \<Rightarrow> (Err e, st1)
              | ((out1, err1, None), st1) \<Rightarrow>
                  if \<not> os_Stat mhtPath st1
                  then (Err (OError (NewRender None 0 ''worker-email exited 0 but produced no MHT output'')), st1)
                  else
                    (case email_runWorker exec s ''probe'' mhtPath ''docx'' '''' None st1 of
                       ((out2, err2, Some e), st2) \<Rightarrow> (Err e, st2)
                     | ((out2, err2, None), st2) \<Rightarrow>
                         (case unmarshal_pages out2 of
                            Ok (Some n) \<Rightarrow>
                              if n < 1 then (Err (OError (NewRender None 0 ''worker-docx probe reported page_count<1'')), st2)
                              else
                                (case email_runWorker exec s ''render'' mhtPath ''docx'' pdfPath (Some (1, n)) st2 of
                                   ((out3, err3, Some e), st3) \<Rightarrow> (Err e, st3)
                                 | ((out3, err3, None), st3) \<Rightarrow>
                                     if \<not> os_Stat pdfPath st3
                                     then (Err (OError (NewRender None 0 ''worker-docx exited 0 but produced no PDF output'')), st3)
                                     else (Ok pdfPath, st3))
                          | _ \<Rightarrow> (Err (OError (NewRender None 0 ''worker-docx probe returned malformed JSON'')), st2)))))"

subsection \<open>LibreOffice\<close>

text \<open>
  \<^verbatim>\<open>filepath.Glob\<close> returns the existing files among the names a pattern can match (\<open>names\<close>). A process that
  cannot be started counts as exit code 1 with the reason on stderr.
\<close>

definition os_Glob :: "(string \<Rightarrow> string list) \<Rightarrow> string \<Rightarrow> fs \<Rightarrow> string list" where
  "os_Glob names pattern st = filter (\<lambda>p. st p \<noteq> None) (names pattern)"

definition sofficeBin :: string where "sofficeBin = ''soffice''"

definition nonZero :: "int \<Rightarrow> int" where
  "nonZero rc = (if rc = 0 then 1 else rc)"

fun runWithTimeout :: "proc \<Rightarrow> string \<times> string \<times> int \<times> bool" where
  "runWithTimeout (SpawnFailed e) = ('''', e, 1, False)"
| "runWithTimeout TimedOut = ('''', '''', -1, True)"
| "runWithTimeout (Exited rc out err) = (out, err, rc, False)"

definition soffice_argv :: "string \<Rightarrow> string \<Rightarrow> string list" where
  "soffice_argv outputDir inputPath =
     [sofficeBin, ''-env:UserInstallation=file://'' @ path_join [outputDir, ''lo_profile''],
      ''--headless'', ''--nologo'', ''--nofirststartwizard'', ''--norestore'',
      ''--convert-to'', ''pdf'', ''--outdir'', outputDir, inputPath]"

definition libreoffice_ConvertToPDF ::
  "bool \<Rightarrow> (string \<Rightarrow> string list) \<Rightarrow> os_faults \<Rightarrow> worker_exec \<Rightarrow> string \<Rightarrow> string \<Rightarrow> fs \<Rightarrow> (go_error, string) result \<times> fs" where
  "libreoffice_ConvertToPDF installed names os soffice inputPath outputDir st =
     (if \<not> installed
      then (Err (OError (mk_error RenderFailed 500 ''libreoffice (soffice) not installed'' None)), st)
      else case mkdir_err os outputDir of
        Some e \<Rightarrow> (Err (OError (NewRender None (-1) (''mkdir outdir: '' @ e))), st)
      | None \<Rightarrow>
          (case mkdir_err os (path_join [outputDir, ''lo_profile'']) of
             Some e \<Rightarrow> (Err (OError (NewRender None (-1) (''mkdir profile: '' @ e))), st)
           | None \<Rightarrow>
               (let (p, st1) = soffice (soffice_argv outputDir inputPath) st; (out, err, rc, timedOut) = runWithTimeout p;
                    tail = tail_str 1024 (if err = '''' then out else err);
                    expected = path_join [outputDir, stem inputPath @ ''.pdf''];
                    matches = sort (os_Glob names (path_join [outputDir, ''*.pdf'']) st1)
                in (if timedOut then Err (OError (NewRender None (-1) ''libreoffice timed out''))
                    else if rc \<noteq> 0 then Err (OError (NewRender None (nonZero rc) (''libreoffice: '' @ trim_space tail)))
                    else if os_Stat expected st1 then Ok expected
                    else if matches = [] then Err (OError (NewRender None 0 ''libreoffice exited 0 but no .pdf appeared in outdir''))
                    else Ok (hd matches), st1))))"

subsection \<open>Gotenberg\<close>

record WaitOptions =
  WaitDelay :: string
  WaitForExpression :: string

record form =
  file_field :: string
  file_name :: string
  file_content :: string
  form_fields :: "string \<rightharpoonup> string"

text \<open>
  The service: whether the URL can be made a request, and the answer to a POST, which is a transport error or
  a status with the bytes of the body and the error that ends the body early.
\<close>

record http_service =
  bad_url :: "string \<Rightarrow> string option"
  http_Do :: "string \<Rightarrow> form \<Rightarrow> (string, int \<times> string \<times> string option) result"

definition engineName :: string where "engineName = ''gotenberg''"

definition trim_slashes :: "string \<Rightarrow> string" where
  "trim_slashes s = rev (dropWhile (\<lambda>c. c = CHR ''/'') (rev s))"

definition gotenberg_New :: "string \<Rightarrow> string" where
  "gotenberg_New baseURL = trim_slashes baseURL"

definition geometry :: "(string \<times> string) list" where
  "geometry = [(''paperWidth'', ''8.5''), (''paperHeight'', ''11''), (''marginTop'', ''0.5''), (''marginBottom'', ''0.5''),
     (''marginLeft'', ''0.5''), (''marginRight'', ''0.5'')]"

definition buildForm :: "os_faults \<Rightarrow> string \<Rightarrow> WaitOptions \<Rightarrow> fs \<Rightarrow> (string, form) result" where
  "buildForm os htmlPath opts st =
     (case fst (run_io (os_Open os htmlPath) st) of
        Err e \<Rightarrow> Err e
      | Ok html \<Rightarrow>
          (let f0 = map_of geometry;
               f1 = (if WaitDelay opts \<noteq> '''' then f0(''waitDelay'' \<mapsto> WaitDelay opts) else f0);
               f2 = (if WaitForExpression opts \<noteq> '''' then f1(''waitForExpression'' \<mapsto> WaitForExpression opts) else f1)
           in Ok \<lparr>file_field = ''files'', file_name = ''index.html'', file_content = html, form_fields = f2\<rparr>))"

definition bodyTail :: "string \<Rightarrow> string" where
  "bodyTail b = trim_space (take 512 b)"

definition writePDF :: "os_faults \<Rightarrow> string \<times> string option \<Rightarrow> string \<Rightarrow> fs \<Rightarrow> go_error option \<times> fs" where
  "writePDF os body outPath st =
     (let fail = (\<lambda>msg. Some (OError (NewRender None (-1) msg))); (b, broken) = body
      in case run_io (os_Create os outPath) st of
           (Some e, st1) \<Rightarrow> (fail (''create output: '' @ e), st1)
         | (None, st1) \<Rightarrow>
             if length b < 5 \<or> take 5 b \<noteq> ''%PDF-'' then (fail ''gotenberg returned non-PDF output'', st1)
             else
               (case run_io (io_Copy os outPath b) st1 of
                  (Some e, st2) \<Rightarrow>
                    (fail ((case write_err os outPath of Some (n, _) \<Rightarrow> if n < 5 then ''write output: '' else ''stream output: '' | None \<Rightarrow> '''') @ e), st2)
                | (None, st2) \<Rightarrow> (case broken of Some e \<Rightarrow> (fail (''stream output: '' @ e), st2) | None \<Rightarrow> (None, st2))))"

definition ConvertHTML ::
  "http_service \<Rightarrow> os_faults \<Rightarrow> string \<Rightarrow> string \<Rightarrow> WaitOptions \<Rightarrow> string \<Rightarrow> fs \<Rightarrow> go_error option \<times> fs" where
  "ConvertHTML srv os baseURL htmlPath opts outPath st =
     (if baseURL = ''''
      then (Some (OError (NewEngineUnavailable engineName '''' ''engine not configured (OFFICE_CONVERT_GOTENBERG_URL is empty)'')), st)
      else
        (let endpoint = baseURL @ ''/forms/chromium/convert/html''
         in case buildForm os htmlPath opts st of
              Err e \<Rightarrow> (Some (OError (NewRender None (-1) (''gotenberg form: '' @ e))), st)
            | Ok f \<Rightarrow>
                (case bad_url srv endpoint of
                   Some e \<Rightarrow> (Some (OError (NewRender None (-1) (''gotenberg request: '' @ e))), st)
                 | None \<Rightarrow>
                     (case http_Do srv endpoint f of
                        Err e \<Rightarrow> (Some (OError (NewEngineUnavailable engineName baseURL e)), st)
                      | Ok (code, body) \<Rightarrow>
                          if 200 \<le> code \<and> code < 300 then writePDF os body outPath st
                          else if 400 \<le> code \<and> code < 500
                          then (Some (OError (NewInputUnprocessable
                                  (''gotenberg rejected the page (HTTP '' @ itoa code @ ''): '' @ bodyTail (fst body)))), st)
                          else (Some (OError (NewRender None (-1) (''gotenberg HTTP '' @ itoa code @ '': '' @ bodyTail (fst body)))), st)))))"

section \<open>The converters' promise\<close>

locale pdf_converter =
  fixes convert :: "fs \<Rightarrow> (go_error, string) result \<times> fs"
  assumes produced: "convert st = (Ok p, st') \<Longrightarrow> os_Stat p st'"
begin

text \<open>The file that the server is going to stream can be opened.\<close>

lemma output_opens:
  assumes "convert st = (Ok p, st')" "open_err os p = None"
  shows "\<exists>c. st' p = Some c \<and> fst (run_io (os_Open os p) st') = Ok c"
  using produced [OF assms(1)] assms(2) by (auto simp: os_Stat_def run_Open)

end

interpretation email: pdf_converter "email_ConvertToPDF unmarshal_pages os exec s inputPath scratchDir"
  for unmarshal_pages os exec s inputPath scratchDir
  by unfold_locales (auto simp: email_ConvertToPDF_def Let_def split: option.splits prod.splits sum.splits if_splits)

interpretation libreoffice: pdf_converter "libreoffice_ConvertToPDF installed names os soffice inputPath outputDir"
  for installed names os soffice inputPath outputDir
proof
  fix st p st'
  assume "libreoffice_ConvertToPDF installed names os soffice inputPath outputDir st = (Ok p, st')"
  moreover have "os_Stat (hd (sort (os_Glob names q s))) s" if "sort (os_Glob names q s) \<noteq> []" for q s
    using hd_in_set [OF that] by (simp add: os_Glob_def os_Stat_def)
  ultimately show "os_Stat p st'"
    by (auto simp: libreoffice_ConvertToPDF_def Let_def split: option.splits prod.splits if_splits)
qed

section \<open>Properties\<close>

lemma run_Copy_all:
  "s p = Some [] \<Longrightarrow> run_io (io_Copy os p c) s =
     (case write_err os p of
        Some (n, e) \<Rightarrow> if n < length c then (Some e, s(p \<mapsto> take n c)) else (None, s(p \<mapsto> c))
      | None \<Rightarrow> (None, s(p \<mapsto> c)))"
  using final_prefixes [of s p "length c" c] final_prefixes [of s p _ c]
  by (auto simp: run_io_def io_Copy_def simp del: upt_Suc split: option.split)

lemma pdf_magic: "length b < 5 \<or> take 5 b \<noteq> ''%PDF-'' \<longleftrightarrow> \<not> has_prefix b ''%PDF-''"
proof -
  have l: "length (''%PDF-'') = 5" by simp
  have "5 \<le> length b" if "take 5 b = ''%PDF-''" using arg_cong [OF that, of length] by simp
  then show ?thesis unfolding has_prefix_def l by auto
qed

lemma writePDF_ok:
  assumes "writePDF os (b, broken) p st = (None, st')"
  shows "has_prefix b ''%PDF-'' \<and> broken = None \<and> st' = st(p \<mapsto> b)"
proof -
  have c: "create_err os p = None" using assms by (auto simp: writePDF_def run_io_def os_Create_def split: option.splits)
  have m: "has_prefix b ''%PDF-''" using assms by (auto simp: writePDF_def run_Create [OF c] pdf_magic split: if_splits)
  show ?thesis using assms m
    by (auto simp: writePDF_def run_Create [OF c] pdf_magic run_Copy_all split: option.splits prod.splits if_splits)
qed

lemma writePDF_err:
  assumes "writePDF os (b, broken) p st = (Some e, st')"
  obtains msg where "e = OError (NewRender None (-1) msg)"
  using assms by (simp add: writePDF_def Let_def split: option.splits prod.splits if_splits) (blast+)?

text \<open>What the service answers to the request for a page, if a request can be made.\<close>

definition gotenberg_answer :: "http_service \<Rightarrow> os_faults \<Rightarrow> string \<Rightarrow> string \<Rightarrow> WaitOptions \<Rightarrow> fs \<Rightarrow> (string, int \<times> string \<times> string option) result option" where
  "gotenberg_answer srv os baseURL htmlPath opts st =
     (case buildForm os htmlPath opts st of
        Ok f \<Rightarrow> if baseURL \<noteq> '''' \<and> bad_url srv (baseURL @ ''/forms/chromium/convert/html'') = None
                then Some (http_Do srv (baseURL @ ''/forms/chromium/convert/html'') f) else None
      | Err e \<Rightarrow> None)"

text \<open>
  The answers of Gotenberg are classified as documented: the conversion succeeds exactly when the
  service answers 2xx with a complete body that starts with \<^verbatim>\<open>%PDF-\<close> and the output file takes it, and
  then the file holds exactly the body; no answer at all, or no configured URL, is
  \<^verbatim>\<open>engine_unavailable\<close> (503), a 4xx is \<^verbatim>\<open>input_unprocessable\<close> (422), everything else is
  \<^verbatim>\<open>render_failed\<close> (500). No other error occurs.
\<close>

theorem gotenberg_classified:
  "case ConvertHTML srv os baseURL htmlPath opts outPath st of
     (None, st') \<Rightarrow>
       (\<exists>code b. gotenberg_answer srv os baseURL htmlPath opts st = Some (Ok (code, b, None)) \<and> 200 \<le> code \<and> code < 300 \<and>
          has_prefix b ''%PDF-'' \<and> st' = st(outPath \<mapsto> b))
   | (Some err, st') \<Rightarrow>
       (\<exists>e. err = OError e \<and>
          (if baseURL = '''' \<or> (\<exists>x. gotenberg_answer srv os baseURL htmlPath opts st = Some (Err x))
           then FailureClass e = EngineUnavailable \<and> HTTPStatus e = 503
           else if \<exists>code b. gotenberg_answer srv os baseURL htmlPath opts st = Some (Ok (code, b)) \<and> 400 \<le> code \<and> code < 500
           then FailureClass e = InputUnprocessable \<and> HTTPStatus e = 422
           else FailureClass e = RenderFailed \<and> HTTPStatus e = 500))"
proof -
  define ans where "ans = gotenberg_answer srv os baseURL htmlPath opts st"
  have sel: "FailureClass (NewEngineUnavailable a b c) = EngineUnavailable" "HTTPStatus (NewEngineUnavailable a b c) = 503"
    "FailureClass (NewInputUnprocessable m) = InputUnprocessable" "HTTPStatus (NewInputUnprocessable m) = 422" for a b c m
    by (simp_all add: NewEngineUnavailable_def NewInputUnprocessable_def)
  consider (no_url) "baseURL = ''''" | (none) "baseURL \<noteq> ''''" "ans = None" | (transport) x where "baseURL \<noteq> ''''" "ans = Some (Err x)"
    | (code) code b broken where "baseURL \<noteq> ''''" "ans = Some (Ok (code, b, broken))"
    by (cases ans; cases "the ans") auto
  then show ?thesis
  proof cases
    case no_url
    then show ?thesis by (simp add: ConvertHTML_def sel)
  next
    case none
    then obtain msg where "ConvertHTML srv os baseURL htmlPath opts outPath st = (Some (OError (NewRender None (-1) msg)), st)"
      by (auto simp: ConvertHTML_def ans_def gotenberg_answer_def Let_def split: sum.splits option.splits if_splits)
    then show ?thesis using none by (simp add: ans_def [symmetric])
  next
    case transport
    then have "ConvertHTML srv os baseURL htmlPath opts outPath st = (Some (OError (NewEngineUnavailable engineName baseURL x)), st)"
      by (auto simp: ConvertHTML_def ans_def gotenberg_answer_def Let_def split: sum.splits if_splits)
    then show ?thesis using transport by (simp add: sel ans_def [symmetric])
  next
    case code
    then have conv: "ConvertHTML srv os baseURL htmlPath opts outPath st =
        (if 200 \<le> code \<and> code < 300 then writePDF os (b, broken) outPath st
         else if 400 \<le> code \<and> code < 500
         then (Some (OError (NewInputUnprocessable (''gotenberg rejected the page (HTTP '' @ itoa code @ ''): '' @ bodyTail b))), st)
         else (Some (OError (NewRender None (-1) (''gotenberg HTTP '' @ itoa code @ '': '' @ bodyTail b))), st))"
      by (auto simp: ConvertHTML_def ans_def gotenberg_answer_def Let_def split: sum.splits if_splits)
    obtain r st' where w: "writePDF os (b, broken) outPath st = (r, st')" by fastforce
    show ?thesis
    proof (cases r)
      case None
      from writePDF_ok [OF w [unfolded this]] have ok: "has_prefix b ''%PDF-''" "broken = None" "st' = st(outPath \<mapsto> b)" by simp_all
      have "writePDF os (b, None) outPath st = (None, st')" using w by (simp add: ok None)
      then show ?thesis using code(1) by (simp add: conv ok ans_def [symmetric] code(2) sel)
    next
      case (Some e)
      from writePDF_err [OF w [unfolded this]] obtain msg where "e = OError (NewRender None (-1) msg)" by blast
      then show ?thesis using code(1) by (simp add: conv w Some ans_def [symmetric] code(2) sel)
    qed
  qed
qed

text \<open>
  An e-mail is converted as a whole: when \<^verbatim>\<open>ConvertToPDF\<close> succeeds, the e-mail worker has written the
  MHT file, the probe of that file has reported a page count of at least one, and the final render has been
  asked for exactly the pages from one to that count and has left the returned file.
\<close>

theorem email_renders_all_pages:
  assumes "email_ConvertToPDF unmarshal_pages os exec s inputPath dir st = (Ok p, st')"
  shows "\<exists>mht st1 st2 out1 err1 out2 err2 out3 err3 n.
    email_runWorker exec s ''render'' inputPath ''email'' mht (Some (1, 1)) st = ((out1, err1, None), st1) \<and> st1 mht \<noteq> None \<and>
    email_runWorker exec s ''probe'' mht ''docx'' '''' None st1 = ((out2, err2, None), st2) \<and> unmarshal_pages out2 = Ok (Some n) \<and> 1 \<le> n \<and>
    email_runWorker exec s ''render'' mht ''docx'' p (Some (1, n)) st2 = ((out3, err3, None), st') \<and> st' p \<noteq> None"
proof -
  let ?mht = "path_join [dir, stem inputPath @ ''.mht'']" and ?pdf = "path_join [dir, stem inputPath @ ''.pdf'']"
  have no_mkdir: "mkdir_err os dir = None" using assms by (cases "mkdir_err os dir") (simp_all add: email_ConvertToPDF_def)
  obtain out1 err1 e1 st1 where r1: "email_runWorker exec s ''render'' inputPath ''email'' ?mht (Some (1, 1)) st = ((out1, err1, e1), st1)"
    using prod_cases4 by (metis surj_pair)
  obtain out2 err2 e2 st2 where r2: "email_runWorker exec s ''probe'' ?mht ''docx'' '''' None st1 = ((out2, err2, e2), st2)"
    by (metis surj_pair)
  have e1: "e1 = None" using assms no_mkdir r1 by (cases e1) (simp_all add: email_ConvertToPDF_def Let_def)
  have s1: "os_Stat ?mht st1" using assms no_mkdir r1 e1 by (rule_tac ccontr) (simp add: email_ConvertToPDF_def Let_def)
  have e2: "e2 = None" using assms no_mkdir r1 e1 s1 r2 by (cases e2) (simp_all add: email_ConvertToPDF_def Let_def)
  obtain n where n: "unmarshal_pages out2 = Ok (Some n)"
    using assms no_mkdir r1 e1 s1 r2 e2 by (auto simp: email_ConvertToPDF_def Let_def split: sum.splits option.splits)
  obtain out3 err3 e3 st3 where r3: "email_runWorker exec s ''render'' ?mht ''docx'' ?pdf (Some (1, n)) st2 = ((out3, err3, e3), st3)"
    by (metis surj_pair)
  have "(if n < 1 then (Err (OError (NewRender None 0 ''worker-docx probe reported page_count<1'')), st2)
         else case e3 of Some e \<Rightarrow> (Err e, st3) | None \<Rightarrow>
           if \<not> os_Stat ?pdf st3 then (Err (OError (NewRender None 0 ''worker-docx exited 0 but produced no PDF output'')), st3)
           else (Ok ?pdf, st3)) = (Ok p, st')"
    using assms no_mkdir r1 e1 s1 r2 e2 n r3 by (cases e3) (simp_all add: email_ConvertToPDF_def Let_def split: if_splits)
  then have "1 \<le> n \<and> e3 = None \<and> p = ?pdf \<and> st' = st3 \<and> os_Stat ?pdf st3" by (auto split: if_splits option.splits)
  then show ?thesis using r1 r2 r3 e1 e2 s1 n by (auto simp: os_Stat_def intro!: exI [of _ ?mht])
qed

text \<open>Workers that leave every file in place and a probe that reports three pages.\<close>

definition demo_mail_exec :: worker_exec where
  "demo_mail_exec argv st = (Exited 0 ''3'' '''', \<lambda>_. Some ''%PDF-'')"

lemma demo_mail_runWorker:
  "email_runWorker demo_mail_exec s ''probe'' i f p None st = ((''3'', '''', None), \<lambda>_. Some ''%PDF-'')"
  "email_runWorker demo_mail_exec s ''render'' i f p (Some rng) st = ((''3'', '''', None), \<lambda>_. Some ''%PDF-'')"
  by (simp_all add: email_runWorker_def RunWorker_def runWorkerBin_def demo_mail_exec_def mapExitCode_def ExitOK_def Let_def split: prod.split)

theorem email_renders_all_pages_witness:
  "\<exists>mht st2 out3 err3 p st'. email_runWorker demo_mail_exec (settings_of id Map.empty) ''render'' mht ''docx'' p (Some (1, 3)) st2 = ((out3, err3, None), st')
     \<and> st' p \<noteq> None"
proof -
  obtain p st' where
    "email_ConvertToPDF (\<lambda>_. Ok (Some 3)) no_faults demo_mail_exec (settings_of id Map.empty) ''/s/in.eml'' ''/s/o'' Map.empty = (Ok p, st')"
    by (simp add: email_ConvertToPDF_def demo_mail_runWorker Let_def os_Stat_def)
  from email_renders_all_pages [OF this] obtain mht st2 out3 err3 where
    "email_runWorker demo_mail_exec (settings_of id Map.empty) ''render'' mht ''docx'' p (Some (1, 3)) st2 = ((out3, err3, None), st')" "st' p \<noteq> None"
    by auto
  then show ?thesis by blast
qed

end
