(* ===== verification/Http.thy ===== *)
theory Http
  imports Obs Fs Config Orchestrator
begin

text \<open>
  The parts of \<^verbatim>\<open>internal/server\<close> that do not depend on a request's whole course: responses and
  error diagnostics (\<^verbatim>\<open>server.go\<close>), the writer that defers the status line, the size-bounded upload, the
  options (\<^verbatim>\<open>convert.go\<close>), the wait controls (\<^verbatim>\<open>convert_html.go\<close>) and the statistics. A response holds the
  headers set so far, what has been sent (status and headers, fixed by the first \<^verbatim>\<open>WriteHeader\<close>), and its
  body: a JSON value, a text, the events of a request, or the bytes that reached the client's connection. The text form of a JSON value
  belongs to \<^verbatim>\<open>encoding/json\<close>.
\<close>

section \<open>Definitions\<close>

subsection \<open>Responses\<close>

type_synonym headers = "string \<rightharpoonup> string"

record Response =
  r_header :: headers
  r_sent :: "(int \<times> headers) option"
  r_json :: "json option"
  r_text :: "string option"
  r_events :: "(string \<times> string \<times> Event list) option"
  r_conn :: Writer

definition new_response :: "nat option \<Rightarrow> Response" where
  "new_response capacity =
     \<lparr>r_header = Map.empty, r_sent = None, r_json = None, r_text = None, r_events = None,
      r_conn = \<lparr>written = '''', w_cap = capacity, w_called = False\<rparr>\<rparr>"

definition set_header :: "string \<Rightarrow> string \<Rightarrow> Response \<Rightarrow> Response" where
  "set_header k v r = r\<lparr>r_header := (r_header r)(k \<mapsto> v)\<rparr>"

definition WriteHeader :: "int \<Rightarrow> Response \<Rightarrow> Response" where
  "WriteHeader code r = (case r_sent r of None \<Rightarrow> r\<lparr>r_sent := Some (code, r_header r)\<rparr> | Some _ \<Rightarrow> r)"

definition writeJSON :: "int \<Rightarrow> json \<Rightarrow> Response \<Rightarrow> Response" where
  "writeJSON code body r = (WriteHeader code (set_header ''Content-Type'' ''application/json'' r))\<lparr>r_json := Some body\<rparr>"

definition writeHTML :: "string \<Rightarrow> Response \<Rightarrow> Response" where
  "writeHTML html r = (WriteHeader 200 (set_header ''Content-Type'' ''text/html; charset=utf-8'' r))\<lparr>r_text := Some html\<rparr>"

subsection \<open>Error mapping\<close>

fun toStr :: "json option \<Rightarrow> string" where
  "toStr (Some (JInt n)) = itoa n"
| "toStr (Some (JStr s)) = s"
| "toStr _ = ''''"

fun toInt64 :: "json option \<Rightarrow> int" where
  "toInt64 (Some (JInt n)) = n"
| "toInt64 _ = 0"

definition detail_at :: "Error \<Rightarrow> string \<Rightarrow> json option" where
  "detail_at e k = (case Detail e of None \<Rightarrow> None | Some d \<Rightarrow> map_of d k)"

text \<open>An error that is no \<^verbatim>\<open>*oerrors.Error\<close> counts as a failed render.\<close>

fun as_error :: "go_error \<Rightarrow> Error" where
  "as_error (OError e) = e"
| "as_error err = mk_error RenderFailed 500 (error_text err) None"

definition diagnostic :: "string \<Rightarrow> Error \<Rightarrow> json" where
  "diagnostic rid e =
     JObj [(''request_id'', JStr rid), (''failure_class'', JStr (failure_string (FailureClass e))), (''detail'', JObj (DetailDict e))]"

definition writeError :: "int \<Rightarrow> string \<Rightarrow> go_error \<Rightarrow> Response \<Rightarrow> Response" where
  "writeError now rid err r =
     (let oe = as_error err;
          retry = detail_at oe ''retry_after_seconds'';
          r1 = (if FailureClass oe = Busy
                then (case retry of Some v \<Rightarrow> set_header ''Retry-After'' (toStr (Some v)) r | None \<Rightarrow> r)
                else if FailureClass oe = RateLimited
                then set_header ''X-RateLimit-Reset'' (itoa (now div 10 ^ 9 + toInt64 retry))
                      (set_header ''X-RateLimit-Remaining'' ''0''
                        (set_header ''X-RateLimit-Limit'' (toStr (detail_at oe ''limit''))
                          (set_header ''Retry-After'' (toStr retry) r)))
                else r)
      in writeJSON (HTTPStatus oe) (diagnostic rid oe) r1)"

fun errCode :: "go_error \<Rightarrow> string" where
  "errCode (OError e) = failure_string (FailureClass e)"
| "errCode _ = ''render_failed''"

subsection \<open>The stream writer\<close>

record streamWriter =
  sw_w :: Response
  sw_headers :: headers
  sw_wrote :: bool
  sw_n :: int

definition sw_begin :: "streamWriter \<Rightarrow> streamWriter" where
  "sw_begin s =
     (if sw_wrote s then s
      else s\<lparr>sw_w := WriteHeader 200 ((sw_w s)\<lparr>r_header := r_header (sw_w s) ++ sw_headers s\<rparr>), sw_wrote := True\<rparr>)"

definition sw_Write :: "string \<Rightarrow> streamWriter \<Rightarrow> streamWriter \<times> bool" where
  "sw_Write p s0 =
     (let s = sw_begin s0; (conn, ok) = write_to (r_conn (sw_w s)) p
      in (s\<lparr>sw_w := (sw_w s)\<lparr>r_conn := conn\<rparr>, sw_n := sw_n s + int (length (written conn) - length (written (r_conn (sw_w s))))\<rparr>, ok))"

definition new_stream :: "headers \<Rightarrow> Response \<Rightarrow> streamWriter" where
  "new_stream h r = \<lparr>sw_w = r, sw_headers = h, sw_wrote = False, sw_n = 0\<rparr>"

text \<open>The stream writer after its connection has become \<open>dst\<close> through its \<^verbatim>\<open>Write\<close>.\<close>

definition sw_after :: "Writer \<Rightarrow> streamWriter \<Rightarrow> streamWriter" where
  "sw_after dst s0 =
     (let s = (if w_called dst then sw_begin s0 else s0)
      in s\<lparr>sw_w := (sw_w s)\<lparr>r_conn := dst\<rparr>, sw_n := sw_n s + int (length (written dst) - length (written (r_conn (sw_w s))))\<rparr>)"

subsection \<open>Input\<close>

text \<open>
  An upload is the list of blocks that \<^verbatim>\<open>Read\<close> returns and the error that ends it (\<open>None\<close> for EOF). The loop
  carries the total and what the file holds.
\<close>

type_synonym upload = "string list \<times> string option"

fun upload_loop :: "os_faults \<Rightarrow> string \<Rightarrow> int \<Rightarrow> string option \<Rightarrow> int \<Rightarrow> string \<Rightarrow> string list \<Rightarrow> (int \<times> go_error option) \<times> string" where
  "upload_loop os dest maxBytes rerr seen held [] =
     ((seen, map_option (\<lambda>e. OError (NewRender None (-1) (''read upload: '' @ e))) rerr), held)"
| "upload_loop os dest maxBytes rerr seen held (b # bs) =
     (if b = '''' then upload_loop os dest maxBytes rerr seen held bs
      else
        (let seen' = seen + int (length b)
         in if seen' > maxBytes then ((seen', Some (OError (NewInputTooLarge seen' maxBytes))), held)
            else
              (case write_err os dest of
                 Some (n, e) \<Rightarrow>
                   if n < length (held @ b)
                   then ((seen', Some (OError (NewRender None (-1) (''write input tmp: '' @ e)))), take n (held @ b))
                   else upload_loop os dest maxBytes rerr seen' (held @ b) bs
               | None \<Rightarrow> upload_loop os dest maxBytes rerr seen' (held @ b) bs)))"

definition streamUploadToFile :: "os_faults \<Rightarrow> upload \<Rightarrow> string \<Rightarrow> int \<Rightarrow> fs \<Rightarrow> (int \<times> go_error option) \<times> fs" where
  "streamUploadToFile os src dest maxBytes st =
     (case create_err os dest of
        Some e \<Rightarrow> ((0, Some (OError (NewRender None (-1) (''open input tmp: '' @ e)))), st)
      | None \<Rightarrow> (let (res, held) = upload_loop os dest maxBytes (snd src) 0 '''' (fst src) in (res, st(dest \<mapsto> held))))"

definition copyPDF :: "os_faults \<Rightarrow> string \<Rightarrow> string \<Rightarrow> Writer \<Rightarrow> fs \<Rightarrow> go_error option \<times> Writer" where
  "copyPDF os write_error path dst st =
     (case fst (run_io (os_Open os path) st) of
        Err e \<Rightarrow> (Some (OError (NewRender None (-1) (''open pdf: '' @ e))), dst)
      | Ok c \<Rightarrow> (let (dst', ok) = write_to dst c in (if ok then None else Some (PlainError write_error), dst')))"

definition readHead :: "os_faults \<Rightarrow> string \<Rightarrow> int \<Rightarrow> fs \<Rightarrow> (string, string) result" where
  "readHead os path n st =
     (case fst (run_io (os_Open os path) st) of Err e \<Rightarrow> Err e | Ok c \<Rightarrow> Ok (if n \<le> 0 then '''' else take (nat n) c))"

definition minI64 :: "int \<Rightarrow> int \<Rightarrow> int" where
  "minI64 a b = (if a < b then a else b)"

definition validatePDFMagic :: "os_faults \<Rightarrow> string \<Rightarrow> fs \<Rightarrow> go_error option" where
  "validatePDFMagic os path st =
     (if readHead os path 5 st = Ok ''%PDF-'' then None
      else Some (OError (NewRender None (-1) ''engine produced non-PDF output'')))"

definition fileSize :: "string \<Rightarrow> fs \<Rightarrow> int" where
  "fileSize path st = (case st path of Some c \<Rightarrow> int (length c) | None \<Rightarrow> 0)"

definition basename :: "string \<Rightarrow> string" where
  "basename p = (case cut_last CHR ''/'' p of Some (d, b) \<Rightarrow> b | None \<Rightarrow> p)"

definition extOf :: "string \<Rightarrow> string" where
  "extOf name = (case cut_last CHR ''.'' name of Some (d, e) \<Rightarrow> to_lower e | None \<Rightarrow> '''')"

definition joinScratch :: "string \<Rightarrow> string \<Rightarrow> string" where
  "joinScratch base rid = path_join [base, rid]"

text \<open>\<^verbatim>\<open>os.RemoveAll\<close>: the path and everything below it; it refuses a path that ends in a dot component.\<close>

definition below :: "string \<Rightarrow> string \<Rightarrow> bool" where
  "below dir p = (p = dir \<or> has_prefix p (if dir = ''/'' then dir else dir @ ''/''))"

definition os_RemoveAll :: "string \<Rightarrow> fs \<Rightarrow> fs" where
  "os_RemoveAll dir st =
     (if dir = '''' \<or> dir = ''.'' \<or> has_suffix dir ''/.'' then st else (\<lambda>p. if below dir p then None else st p))"

subsection \<open>Options\<close>

fun truthy :: "json \<Rightarrow> bool" where
  "truthy JNull = False"
| "truthy (JBool b) = b"
| "truthy (JNum x) = (x \<noteq> 0)"
| "truthy (JStr s) = (s \<noteq> '''')"
| "truthy _ = True"

text \<open>\<open>unmarshal\<close> decodes a JSON object; an error and \<^verbatim>\<open>null\<close> are \<open>None\<close>.\<close>

definition parseOptions :: "(string \<Rightarrow> (string \<rightharpoonup> json) option) \<Rightarrow> string \<Rightarrow> ConversionOptions" where
  "parseOptions unmarshal raw =
     (case unmarshal raw of
        None \<Rightarrow> \<lparr>Cache = True, LogLevel = ''''\<rparr>
      | Some data \<Rightarrow>
          \<lparr>Cache = (case data ''cache'' of None \<Rightarrow> True | Some v \<Rightarrow> truthy v),
           LogLevel = (case data ''log_level'' of Some (JStr v) \<Rightarrow> v | _ \<Rightarrow> '''')\<rparr>)"

section \<open>The stream writer as a destination\<close>

text \<open>
  The pipeline writes blocks until one is refused. A destination whose \<^verbatim>\<open>Write\<close> acts on its connection like
  \<open>write_to\<close> is a \<open>byte_sink\<close>; a sequence of writes then acts on the connection like the same writes on a
  plain \<open>Writer\<close>, which is what the model of the pipeline is given.
\<close>

fun write_all :: "(string \<Rightarrow> 's \<Rightarrow> 's \<times> bool) \<Rightarrow> string list \<Rightarrow> 's \<Rightarrow> 's \<times> bool" where
  "write_all put [] s = (s, True)"
| "write_all put (b # bs) s = (let (s', ok) = put b s in if ok then write_all put bs s' else (s', False))"

abbreviation plain_write :: "string \<Rightarrow> Writer \<Rightarrow> Writer \<times> bool" where
  "plain_write p w \<equiv> write_to w p"

locale byte_sink =
  fixes put :: "string \<Rightarrow> 's \<Rightarrow> 's \<times> bool" and conn :: "'s \<Rightarrow> Writer" and good :: "'s \<Rightarrow> bool"
  assumes write_conn: "good s \<Longrightarrow> p \<noteq> '''' \<Longrightarrow> plain_write p (conn s) = (conn (fst (put p s)), snd (put p s))"
    and write_good: "good s \<Longrightarrow> p \<noteq> '''' \<Longrightarrow> good (fst (put p s))"
begin

lemma write_all_conn:
  "good s \<Longrightarrow> list_all (\<lambda>b. b \<noteq> '''') bs \<Longrightarrow>
     write_all plain_write bs (conn s) = (conn (fst (write_all put bs s)), snd (write_all put bs s)) \<and> good (fst (write_all put bs s))"
proof (induction bs arbitrary: s)
  case (Cons b bs)
  obtain s' ok where w: "put b s = (s', ok)" by fastforce
  have "plain_write b (conn s) = (conn s', ok)" "good s'"
    using write_conn [of s b] write_good [of s b] Cons.prems w by simp_all
  then show ?case using Cons.IH [of s'] Cons.prems w by (cases ok) simp_all
qed simp

end

definition sw_good :: "streamWriter \<Rightarrow> bool" where
  "sw_good s \<longleftrightarrow> sw_wrote s = w_called (r_conn (sw_w s)) \<and> sw_n s = int (length (written (r_conn (sw_w s))))"

lemma sw_begin_sel [simp]:
  "r_conn (sw_w (sw_begin s)) = r_conn (sw_w s)" "sw_n (sw_begin s) = sw_n s" "sw_wrote (sw_begin s)"
  "sw_headers (sw_begin s) = sw_headers s"
  by (simp_all add: sw_begin_def WriteHeader_def split: option.split)

lemma sw_begin_idem [simp]: "sw_wrote s \<Longrightarrow> sw_begin s = s"
  by (simp add: sw_begin_def)

lemma write_to_grows:
  "length (written w) \<le> length (written (fst (write_to w p)))" "p \<noteq> '''' \<Longrightarrow> w_called (fst (write_to w p))"
  "w_called w \<Longrightarrow> w_called (fst (write_to w p))"
  by (simp_all add: write_to_def split: option.split)

lemma sw_Write_after:
  "p \<noteq> '''' \<Longrightarrow> sw_Write p s = (sw_after (fst (write_to (r_conn (sw_w s)) p)) s, snd (write_to (r_conn (sw_w s)) p))"
  using write_to_grows(2) [of p "r_conn (sw_w s)"] by (simp add: sw_Write_def sw_after_def Let_def split: prod.split)

lemma sw_after_good: "sw_good s \<Longrightarrow> length (written (r_conn (sw_w s))) \<le> length (written d) \<Longrightarrow> (w_called (r_conn (sw_w s)) \<Longrightarrow> w_called d) \<Longrightarrow> sw_good (sw_after d s)"
  by (auto simp: sw_good_def sw_after_def Let_def)

lemma sw_after_conn [simp]: "r_conn (sw_w (sw_after d s)) = d"
  by (simp add: sw_after_def Let_def)

lemma sw_after_after:
  assumes "length (written (r_conn (sw_w s))) \<le> length (written d)" "length (written d) \<le> length (written e)"
    and "w_called d \<Longrightarrow> w_called e"
  shows "sw_after e (sw_after d s) = sw_after e s"
proof (cases "w_called d")
  case True
  then have "w_called e" using assms(3) by simp
  moreover have "sw_wrote (sw_after d s)" using True by (simp add: sw_after_def Let_def)
  ultimately show ?thesis using True assms(1,2) by (simp add: sw_after_def Let_def)
next
  case False
  show ?thesis
  proof (cases "sw_wrote s")
    case True
    then show ?thesis using False assms(1,2) by (simp add: sw_after_def Let_def)
  next
    case nw: False
    then show ?thesis using False assms(1,2)
      by (cases "r_sent (sw_w s)") (simp_all add: sw_after_def sw_begin_def WriteHeader_def Let_def)
  qed
qed

interpretation stream: byte_sink sw_Write "\<lambda>s. r_conn (sw_w s)" sw_good
proof
  fix s :: streamWriter and p :: string
  assume "sw_good s" "p \<noteq> ''''"
  then show "plain_write p (r_conn (sw_w s)) = (r_conn (sw_w (fst (sw_Write p s))), snd (sw_Write p s))" "sw_good (fst (sw_Write p s))"
    using write_to_grows [where w = "r_conn (sw_w s)" and p = p] by (auto simp: sw_Write_after intro: sw_after_good)
qed

lemma write_all_grows:
  "length (written w) \<le> length (written (fst (write_all plain_write bs w)))"
  "w_called w \<Longrightarrow> w_called (fst (write_all plain_write bs w))"
proof (induction bs arbitrary: w)
  case (Cons b bs)
  { case 1
    show ?case using Cons.IH(1) [of "fst (write_to w b)"] write_to_grows(1) [of w b] by (auto split: prod.split) }
  { case 2
    then show ?case using Cons.IH(2) [of "fst (write_to w b)"] write_to_grows(3) [of w b] by (auto split: prod.split) }
qed simp_all

lemma sw_write_all:
  "list_all (\<lambda>b. b \<noteq> '''') bs \<Longrightarrow> bs \<noteq> [] \<or> \<not> w_called (r_conn (sw_w s)) \<Longrightarrow>
     fst (write_all sw_Write bs s) = sw_after (fst (write_all plain_write bs (r_conn (sw_w s)))) s"
proof (induction bs arbitrary: s)
  case Nil
  then show ?case by (simp add: sw_after_def Let_def)
next
  case (Cons b bs)
  define d where "d = fst (write_to (r_conn (sw_w s)) b)"
  have d: "length (written (r_conn (sw_w s))) \<le> length (written d)" "w_called d"
    using write_to_grows [where w = "r_conn (sw_w s)" and p = b] Cons.prems by (simp_all add: d_def)
  have w: "sw_Write b s = (sw_after d s, snd (write_to (r_conn (sw_w s)) b))"
    using sw_Write_after [of b s] Cons.prems by (simp add: d_def)
  show ?case
  proof (cases "bs = [] \<or> \<not> snd (write_to (r_conn (sw_w s)) b)")
    case True
    then show ?thesis using w by (auto simp: d_def split: prod.splits)
  next
    case False
    define e where "e = fst (write_all plain_write bs d)"
    have wt: "write_to (r_conn (sw_w s)) b = (d, True)" using False by (simp add: d_def prod_eq_iff)
    have "length (written d) \<le> length (written e)" "w_called e"
      using write_all_grows [where w = d and bs = bs] d(2) by (simp_all add: e_def)
    then have "sw_after e (sw_after d s) = sw_after e s" using sw_after_after [of s d e] d(1) by simp
    then show ?thesis using False w Cons.IH [of "sw_after d s"] Cons.prems(1) by (simp add: wt e_def)
  qed
qed

section \<open>Properties\<close>

text \<open>
  C9: Writing blocks through the deferred-status writer is writing them to the connection: the client gets the
  same bytes, failures come at the same block, the writer's flag and byte count agree with the connection, and
  the response is the one \<open>sw_after\<close> computes from the connection alone. Nothing is sent before the first
  block; with the first block the status is 200, with the headers of the writer merged over those set before.
\<close>

theorem stream_writer_refines:
  assumes "list_all (\<lambda>b. b \<noteq> '''') bs" and "\<not> w_called (r_conn r)" "written (r_conn r) = ''''" "r_sent r = None"
    and "write_all plain_write bs (r_conn r) = (dst, ok)" and "write_all sw_Write bs (new_stream h r) = (sw, ok')"
  shows "ok' = ok \<and> sw = sw_after dst (new_stream h r) \<and> r_conn (sw_w sw) = dst \<and> sw_wrote sw = w_called dst \<and>
    sw_n sw = int (length (written dst)) \<and> r_sent (sw_w sw) = (if bs = [] then None else Some (200, r_header r ++ h))"
proof -
  have good: "sw_good (new_stream h r)" using assms(2,3) by (simp add: sw_good_def new_stream_def)
  from stream.write_all_conn [OF good assms(1)] have c: "r_conn (sw_w sw) = dst" "ok' = ok" "sw_good sw"
    using assms(5,6) by (simp_all add: new_stream_def)
  have sw: "sw = sw_after dst (new_stream h r)"
    using sw_write_all [OF assms(1), of "new_stream h r"] assms(2,5,6) by (simp add: new_stream_def)
  have "w_called dst = (bs \<noteq> [])"
  proof (cases bs)
    case Nil
    then show ?thesis using assms(2,5) by simp
  next
    case (Cons b bs')
    then have "w_called (fst (write_all plain_write bs (r_conn r)))"
      using assms(1) write_to_grows(2) [of b "r_conn r"] write_all_grows(2) [of "fst (write_to (r_conn r) b)" bs'] by (auto split: prod.split)
    then show ?thesis using Cons assms(5) by simp
  qed
  then have "r_sent (sw_w sw) = (if bs = [] then None else Some (200, r_header r ++ h))"
    using assms(4) by (simp add: sw sw_after_def sw_begin_def new_stream_def WriteHeader_def)
  with c sw show ?thesis by (simp add: sw_good_def)
qed

theorem stream_writer_refines_witness:
  "case write_all sw_Write [''%PDF'', ''-1.7''] (new_stream [''Content-Type'' \<mapsto> ''application/pdf''] (new_response (Some 6))) of
     (sw, ok) \<Rightarrow> \<not> ok \<and> sw_n sw = 6 \<and> r_sent (sw_w sw) = Some (200, [''Content-Type'' \<mapsto> ''application/pdf''])"
proof -
  define r where "r = new_response (Some 6)"
  obtain sw ok' where s: "write_all sw_Write [''%PDF'', ''-1.7''] (new_stream [''Content-Type'' \<mapsto> ''application/pdf''] r) = (sw, ok')" by fastforce
  have d: "write_all plain_write [''%PDF'', ''-1.7''] (r_conn r) = (\<lparr>written = ''%PDF-1'', w_cap = Some 0, w_called = True\<rparr>, False)"
    by (simp add: r_def new_response_def write_to_def)
  have "list_all (\<lambda>b. b \<noteq> '''') [''%PDF'', ''-1.7'']" "\<not> w_called (r_conn r)" "written (r_conn r) = ''''" "r_sent r = None" "r_header r = Map.empty"
    by (simp_all add: r_def new_response_def)
  from stream_writer_refines [OF this(1-4) d s] have "\<not> ok'" "sw_n sw = int (length ''%PDF-1'')" "r_sent (sw_w sw) = (if [''%PDF'', ''-1.7''] = [] then None else Some (200, r_header r ++ [''Content-Type'' \<mapsto> ''application/pdf'']))"
    unfolding Writer.simps by blast+
  then show ?thesis using s \<open>r_header r = Map.empty\<close> by (simp add: r_def)
qed

text \<open>
  The loop of the upload, from a file that holds \<open>held\<close>: it never holds more than the limit, what it holds is
  a prefix of the upload, and the outcome is decided by the sizes.
\<close>

lemma upload_loop_bound:
  assumes "upload_loop os dest m rerr (int (length held)) held bs = ((n, e), h)" and "int (length held) \<le> m"
  shows "prefix h (held @ concat bs) \<and> int (length h) \<le> m"
  using assms
proof (induction bs arbitrary: held)
  case (Cons b bs)
  have take: "prefix (take k (held @ b)) (held @ b @ concat bs)" for k
    by (metis append.assoc append_take_drop_id prefixI)
  show ?case
    using Cons.prems Cons.IH [of "held @ b"] Cons.IH [of held] take
    by (auto simp: Let_def split: if_splits option.splits prod.splits)
qed simp

lemma upload_loop_ok:
  assumes "upload_loop os dest m rerr (int (length held)) held bs = ((n, None), h)"
  shows "rerr = None \<and> h = held @ concat bs \<and> n = int (length h)"
  using assms
proof (induction bs arbitrary: held)
  case (Cons b bs)
  then show ?case using Cons.IH [of "held @ b"] Cons.IH [of held]
    by (auto simp: Let_def split: if_splits option.splits prod.splits)
qed simp

lemma upload_loop_decides:
  assumes "upload_loop os dest m rerr (int (length held)) held bs = ((n, e), h)" and "write_err os dest = None"
  shows "if m < int (length (held @ concat bs)) \<and> int (length held) \<le> m then m < n \<and> e = Some (OError (NewInputTooLarge n m))
    else rerr = None \<and> int (length (held @ concat bs)) \<le> m \<longrightarrow> e = None"
  using assms(1)
proof (induction bs arbitrary: held)
  case (Cons b bs)
  show ?case
  proof (cases "b = []")
    case True
    then show ?thesis using Cons.IH [of held] Cons.prems by simp
  next
    case False
    then show ?thesis using Cons.IH [of "held @ b"] Cons.prems assms(2)
      by (cases "int (length (held @ b)) > m") (auto simp: Let_def split: if_splits)
  qed
qed auto

text \<open>
  C10: The upload limit holds on disk at every size of block: whatever the client sends, the file holds a
  prefix of the upload of at most \<^verbatim>\<open>maxBytes\<close> bytes and no other file changes; success means the whole upload
  with its exact size; with a disk that takes the bytes, an upload above the limit is refused as too large,
  and one within the limit that the client finishes succeeds.
\<close>

theorem upload_capped:
  assumes "streamUploadToFile os (bs, rerr) dest m st = ((n, e), st')" and "create_err os dest = None" and "0 \<le> m"
  shows "\<exists>h. st' = st(dest \<mapsto> h) \<and> prefix h (concat bs) \<and> int (length h) \<le> m \<and>
    (e = None \<longrightarrow> rerr = None \<and> h = concat bs \<and> n = int (length h)) \<and>
    (write_err os dest = None \<longrightarrow>
       (if m < int (length (concat bs)) then m < n \<and> e = Some (OError (NewInputTooLarge n m)) else rerr = None \<longrightarrow> e = None))"
proof -
  obtain h where l: "upload_loop os dest m rerr (int (length (''''::string))) '''' bs = ((n, e), h)" and st: "st' = st(dest \<mapsto> h)"
    using assms(1,2) by (auto simp: streamUploadToFile_def split: prod.splits)
  show ?thesis
  proof (intro exI conjI)
    show "st' = st(dest \<mapsto> h)" by (rule st)
    show "prefix h (concat bs)" "int (length h) \<le> m" using upload_loop_bound [OF l] assms(3) by simp_all
    show "e = None \<longrightarrow> rerr = None \<and> h = concat bs \<and> n = int (length h)" using upload_loop_ok l by fastforce
    show "write_err os dest = None \<longrightarrow>
       (if m < int (length (concat bs)) then m < n \<and> e = Some (OError (NewInputTooLarge n m)) else rerr = None \<longrightarrow> e = None)"
      using upload_loop_decides [OF l] assms(3) by (auto split: if_splits)
  qed
qed

theorem upload_capped_witness:
  "\<exists>n. streamUploadToFile no_faults ([''abc'', ''def''], None) ''/s/input.tmp'' 4 Map.empty =
     ((n, Some (OError (NewInputTooLarge n 4))), [''/s/input.tmp'' \<mapsto> ''abc''])"
proof -
  obtain n e st' where s: "streamUploadToFile no_faults ([''abc'', ''def''], None) ''/s/input.tmp'' 4 Map.empty = ((n, e), st')"
    by (metis surj_pair)
  have "st' = [''/s/input.tmp'' \<mapsto> ''abc'']" using s by (auto simp: streamUploadToFile_def)
  with upload_capped [OF s] s show ?thesis by auto
qed

end
