(* ===== verification/Waits.thy ===== *)
theory Waits
  imports Converters Go_Float
begin

text \<open>
  The wait controls of the HTML endpoints (\<^verbatim>\<open>internal/server/convert_html.go\<close>, \<^verbatim>\<open>parseWaitOptions\<close>), with
  \<^verbatim>\<open>time.ParseDuration\<close>, whose overflow checks and float64 fractions are written out. Durations are nanoseconds.
\<close>

section \<open>Definitions\<close>

subsection \<open>Durations\<close>

text \<open>\<^verbatim>\<open>leadingInt\<close>: the value of the digits, \<open>None\<close> when it leaves the range, and the rest.\<close>

fun leadingInt :: "nat \<Rightarrow> string \<Rightarrow> (nat \<times> string) option" where
  "leadingInt x [] = Some (x, [])"
| "leadingInt x (c # s) =
     (if \<not> is_digit c then Some (x, c # s)
      else if x > 2 ^ 63 div 10 then None
      else (let x' = x * 10 + digit_val c in if x' > 2 ^ 63 then None else leadingInt x' s))"

text \<open>\<^verbatim>\<open>leadingFraction\<close>: digits after an overflow are skipped.\<close>

fun leadingFraction :: "bool \<Rightarrow> nat \<Rightarrow> rat \<Rightarrow> string \<Rightarrow> nat \<times> rat \<times> string" where
  "leadingFraction overflow x scale [] = (x, scale, [])"
| "leadingFraction overflow x scale (c # s) =
     (if \<not> is_digit c then (x, scale, c # s)
      else if overflow \<or> x > (2 ^ 63 - 1) div 10 then leadingFraction True x scale s
      else (let y = x * 10 + digit_val c
            in if y > 2 ^ 63 then leadingFraction True x scale s else leadingFraction False y (fmul scale 10) s))"

definition unitMap :: "(string \<times> nat) list" where
  "unitMap = [(''ns'', 1), (''us'', 10 ^ 3), (bytes [0xC2, 0xB5] @ ''s'', 10 ^ 3), (bytes [0xCE, 0xBC] @ ''s'', 10 ^ 3),
     (''ms'', 10 ^ 6), (''s'', 10 ^ 9), (''m'', 60 * 10 ^ 9), (''h'', 3600 * 10 ^ 9)]"

definition starts_number :: "char \<Rightarrow> bool" where
  "starts_number c \<longleftrightarrow> c = CHR ''.'' \<or> is_digit c"

text \<open>One number with its unit: its nanoseconds and the rest.\<close>

definition duration_part :: "string \<Rightarrow> (nat \<times> string) option" where
  "duration_part s =
     (if s = '''' \<or> \<not> starts_number (hd s) then None
      else case leadingInt 0 s of
        None \<Rightarrow> None
      | Some (v, s1) \<Rightarrow>
          (let pre = (length s1 \<noteq> length s);
               dot = (s1 \<noteq> '''' \<and> hd s1 = CHR ''.'');
               (f, scale, s2) = (if dot then leadingFraction False 0 1 (tl s1) else (0, 1, s1));
               post = (dot \<and> length s2 \<noteq> length (tl s1));
               u = takeWhile (\<lambda>c. \<not> starts_number c) s2;
               s3 = dropWhile (\<lambda>c. \<not> starts_number c) s2
           in if \<not> pre \<and> \<not> post then None
              else if u = '''' then None
              else case map_of unitMap u of
                None \<Rightarrow> None
              | Some unit \<Rightarrow>
                  if v > 2 ^ 63 div unit then None
                  else
                    (let w = v * unit + (if f > 0 then nat (trunc_rat (fmul (fl (int f)) (fdiv (fl (int unit)) scale))) else 0)
                     in if f > 0 \<and> w > 2 ^ 63 then None else Some (w, s3))))"

lemma leadingInt_rest: "leadingInt x s = Some (v, r) \<Longrightarrow> \<exists>p. s = p @ r"
  by (induction x s rule: leadingInt.induct) (auto simp: Let_def split: if_splits)

lemma leadingFraction_rest: "leadingFraction ov x sc s = (f, sc', r) \<Longrightarrow> \<exists>p. s = p @ r"
  by (induction ov x sc s rule: leadingFraction.induct) (auto simp: Let_def split: if_splits)

lemma duration_part_rest:
  assumes "duration_part s = Some (w, r)"
  shows "length r < length s"
proof -
  from assms obtain v s1 where i: "leadingInt 0 s = Some (v, s1)"
    by (auto simp: duration_part_def split: if_splits option.splits)
  define dot where "dot = (s1 \<noteq> '''' \<and> hd s1 = CHR ''.'')"
  obtain f scale s2 where f: "(if dot then leadingFraction False 0 1 (tl s1) else (0, 1, s1)) = (f, scale, s2)" by (metis surj_pair)
  have "r = dropWhile (\<lambda>c. \<not> starts_number c) s2 \<and> takeWhile (\<lambda>c. \<not> starts_number c) s2 \<noteq> []"
    using assms by (auto simp: duration_part_def i dot_def [symmetric] f Let_def split: if_splits option.splits)
  then have "length r < length s2"
    by (cases s2) (auto simp: less_Suc_eq_le length_dropWhile_le split: if_splits)
  moreover have "length s2 \<le> length s1"
  proof (cases dot)
    case True
    with f obtain p where "tl s1 = p @ s2" using leadingFraction_rest [of False 0 1 "tl s1" f scale s2] by auto
    then have "length s2 \<le> length (tl s1)" by simp
    then show ?thesis by simp
  qed (use f in simp)
  moreover have "length s1 \<le> length s" using leadingInt_rest [OF i] by auto
  ultimately show ?thesis by linarith
qed

function duration_sum :: "nat \<Rightarrow> string \<Rightarrow> nat option" where
  "duration_sum d s =
     (if s = '''' then Some d
      else case duration_part s of
        None \<Rightarrow> None
      | Some (v, r) \<Rightarrow> if d + v > 2 ^ 63 then None else duration_sum (d + v) r)"
  by pat_completeness auto
termination
  by (relation "measure (\<lambda>(d, s). length s)") (auto dest: duration_part_rest)

declare duration_sum.simps [simp del]

definition ParseDuration :: "string \<Rightarrow> int option" where
  "ParseDuration s0 =
     (let signed = (s0 \<noteq> '''' \<and> (hd s0 = CHR ''-'' \<or> hd s0 = CHR ''+'')); neg = (signed \<and> hd s0 = CHR ''-''); s = (if signed then tl s0 else s0)
      in if s = ''0'' then Some 0
         else if s = '''' then None
         else case duration_sum 0 s of
           None \<Rightarrow> None
         | Some d \<Rightarrow> if neg then Some (- int d) else if d > 2 ^ 63 - 1 then None else Some (int d))"

subsection \<open>The form fields\<close>

definition maxWaitDelay :: int where "maxWaitDelay = 30 * 10 ^ 9"
definition maxWaitExpressionLen :: nat where "maxWaitExpressionLen = 1024"

definition no_wait :: WaitOptions where "no_wait = \<lparr>WaitDelay = '''', WaitForExpression = ''''\<rparr>"

definition parseWaitOptions :: "(string \<Rightarrow> string) \<Rightarrow> string \<Rightarrow> (Error, WaitOptions) result" where
  "parseWaitOptions FormValue engine =
     (let delay = trim_space (FormValue ''waitDelay''); expr = trim_space (FormValue ''waitForExpression'');
          d = ParseDuration delay
      in if engine \<noteq> ''gotenberg''
         then (if delay \<noteq> '''' \<or> expr \<noteq> ''''
               then Err (NewInputUnprocessable
                 ''wait controls are not supported by the aspose engine (no JavaScript); use /v1/convert/html/gotenberg'')
               else Ok no_wait)
         else if delay \<noteq> '''' \<and> (d = None \<or> the d \<le> 0)
         then Err (NewInputUnprocessable ''waitDelay must be a positive duration (e.g. 2s, 1500ms)'')
         else if delay \<noteq> '''' \<and> the d > maxWaitDelay then Err (NewInputUnprocessable ''waitDelay must be <= 30s'')
         else if length expr > maxWaitExpressionLen then Err (NewInputUnprocessable ''waitForExpression must be <= 1024 characters'')
         else Ok \<lparr>WaitDelay = delay, WaitForExpression = expr\<rparr>)"

section \<open>Lemmas\<close>

lemma atou_ge: "x \<le> atou x ds"
proof (induction ds arbitrary: x)
  case (Cons c ds)
  from Cons.IH [of "10 * x + digit_val c"] show ?case by simp
qed simp

lemma leadingInt_digits:
  assumes "\<forall>c \<in> set ds. is_digit c" and "r = [] \<or> \<not> is_digit (hd r)" and "x \<le> 2 ^ 63"
  shows "leadingInt x (ds @ r) = (if atou x ds \<le> 2 ^ 63 then Some (atou x ds, r) else None)"
  using assms(1,3)
proof (induction ds arbitrary: x)
  case Nil
  then show ?case using assms(2) by (cases r) simp_all
next
  case (Cons c ds)
  define y where "y = x * 10 + digit_val c"
  have y: "atou x (c # ds) = atou y ds" by (simp add: y_def mult.commute)
  have big: "2 ^ 63 < y" if "(2::nat) ^ 63 div 10 < x" using that unfolding y_def by simp
  show ?case
  proof (cases "y \<le> 2 ^ 63")
    case True
    then have "\<not> 2 ^ 63 div 10 < x" using big by linarith
    then show ?thesis using Cons.IH [of y] Cons.prems True unfolding y by (simp add: y_def [symmetric] Let_def)
  next
    case False
    then show ?thesis using atou_ge [of y ds] Cons.prems(1) unfolding y by (simp add: y_def [symmetric] Let_def)
  qed
qed

lemma trim_space_ends:
  assumes "s \<noteq> []" "(of_char (hd s) :: nat) \<in> {33..<128}" "(of_char (last s) :: nat) \<in> {33..<128}"
  shows "trim_space s = s"
proof -
  have id: "trim_seqs seqs t = t"
    if t: "t \<noteq> []" "(of_char (hd t) :: nat) \<in> {33..<128}" "\<forall>p \<in> set seqs. (of_char (hd p) :: nat) \<notin> {33..<128}" for seqs and t :: string
  proof (rule trim_seqs_id)
    have "\<not> (p \<noteq> [] \<and> has_prefix t p)" if "p \<in> set seqs" for p
      using that t by (cases p) (force simp: has_prefix_conv)+
    then show "find (\<lambda>p. p \<noteq> [] \<and> has_prefix t p) seqs = None" by (simp add: find_None_iff)
  qed
  have "trim_seqs space_seqs s = s" using assms space_seqs_ends by (intro id) auto
  moreover have "trim_seqs (map rev space_seqs) (rev s) = rev s"
    by (rule id) (use assms space_seqs_ends in \<open>auto simp: hd_rev\<close>)
  ultimately show ?thesis by (simp add: trim_space_def)
qed

text \<open>What the units look like: no digit and no dot, and a visible last letter.\<close>

lemma unit_shape:
  assumes "(u, k) \<in> set unitMap"
  shows "u \<noteq> [] \<and> \<not> starts_number (hd u) \<and> takeWhile (\<lambda>c. \<not> starts_number c) u = u \<and> dropWhile (\<lambda>c. \<not> starts_number c) u = [] \<and>
    (of_char (last u) :: nat) \<in> {33..<128} \<and> map_of unitMap u = Some k \<and> 0 < k"
proof -
  have "distinct (map fst unitMap)" unfolding unitMap_def list.map fst_conv by code_simp
  then have "map_of unitMap u = Some k" using assms by (rule map_of_is_SomeI)
  moreover have "0 < k" using assms unfolding unitMap_def by auto
  moreover have "list_all (\<lambda>u. u \<noteq> [] \<and> list_all (\<lambda>c. \<not> starts_number c) u \<and> 33 \<le> (of_char (last u) :: nat) \<and> (of_char (last u) :: nat) < 128) (map fst unitMap)"
    unfolding unitMap_def list.map fst_conv by code_simp
  then have "u \<noteq> []" "\<forall>c \<in> set u. \<not> starts_number c" "(of_char (last u) :: nat) \<in> {33..<128}"
    using assms by (auto simp: list_all_iff)
  ultimately show ?thesis by (simp add: dropWhile_eq_Nil_conv)
qed

lemma duration_part_unit:
  assumes "(u, k) \<in> set unitMap"
  shows "duration_part (utoa n @ u) = (if n * k \<le> 2 ^ 63 then Some (n * k, []) else None)"
proof -
  note u = unit_shape [OF assms]
  have tw: "takeWhile (\<lambda>c. \<not> starts_number c) u = u" and dw: "dropWhile (\<lambda>c. \<not> starts_number c) u = []"
    and lk: "map_of unitMap u = Some k" and ne: "u \<noteq> []" and hd: "hd u \<noteq> CHR ''.''" using u by (auto simp: starts_number_def)
  define L where "L = utoa n @ u"
  have li: "leadingInt 0 L = (if n \<le> 2 ^ 63 then Some (n, u) else None)"
    using leadingInt_digits [of "utoa n" u 0] utoa_digits u by (auto simp: L_def atou_utoa starts_number_def)
  have L: "L \<noteq> []" "length u \<noteq> length L" by (simp_all add: L_def)
  have st: "starts_number (hd L)" using utoa_digits [of "hd (utoa n)" n] by (simp add: L_def starts_number_def)
  have dv: "2 ^ 63 div k < n \<longleftrightarrow> \<not> n * k \<le> 2 ^ 63" using u by (simp add: div_less_iff_less_mult not_le)
  have "n * 1 \<le> n * k" using u by (intro mult_le_mono2) simp
  then have n: "n \<le> 2 ^ 63" if "n * k \<le> 2 ^ 63" using that unfolding mult_1_right by (rule le_trans)
  show ?thesis
  proof (cases "n \<le> 2 ^ 63")
    case True
    show ?thesis unfolding L_def [symmetric] duration_part_def li if_P [OF True] using L st
      by (simp only: option.case prod.case Let_def tw dw lk ne hd dv not_False_eq_True if_False if_True simp_thms) (simp add: dv)
  next
    case False
    then have "\<not> n * k \<le> 2 ^ 63" using n by blast
    then show ?thesis unfolding L_def [symmetric] duration_part_def li if_not_P [OF False] using L st by simp
  qed
qed

lemma ParseDuration_unit:
  assumes "(u, k) \<in> set unitMap"
  shows "ParseDuration (utoa n @ u) = (if n * k < 2 ^ 63 then Some (int (n * k)) else None)"
proof -
  note u = unit_shape [OF assms]
  obtain c ds where utoa: "utoa n = c # ds" by (cases "utoa n") auto
  then have c: "c \<noteq> CHR ''-''" "c \<noteq> CHR ''+''" using is_digit_sign [of c] utoa_digits [of c n] by simp_all
  have "duration_sum 0 (utoa n @ u) = (if n * k \<le> 2 ^ 63 then Some (n * k) else None)"
    by (simp add: duration_sum.simps [of 0 "utoa n @ u"] duration_part_unit [OF assms] duration_sum.simps [of _ "[]"])
  moreover have "utoa n @ u \<noteq> ''0''" using u by (simp add: utoa)
  ultimately show ?thesis using c by (auto simp: ParseDuration_def utoa Let_def)
qed

section \<open>Properties\<close>



text \<open>
  A wait control on the Aspose endpoint is refused as \<^verbatim>\<open>input_unprocessable\<close>, which is status 422; the
  comment on \<^verbatim>\<open>parseWaitOptions\<close> announces an explicit 400. Without a wait control the request passes.
\<close>

theorem aspose_wait_is_422:
  "case parseWaitOptions FormValue ''aspose'' of
     Ok w \<Rightarrow> trim_space (FormValue ''waitDelay'') = '''' \<and> trim_space (FormValue ''waitForExpression'') = '''' \<and> w = no_wait
   | Err e \<Rightarrow> (trim_space (FormValue ''waitDelay'') \<noteq> '''' \<or> trim_space (FormValue ''waitForExpression'') \<noteq> '''') \<and>
       FailureClass e = InputUnprocessable \<and> HTTPStatus e = 422 \<and> HTTPStatus e \<noteq> 400"
  by (simp add: parseWaitOptions_def NewInputUnprocessable_def Let_def)

end
