(* ===== verification/Server.thy ===== *)
theory Server
  imports Http Waits License S3 Ratelimit Csvinput Pipeline
begin

text \<open>
  \<^verbatim>\<open>internal/server/server.go\<close> and \<^verbatim>\<open>health.go\<close>: the server's state, request ids, the health check, the
  recording of conversions, and the read-only endpoints. What the server meets outside the program is the
  record \<open>Outside\<close>; a request is the record \<open>Request\<close>, with the form already decoded by \<^verbatim>\<open>mime/multipart\<close>.
  The clock, the files and the observability stores are those of the pipeline's \<open>World\<close>; each reading of the
  clock takes a tick. Calls to the AWS SDK are collected in \<open>calls\<close>.
\<close>

section \<open>Definitions\<close>

subsection \<open>State\<close>

record licenseHealth =
  licenseMgr :: LicenseManager
  staticProblems :: "string list"

record Server =
  settings :: Settings
  license :: licenseHealth
  srv_cache :: Manager
  recent :: RecentStore
  rl :: "Limiter option"
  sem :: nat
  activeJobs :: int
  dashHTML :: string
  landHTML :: string
  world :: World
  calls :: "sdk_call list"

record Outside =
  o_env :: Env
  o_disk :: "nat \<Rightarrow> lic_disk"
  o_xml :: "string \<Rightarrow> xml_token list"
  o_aws :: aws_sdk
  o_quote :: "string \<Rightarrow> string"
  o_json :: "string \<Rightarrow> (string \<rightharpoonup> json) option"
  o_pages :: "string \<Rightarrow> (string, int option) result"
  o_soffice :: worker_exec
  o_installed :: bool
  o_glob :: "string \<Rightarrow> string list"
  o_http :: http_service
  o_zip :: "(string \<times> string) list \<Rightarrow> (string, string) result"
  o_random :: "nat \<Rightarrow> string"
  o_tmp :: string

record Request =
  q_request_id :: string
  q_form :: "string \<rightharpoonup> string"
  q_file :: "(string \<times> int \<times> upload) option"
  q_xff :: string
  q_addr :: string
  q_client :: "nat option"

definition FormValue :: "Request \<Rightarrow> string \<Rightarrow> string" where
  "FormValue q k = (case q_form q k of Some v \<Rightarrow> v | None \<Rightarrow> '''')"

definition time_now :: "Outside \<Rightarrow> Server \<Rightarrow> int" where
  "time_now X srv = env_clock (o_env X) (ticks (world srv))"

definition tick :: "Server \<Rightarrow> Server" where
  "tick srv = srv\<lparr>world := (world srv)\<lparr>ticks := ticks (world srv) + 1\<rparr>\<rparr>"

definition set_fs :: "fs \<Rightarrow> Server \<Rightarrow> Server" where
  "set_fs st srv = srv\<lparr>world := (world srv)\<lparr>fsys := st\<rparr>\<rparr>"

abbreviation files :: "Server \<Rightarrow> fs" where "files srv \<equiv> fsys (world srv)"

definition Server_New :: "Settings \<Rightarrow> licenseHealth \<Rightarrow> Manager \<Rightarrow> RecentStore \<Rightarrow> string \<Rightarrow> string \<Rightarrow> World \<Rightarrow> (go_error, Server) result" where
  "Server_New s lic c rec dash land w =
     (let srv = \<lparr>settings = s, license = lic, srv_cache = c, recent = rec, rl = None, sem = 0, activeJobs = 0,
                 dashHTML = dash, landHTML = land, world = w, calls = []\<rparr>
      in if RateLimitEnabled s
         then (case ratelimit_New (RateLimitPerIPRPM s) (RateLimitBurst s) (RateLimitMaxKeys s) of
                 Err e \<Rightarrow> Err e
               | Ok l \<Rightarrow> Ok (srv\<lparr>rl := Some l\<rparr>))
         else Ok srv)"

definition newRequestID :: "Outside \<Rightarrow> Server \<Rightarrow> string" where
  "newRequestID X srv = hex (take 16 (o_random X (ticks (world srv))))"

text \<open>\<^verbatim>\<open>requestIDMiddleware\<close>: the request id that the handler sees and the response it starts with.\<close>

definition requestIDMiddleware :: "Outside \<Rightarrow> Request \<Rightarrow> Server \<Rightarrow> string \<times> Response \<times> Server" where
  "requestIDMiddleware X q srv =
     (let rid = (if q_request_id q = '''' then newRequestID X srv else q_request_id q)
      in (rid, set_header ''X-Request-ID'' rid (new_response (q_client q)), tick srv))"

definition respond_error :: "Outside \<Rightarrow> string \<Rightarrow> go_error \<Rightarrow> Response \<Rightarrow> Server \<Rightarrow> Response \<times> Server" where
  "respond_error X rid err r srv = (writeError (time_now X srv) rid err r, tick srv)"

subsection \<open>Health\<close>

definition NewHealth :: "bool \<Rightarrow> os_faults \<Rightarrow> Settings \<Rightarrow> LicenseManager \<Rightarrow> fs \<Rightarrow> licenseHealth" where
  "NewHealth qpdf_found os s mgr st =
     (let required = AsposeFormats @ [''email''];
          p1 = (if list_ex (\<lambda>n. \<not> os_Stat (WorkerBinaryPrefix s @ ''-'' @ n) st) required then [''worker_binary_missing''] else []);
          p2 = (if \<not> qpdf_found then [''qpdf_missing''] else []);
          p3 = (if mkdir_err os (ScratchDir s) \<noteq> None then [''scratch_dir_unwritable''] else [])
      in \<lparr>licenseMgr = mgr, staticProblems = p1 @ p2 @ p3\<rparr>)"

definition license_days :: "Outside \<Rightarrow> Server \<Rightarrow> (lic_error, int option) result \<times> LicenseManager" where
  "license_days X srv =
     DaysRemaining (env_oor (o_env X)) (o_xml X) (time_now X srv) (o_disk X (ticks (world srv))) (licenseMgr (license srv))"

definition set_mgr :: "LicenseManager \<Rightarrow> Server \<Rightarrow> Server" where
  "set_mgr m srv = srv\<lparr>license := (license srv)\<lparr>licenseMgr := m\<rparr>\<rparr>"

definition health_problems :: "(lic_error, int option) result \<Rightarrow> string list" where
  "health_problems days =
     (case days of
        Err (NotExist e) \<Rightarrow> [''license_path_missing'']
      | Err (Invalid e) \<Rightarrow> [''license_invalid'']
      | Ok None \<Rightarrow> []
      | Ok (Some d) \<Rightarrow> if d < 0 then [''license_expired''] else [])"

definition health_snapshot :: "Outside \<Rightarrow> Server \<Rightarrow> (bool \<times> (string \<times> json) list) \<times> Server" where
  "health_snapshot X srv =
     (let (days, m) = license_days X srv;
          problems = staticProblems (license srv) @ health_problems days;
          remaining = (case days of Ok (Some d) \<Rightarrow> JInt d | _ \<Rightarrow> JNull)
      in ((problems = [],
           [(''ready'', JBool (problems = [])), (''license_days_remaining'', remaining), (''active_jobs'', JInt (activeJobs srv)),
            (''max_jobs'', JInt (MaxJobs (settings srv))), (''problems'', JStrs problems)]),
          tick (set_mgr m srv)))"

definition health :: "Outside \<Rightarrow> Response \<Rightarrow> Server \<Rightarrow> Response \<times> Server" where
  "health X r srv =
     (let ((ready, snap), srv') = health_snapshot X srv in (writeJSON (if ready then 200 else 503) (JObj snap) r, srv'))"

subsection \<open>Read-only endpoints\<close>

definition version :: string where "version = ''0.1.0''"

text \<open>\<^verbatim>\<open>strings.NewReplacer\<close>: at each position the first of the pairs that matches; no old text is empty here.\<close>

function replacer :: "(string \<times> string) list \<Rightarrow> string \<Rightarrow> string" where
  "replacer ps [] = []"
| "replacer ps (c # s) =
     (case find (\<lambda>(old, new). old \<noteq> '''' \<and> has_prefix (c # s) old) ps of
        Some (old, new) \<Rightarrow> new @ replacer ps (drop (length old) (c # s))
      | None \<Rightarrow> c # replacer ps s)"
  by pat_completeness auto
termination
proof (relation "measure (\<lambda>(ps, s). length s)")
  fix ps :: "(string \<times> string) list" and c s y xa xb
  assume "find (\<lambda>(old, new). old \<noteq> '''' \<and> has_prefix (c # s) old) ps = Some y" "(xa, xb) = y"
  then show "((ps, drop (length xa) (c # s)), ps, c # s) \<in> measure (\<lambda>(ps, s). length s)"
    by (cases xa) (auto simp: find_Some_iff)
qed auto

definition landing :: "Outside \<Rightarrow> Response \<Rightarrow> Server \<Rightarrow> Response \<times> Server" where
  "landing X r srv =
     (let ((ready, snap), srv') = health_snapshot X srv;
          (label, class) = (if ready then (''READY'', ''ok'') else (''NOT READY'', ''err''))
      in (writeHTML (replacer [(''{{STATUS_LABEL}}'', label), (''{{STATUS_CLASS}}'', class), (''{{VERSION}}'', version)] (landHTML srv)) r, srv'))"

definition dashboard :: "Response \<Rightarrow> Server \<Rightarrow> Response \<times> Server" where
  "dashboard r srv = (writeHTML (dashHTML srv) r, srv)"

definition set_stores :: "Stores \<Rightarrow> Server \<Rightarrow> Server" where
  "set_stores st srv = srv\<lparr>world := (world srv)\<lparr>stores := st\<rparr>\<rparr>"

definition writeEvents :: "string \<Rightarrow> string \<Rightarrow> Event list \<Rightarrow> Response \<Rightarrow> Response" where
  "writeEvents rid key evs r = (WriteHeader 200 (set_header ''Content-Type'' ''application/json'' r))\<lparr>r_events := Some (rid, key, evs)\<rparr>"

definition getHeartbeats :: "Outside \<Rightarrow> string \<Rightarrow> Response \<Rightarrow> Server \<Rightarrow> Response \<times> Server" where
  "getHeartbeats X rid r srv =
     (let (evs, h) = ring_Get (time_now X srv) rid (Heartbeats (stores (world srv)))
      in (writeEvents rid ''heartbeats'' evs r, tick (set_stores ((stores (world srv))\<lparr>Heartbeats := h\<rparr>) srv)))"

definition getTimings :: "Outside \<Rightarrow> string \<Rightarrow> Response \<Rightarrow> Server \<Rightarrow> Response \<times> Server" where
  "getTimings X rid r srv =
     (let (evs, t) = ring_Get (time_now X srv) rid (Timings (stores (world srv)))
      in (writeEvents rid ''timings'' evs r, tick (set_stores ((stores (world srv))\<lparr>Timings := t\<rparr>) srv)))"

definition mergeMap :: "(string \<times> json) list \<Rightarrow> (string \<times> json) list \<Rightarrow> (string \<times> json) list" where
  "mergeMap a b = filter (\<lambda>kv. fst kv \<notin> set (map fst b)) a @ b"

definition max64 :: "rat \<Rightarrow> rat \<Rightarrow> rat" where
  "max64 a b = (if a > b then a else b)"

definition ToDict :: "int \<Rightarrow> JobProgress \<Rightarrow> (string \<times> json) list" where
  "ToDict now j =
     [(''total_chunks'', JInt (TotalChunks j)), (''chunks_rendered'', JInt (ChunksRenderedP j)), (''phase'', JStr (Phase j)),
      (''load_progress'', JNum (LoadProgress j)), (''merge_done'', JNum (MergeDone j)), (''started_at'', JNum (StartedAt j)),
      (''weighted_percent'', JNum (WeightedPercent j)), (''elapsed_s'', JNum (max64 0 (fsub (nowEpoch now) (StartedAt j))))]"

definition getProgress :: "Outside \<Rightarrow> string \<Rightarrow> Response \<Rightarrow> Server \<Rightarrow> Response \<times> Server" where
  "getProgress X rid r srv =
     (let (jp, p) = prog_Get (time_now X srv) rid (Progress (stores (world srv)));
          srv1 = tick (set_stores ((stores (world srv))\<lparr>Progress := p\<rparr>) srv)
      in case jp of
           None \<Rightarrow>
             (writeJSON 200 (JObj [(''request_id'', JStr rid), (''phase'', JStr ''unknown''), (''total_chunks'', JInt 0), (''chunks_rendered'', JInt 0),
                (''load_progress'', JNum 0), (''merge_done'', JNum 0), (''weighted_percent'', JNum 0), (''elapsed_s'', JNum 0)]) r, srv1)
         | Some j \<Rightarrow> (writeJSON 200 (JObj (mergeMap [(''request_id'', JStr rid)] (ToDict (time_now X srv1) j))) r, tick srv1))"

text \<open>\<open>keys\<close> is the order in which the runtime visits the progress map; each job reads the clock.\<close>

definition listActiveJobs :: "Outside \<Rightarrow> string list \<Rightarrow> Response \<Rightarrow> Server \<Rightarrow> Response \<times> Server" where
  "listActiveJobs X keys r srv =
     (let (jobs, p) = Active (time_now X srv) keys (Progress (stores (world srv)));
          srv1 = tick (set_stores ((stores (world srv))\<lparr>Progress := p\<rparr>) srv);
          now = (\<lambda>i. env_clock (o_env X) (ticks (world srv1) + i));
          entries = map (\<lambda>(i, rid, j). JObj (mergeMap [(''request_id'', JStr rid)] (ToDict (now i) j))) (enumerate 0 jobs)
      in (writeJSON 200 (JObj [(''jobs'', JArr entries)]) r, (tick ^^ length jobs) srv1))"

definition clear_json :: "ClearResult \<Rightarrow> json" where
  "clear_json c =
     JObj ([(''enabled'', JBool (ClearEnabled c)), (''files_deleted'', JInt (FilesDeleted c)), (''bytes_freed'', JInt (BytesFreed c))] @
           (if ClearErrors c = 0 then [] else [(''errors'', JInt (ClearErrors c))]))"

definition clearCache :: "Outside \<Rightarrow> visit list \<Rightarrow> Response \<Rightarrow> Server \<Rightarrow> Response \<times> Server" where
  "clearCache X visits r srv =
     (let (c, st) = Clear (env_os (o_env X)) (srv_cache srv) visits (files srv) in (writeJSON 200 (clear_json c) r, set_fs st srv))"

definition opt_json :: "('a \<Rightarrow> json) \<Rightarrow> 'a option \<Rightarrow> json" where
  "opt_json f v = (case v of None \<Rightarrow> JNull | Some x \<Rightarrow> f x)"

definition recordToDict :: "ConversionRecord \<Rightarrow> (string \<times> json) list" where
  "recordToDict r =
     [(''request_id'', JStr (RequestID r)), (''completion_ts'', JNum (CompletionTS r)), (''source'', JStr (Source r)),
      (''input_filename'', opt_json JStr (InputFilename r)), (''format'', JStr (RecFormat r)), (''page_count'', opt_json JInt (RecPageCount r)),
      (''duration_ms'', JInt (DurationMS r)), (''status'', JStr (Status r)), (''error_code'', opt_json JStr (ErrorCode r)),
      (''output_s3_uri'', opt_json JStr (OutputS3URI r)), (''output_size_bytes'', opt_json JInt (OutputSizeBytes r))] @
     (if Engine r \<noteq> '''' then [(''engine'', JStr (Engine r))] else [])"

definition page_limit :: "string \<Rightarrow> int" where
  "page_limit raw = (let limit = (case parse_int raw of Some v \<Rightarrow> v | None \<Rightarrow> 20) in if limit < 1 then 1 else if limit > 100 then 100 else limit)"

definition page_filter :: "string \<Rightarrow> string" where
  "page_filter flt = (if flt \<in> {''all'', ''ui'', ''cross'', ''failed''} then flt else ''all'')"

text \<open>
  \<open>enc\<close> and \<open>dec\<close> are the cursor tokens (base64 of JSON); a token that does not decode is no cursor.
\<close>

definition conversions_page ::
  "(Cursor \<Rightarrow> string) \<Rightarrow> (string \<Rightarrow> Cursor option) \<Rightarrow> (string \<Rightarrow> string) \<Rightarrow> RecentStore \<Rightarrow> Page" where
  "conversions_page enc dec query rs =
     (let limit = page_limit (query ''limit''); flt = page_filter (query ''filter'');
          filtered = filter (\<lambda>rec. Matches rec flt) (Snapshot rs);
          cur = (if query ''cursor'' \<noteq> '''' then dec (query ''cursor'') else None)
      in Paginate enc filtered cur limit (Size rs))"

definition listConversions ::
  "(Cursor \<Rightarrow> string) \<Rightarrow> (string \<Rightarrow> Cursor option) \<Rightarrow> (string \<Rightarrow> string) \<Rightarrow> Response \<Rightarrow> Server \<Rightarrow> Response \<times> Server" where
  "listConversions enc dec query r srv =
     (let page = conversions_page enc dec query (recent srv)
      in (writeJSON 200 (JObj [(''entries'', JArr (map (\<lambda>e. JObj (recordToDict e)) (Entries page))),
            (''next_cursor'', opt_json JStr (NextCursor page)), (''has_more'', JBool (HasMore page)),
            (''stale_cursor'', JBool (StaleCursor page)), (''buffer_size'', JInt (BufferSize page))]) r, srv))"

subsection \<open>Statistics\<close>

definition p95_index :: "nat \<Rightarrow> int" where
  "p95_index n =
     (let i = \<lceil>fmul (rnd64 (95 / 100)) (fl (int n))\<rceil> - 1
      in if i < 0 then 0 else if i > int n - 1 then int n - 1 else i)"

definition summarizeTimes :: "int list \<Rightarrow> (string \<times> int) list" where
  "summarizeTimes durations =
     (let ts = sort durations; n = length ts
      in [(''count'', int n), (''avg_ms'', if n > 0 then tquot (sum_list ts) (int n) else 0),
          (''p95_ms'', if n > 0 then ts ! nat (p95_index n) else 0)])"

text \<open>Durations grouped by a key, the keys in the order of their first record.\<close>

definition times_by :: "(ConversionRecord \<Rightarrow> string) \<Rightarrow> ConversionRecord list \<Rightarrow> (string \<times> int list) list" where
  "times_by key recs = map (\<lambda>k. (k, map DurationMS (filter (\<lambda>r. key r = k) recs))) (remdups (map key recs))"

definition ints_json :: "(string \<times> int) list \<Rightarrow> json" where
  "ints_json kvs = JObj (map (\<lambda>(k, v). (k, JInt v)) kvs)"

definition conversions_stats :: "ConversionRecord list \<Rightarrow> (string \<times> json) list" where
  "conversions_stats snap =
     (let succeeded = filter (\<lambda>r. Status r \<noteq> ''failed'') snap;
          timed = filter (\<lambda>r. DurationMS r \<noteq> 0) succeeded;
          summaries = (\<lambda>groups. JObj (map (\<lambda>(k, ts). (k, ints_json (summarizeTimes ts))) groups));
          perEngine = times_by Engine (filter (\<lambda>r. Engine r \<noteq> '''') timed)
      in [(''per_format'', summaries (times_by RecFormat timed)),
          (''totals'', ints_json [(''count'', int (length snap)), (''successes'', int (length succeeded)),
             (''failures'', int (length snap) - int (length succeeded))])] @
         (if perEngine \<noteq> [] then [(''per_engine_html'', summaries perEngine)] else []))"

definition conversionsStats :: "Response \<Rightarrow> Server \<Rightarrow> Response \<times> Server" where
  "conversionsStats r srv = (writeJSON 200 (JObj (conversions_stats (Snapshot (recent srv)))) r, srv)"

subsection \<open>Downloads\<close>

text \<open>
  \<^verbatim>\<open>time.RFC3339\<close> in UTC. \<open>civil\<close> is the date with the given number of days after 1 January of the year 1
  (years counted from March, in eras of 400 years).
\<close>

definition civil :: "int \<Rightarrow> date" where
  "civil n =
     (let z = n + 306; era = z div 146097; doe = z mod 146097;
          yoe = (doe - doe div 1460 + doe div 36524 - doe div 146096) div 365;
          doy = doe - (365 * yoe + yoe div 4 - yoe div 100);
          mp = (5 * doy + 2) div 153;
          d = doy - (153 * mp + 2) div 5 + 1;
          m = (if mp < 10 then mp + 3 else mp - 9)
      in (yoe + era * 400 + (if m \<le> 2 then 1 else 0), m, d))"

definition rfc3339 :: "int \<Rightarrow> string" where
  "rfc3339 t =
     (let s = t div 10 ^ 9; sec = s mod 86400
      in format_date (civil (today t)) @ ''T'' @ pad 2 (sec div 3600) @ '':'' @ pad 2 (sec div 60 mod 60) @ '':'' @ pad 2 (sec mod 60) @ ''Z'')"

definition presign :: "Outside \<Rightarrow> string \<Rightarrow> (string \<Rightarrow> string) \<Rightarrow> Response \<Rightarrow> Server \<Rightarrow> Response \<times> Server" where
  "presign X rid query r srv =
     (if \<not> S3Enabled (settings srv) then respond_error X rid (OError NewS3Disabled) r srv
      else
        (let bucket = query ''bucket''; key = query ''key'';
             (res, cs) = PresignGetURL (o_aws X) bucket key (settings srv); srv1 = srv\<lparr>calls := calls srv @ cs\<rparr>
         in case res of
              Err e \<Rightarrow> respond_error X rid e r srv1
            | Ok url \<Rightarrow>
                (let ttl = S3PresignTTLSeconds (settings srv)
                 in (writeJSON 200 (JObj [(''download_url'', JStr url), (''bucket'', JStr bucket), (''key'', JStr key),
                       (''expires_in_seconds'', JInt ttl), (''expires_at'', JStr (rfc3339 (time_now X srv1 + ttl * 10 ^ 9)))]) r, tick srv1))))"

subsection \<open>Recording\<close>

record dispatchInfo =
  di_rid :: string
  di_t0 :: int
  di_source :: string
  di_inputFilename :: string
  di_format :: string
  di_engine :: string
  di_s3Out :: "(string \<times> string) option"

definition recordConversion :: "Outside \<Rightarrow> dispatchInfo \<Rightarrow> string \<Rightarrow> string \<Rightarrow> int \<Rightarrow> Server \<Rightarrow> Server" where
  "recordConversion X d status errorCode outSize srv =
     (let srv1 = tick srv;
          rec = \<lparr>RequestID = di_rid d, CompletionTS = nowEpoch (time_now X srv), Source = di_source d,
                 InputFilename = (if di_inputFilename d \<noteq> '''' then Some (di_inputFilename d) else None),
                 RecFormat = di_format d, RecPageCount = None, DurationMS = tquot (time_now X srv1 - di_t0 d) (10 ^ 6), Status = status,
                 ErrorCode = (if errorCode \<noteq> '''' then Some errorCode else None),
                 OutputS3URI = (case di_s3Out d of Some (b, k) \<Rightarrow> Some (''s3://'' @ b @ ''/'' @ k) | None \<Rightarrow> None),
                 OutputSizeBytes = (if status = ''success'' then Some outSize else None), Engine = di_engine d\<rparr>
      in tick (srv1\<lparr>recent := recent_Record rec (recent srv1)\<rparr>))"

section \<open>Properties\<close>

subsection \<open>Percentiles\<close>

lemma factor_95: "rnd64 (95 / 100) = 4278419646001971 / 2 ^ 52"
proof -
  have "\<lceil>(100::rat) / 95\<rceil> = 2" by (rule ceiling_unique) simp_all
  then have "binade (95 / 100) = - 1" by (simp add: binade_def ilog2_nat.simps [of "Suc 0"])
  then have u: "ulp (95 / 100) = 1 / 2 ^ 53" by (simp add: ulp_def power_int_minus_divide)
  have "\<lfloor>(95 / 100) / (1 / 2 ^ 53) :: rat\<rfloor> = 8556839292003942" by (rule floor_unique) simp_all
  then have "round_even ((95 / 100) / (1 / 2 ^ 53)) = 8556839292003942" unfolding round_even_def by simp
  then show ?thesis unfolding rnd64_def u by simp
qed

lemma ceil_95:
  assumes "n \<le> 10 ^ 9"
  shows "\<lceil>fmul (rnd64 (95 / 100)) (fl (int n))\<rceil> = \<lceil>95 * rat_of_nat n / 100\<rceil>"
proof -
  define c where "c = rnd64 (95 / 100)"
  define k where "k = \<lceil>95 * rat_of_nat n / 100\<rceil>"
  have n: "rat_of_nat n \<le> 10 ^ 9" using assms of_nat_mono [of n "10 ^ 9", where 'a = rat] by simp
  have fl: "fl (int n) = rat_of_nat n" using rnd64_of_int [of "int n"] assms by (simp add: fl_def)
  have c: "c \<le> 95 / 100" "95 / 100 - 1 / 2 ^ 52 \<le> c" unfolding c_def factor_95 by simp_all
  have up: "c * rat_of_nat n \<le> 95 * rat_of_nat n / 100" using mult_right_mono [OF c(1), of "rat_of_nat n"] by simp
  have lo: "95 * rat_of_nat n / 100 - rat_of_nat n / 2 ^ 52 \<le> c * rat_of_nat n"
    using mult_right_mono [OF c(2), of "rat_of_nat n"] by (simp add: algebra_simps)
  have nn: "0 \<le> c * rat_of_nat n" using c(2) by (intro mult_nonneg_nonneg) auto
  have k: "95 * rat_of_nat n / 100 \<le> of_int k" "of_int k - 95 / 100 \<le> 95 * rat_of_nat n / 100"
  proof -
    show "95 * rat_of_nat n / 100 \<le> of_int k" unfolding k_def by (rule le_of_int_ceiling)
    have "of_int k - 1 < 95 * rat_of_nat n / 100" unfolding k_def using ceiling_correct by blast
    then have "rat_of_int (20 * k) < rat_of_int (19 * int n + 20)" by simp
    then have "20 * k < 19 * int n + 20" by (simp only: of_int_less_iff)
    then have "20 * k \<le> 19 * int n + 19" by linarith
    then have "rat_of_int (20 * k) \<le> rat_of_int (19 * int n + 19)" by (simp only: of_int_le_iff)
    then show "of_int k - 95 / 100 \<le> 95 * rat_of_nat n / 100" by simp
  qed
  have "rnd64 (c * rat_of_nat n) \<le> of_int k"
  proof -
    have "rat_of_int (- 1) < of_int k" "rat_of_int k < of_int (2 ^ 53)" using k n up nn by simp_all
    then have "\<bar>k\<bar> < 2 ^ 53" by (simp only: of_int_less_iff)
    with rnd64_mono [of "c * rat_of_nat n" "of_int k"] up k(1) show ?thesis by (simp add: rnd64_of_int)
  qed
  moreover have "of_int k - 1 < rnd64 (c * rat_of_nat n)"
  proof -
    have "\<bar>c * rat_of_nat n\<bar> \<le> 10 ^ 9" using up nn n by simp
    then have "\<bar>c * rat_of_nat n\<bar> / 2 ^ 53 \<le> 10 ^ 9 / 2 ^ 53" by (rule divide_right_mono) simp
    with rnd64_error [of "c * rat_of_nat n"] have "\<bar>rnd64 (c * rat_of_nat n) - c * rat_of_nat n\<bar> \<le> 10 ^ 9 / 2 ^ 53"
      by (rule order_trans)
    moreover have "(10 ^ 9 / 2 ^ 53 :: rat) \<le> 1 / 1000" by simp
    ultimately have "c * rat_of_nat n - rnd64 (c * rat_of_nat n) \<le> 1 / 1000" by linarith
    moreover have "rat_of_nat n / 2 ^ 52 \<le> 10 ^ 9 / 2 ^ 52" using n by (intro divide_right_mono) auto
    then have "rat_of_nat n / 2 ^ 52 \<le> 1 / 1000" by simp
    ultimately show ?thesis using lo k(2) by linarith
  qed
  ultimately have "\<lceil>rnd64 (c * rat_of_nat n)\<rceil> = k" by (intro ceiling_unique) simp_all
  then show ?thesis by (simp add: fmul_def fl c_def k_def)
qed

lemma p95_index_rank:
  assumes "0 < n" "n \<le> 10 ^ 9"
  shows "0 \<le> p95_index n" "p95_index n < int n" "95 * int n \<le> 100 * (p95_index n + 1)" "100 * p95_index n < 95 * int n"
proof -
  define k where "k = \<lceil>95 * rat_of_nat n / 100\<rceil>"
  have up: "95 * rat_of_nat n / 100 \<le> of_int k" and lo: "of_int k - 1 < 95 * rat_of_nat n / 100"
    unfolding k_def using ceiling_correct by blast+
  have "rat_of_int (95 * int n) \<le> rat_of_int (100 * k)" using up by simp
  then have a: "95 * int n \<le> 100 * k" by (simp only: of_int_le_iff)
  have "rat_of_int (100 * (k - 1)) < rat_of_int (95 * int n)" using lo by simp
  then have b: "100 * (k - 1) < 95 * int n" by (simp only: of_int_less_iff)
  have "p95_index n = k - 1" using a b assms(1) unfolding p95_index_def ceil_95 [OF assms(2)] k_def [symmetric] Let_def by simp
  then show "0 \<le> p95_index n" "p95_index n < int n" "95 * int n \<le> 100 * (p95_index n + 1)" "100 * p95_index n < 95 * int n"
    using a b assms(1) by simp_all
qed

lemma sorted_rank:
  fixes ts :: "int list"
  assumes "sorted ts" "i < length ts"
  shows "Suc i \<le> length (filter (\<lambda>x. x \<le> ts ! i) ts)" "length (filter (\<lambda>x. x < ts ! i) ts) \<le> i"
proof -
  have "filter (\<lambda>x. x \<le> ts ! i) (take (Suc i) ts) = take (Suc i) ts"
    using assms by (auto simp: filter_id_conv in_set_conv_nth sorted_iff_nth_mono less_Suc_eq_le)
  then have "Suc i \<le> length (filter (\<lambda>x. x \<le> ts ! i) (take (Suc i) ts @ drop (Suc i) ts))"
    unfolding filter_append length_append using assms(2) by simp
  then show "Suc i \<le> length (filter (\<lambda>x. x \<le> ts ! i) ts)" by simp
  have "filter (\<lambda>x. x < ts ! i) (drop i ts) = []"
    using assms by (auto simp: filter_empty_conv in_set_conv_nth sorted_iff_nth_mono not_less)
  moreover have "length (filter (\<lambda>x. x < ts ! i) (take i ts)) \<le> i" by (rule order_trans [OF length_filter_le]) simp
  ultimately have "length (filter (\<lambda>x. x < ts ! i) (take i ts @ drop i ts)) \<le> i" unfolding filter_append length_append by simp
  then show "length (filter (\<lambda>x. x < ts ! i) ts) \<le> i" by simp
qed

text \<open>
  C27: \<^verbatim>\<open>summarizeTimes\<close> reports the nearest-rank 95th percentile, in spite of the float64 arithmetic of its index
  and for every number of durations up to a thousand million: the value is one of the durations, at least 95
  percent of them do not exceed it and fewer than 95 percent lie below it. The index is never out of range.
\<close>

theorem p95_nearest_rank:
  assumes "ds \<noteq> []" "length ds \<le> 10 ^ 9"
  shows "case map_of (summarizeTimes ds) ''p95_ms'' of
      None \<Rightarrow> False
    | Some v \<Rightarrow> v \<in> set ds \<and> 95 * int (length ds) \<le> 100 * int (length (filter (\<lambda>d. d \<le> v) ds)) \<and>
        100 * int (length (filter (\<lambda>d. d < v) ds)) < 95 * int (length ds)"
proof -
  define i v where "i = nat (p95_index (length ds))" and "v = sort ds ! i"
  have n: "0 < length ds" using assms(1) by simp
  note r = p95_index_rank [OF n assms(2)]
  have i: "i < length (sort ds)" "int i = p95_index (length ds)" using r(1,2) by (simp_all add: i_def nat_less_iff)
  have cnt: "length (filter P ds) = length (filter P (sort ds))" for P by (simp add: filter_sort)
  have "v \<in> set ds" using nth_mem [OF i(1)] by (simp add: v_def)
  moreover have "Suc i \<le> length (filter (\<lambda>d. d \<le> v) ds)" "length (filter (\<lambda>d. d < v) ds) \<le> i"
    using sorted_rank [OF sorted_sort i(1)] unfolding cnt v_def by simp_all
  then have "95 * int (length ds) \<le> 100 * int (length (filter (\<lambda>d. d \<le> v) ds))"
    "100 * int (length (filter (\<lambda>d. d < v) ds)) < 95 * int (length ds)" using r(3,4) i(2) by simp_all
  moreover have "map_of (summarizeTimes ds) ''p95_ms'' = Some v"
    using n unfolding summarizeTimes_def v_def i_def Let_def length_sort by simp
  ultimately show ?thesis by simp
qed

theorem p95_nearest_rank_witness:
  "case map_of (summarizeTimes [30, 10, 20]) ''p95_ms'' of None \<Rightarrow> False | Some v \<Rightarrow> v \<in> set [30, 10, 20]"
  using p95_nearest_rank [of "[30, 10, 20]"] by (auto split: option.splits)

subsection \<open>Health\<close>

text \<open>
  The health check and the license gate of the conversion endpoint agree: when the server reports itself
  ready, the license check made on the same reading of clock and disk lets a conversion through; when it
  refuses, the report is not ready and names a license problem. The status is 200 exactly when ready.
\<close>

theorem health_agrees_with_gate:
  assumes "health X r srv = (resp, srv')" "r_sent r = None"
    and "IsExpired (env_oor (o_env X)) (o_xml X) (time_now X srv) (o_disk X (ticks (world srv))) (licenseMgr (license srv)) = (gate, m)"
  shows "\<exists>ready problems snap. r_json resp = Some (JObj snap) \<and> map_of snap ''ready'' = Some (JBool ready) \<and> map_of snap ''problems'' = Some (JStrs problems) \<and>
    map_option fst (r_sent resp) = Some (if ready then 200 else 503) \<and>
    (gate \<noteq> Ok False \<longrightarrow> \<not> ready \<and> set problems \<inter> {''license_path_missing'', ''license_invalid'', ''license_expired''} \<noteq> {}) \<and>
    (gate = Ok False \<longrightarrow> ready = (staticProblems (license srv) = []) \<and> problems = staticProblems (license srv)) \<and>
    licenseMgr (license srv') = m"
proof -
  obtain days m' where d: "license_days X srv = (days, m')" by fastforce
  have gate: "(gate, m) = ((case days of Err e \<Rightarrow> Err e | Ok None \<Rightarrow> Ok False | Ok (Some d) \<Rightarrow> Ok (d < 0)), m')"
    using assms(3) d by (auto simp: IsExpired_def license_days_def split: sum.splits option.splits)
  have p: "health_problems days = [] \<longleftrightarrow> gate = Ok False"
    and q: "gate \<noteq> Ok False \<Longrightarrow> set (health_problems days) \<inter> {''license_path_missing'', ''license_invalid'', ''license_expired''} \<noteq> {}"
    using gate by (auto simp: health_problems_def split: sum.splits option.splits lic_error.splits if_splits)
  show ?thesis using assms(1,2) gate p q
    by (auto simp: health_def health_snapshot_def d writeJSON_def WriteHeader_def set_header_def tick_def set_mgr_def Let_def)
qed

text \<open>A server with a permanent license and one worker slot per default, used for the examples.\<close>

definition demo_outside :: Outside where
  "demo_outside =
     \<lparr>o_env = demo_env (\<lambda>a b. True) 6 Map.empty, o_disk = (\<lambda>_. \<lparr>stat_mtime = Some 1, open_content = Ok ''lic''\<rparr>), o_xml = (\<lambda>_. []),
      o_aws = \<lparr>aws_config = (\<lambda>_. None), aws_get = (\<lambda>_ _ _. Err (''NoSuchKey'', '''')), aws_put = (\<lambda>_ _ _ _. Some ''timeout''), aws_presign = (\<lambda>_ _ _ _. Ok ''u'')\<rparr>,
      o_quote = id, o_json = (\<lambda>_. None), o_pages = (\<lambda>_. Ok (Some 1)), o_soffice = (\<lambda>_ st. (Exited 0 '''' '''', st)), o_installed = True, o_glob = (\<lambda>_. []),
      o_http = \<lparr>bad_url = (\<lambda>_. None), http_Do = (\<lambda>_ _. Ok (200, ''%PDF-1.7'', None))\<rparr>, o_zip = (\<lambda>_. Err ''''), o_random = (\<lambda>_. ''0123456789abcdef''), o_tmp = ''/tmp''\<rparr>"

definition demo_server :: "fs \<Rightarrow> Server" where
  "demo_server st =
     \<lparr>settings = demo_settings\<lparr>MaxJobs := 1, ScratchDir := ''/data/scratch'', RateLimitEnabled := False\<rparr>,
      license = \<lparr>licenseMgr = license_NewManager, staticProblems = []\<rparr>, srv_cache = \<lparr>cache_dir = '''', asposeVersion = ''v''\<rparr>,
      recent = NewRecentStore DefaultMaxRecent, rl = None, sem = 0, activeJobs = 0, dashHTML = '''', landHTML = '''',
      world = demo_world\<lparr>fsys := st\<rparr>, calls = []\<rparr>"

lemma demo_license: "IsExpired oor (o_xml demo_outside) now (o_disk demo_outside i) license_NewManager = (Ok False, \<lparr>lm_read = True, modTime = 1, expiry = None\<rparr>)"
  by (simp add: IsExpired_def DaysRemaining_def ExpiryDate_def parseExpiry_def demo_outside_def license_NewManager_def)

theorem health_agrees_with_gate_witness:
  "\<exists>snap. r_json (fst (health demo_outside (new_response None) (demo_server Map.empty))) = Some (JObj snap) \<and> map_of snap ''ready'' = Some (JBool True)"
proof -
  obtain resp srv' where h: "health demo_outside (new_response None) (demo_server Map.empty) = (resp, srv')" by fastforce
  have lic: "licenseMgr (license (demo_server Map.empty)) = license_NewManager" "staticProblems (license (demo_server Map.empty)) = []"
    by (simp_all add: demo_server_def)
  have "r_sent (new_response None) = None" by (simp add: new_response_def)
  from health_agrees_with_gate [OF h this] lic h show ?thesis unfolding lic(1) demo_license by fastforce
qed

end
