(* ===== verification/Convert.thy ===== *)
theory Convert
  imports Server
begin

text \<open>
  \<^verbatim>\<open>internal/server/convert.go\<close>: the conversion endpoint. The handler is admitted (rate limit, then a slot of the
  semaphore), runs and gives the slot back; \<open>convert_body\<close> is the part between. Its stages follow the code: the
  license gate, the choice of the input source, the output target, the scratch directory, the input with its
  normalisation and detection, and the route to a producer. \<open>finishStream\<close> runs the producer, answers and
  records. A handler that never returns is \<open>None\<close>. The producer's bytes reach the client through the writer of
  \<open>Http\<close>; the temporary copy for S3, once created, takes every byte the client takes.
\<close>

section \<open>Definitions\<close>

subsection \<open>Admission\<close>

definition rate_headers :: "Decision \<Rightarrow> headers" where
  "rate_headers dec =
     [''X-RateLimit-Limit'' \<mapsto> itoa (Limit dec), ''X-RateLimit-Remaining'' \<mapsto> itoa (Remaining dec),
      ''X-RateLimit-Reset'' \<mapsto> itoa (ResetEpochSeconds dec)]"

definition rate_limit :: "Outside \<Rightarrow> Request \<Rightarrow> Server \<Rightarrow> (Error, headers) result \<times> Server" where
  "rate_limit X q srv =
     (case rl srv of
        None \<Rightarrow> (Ok Map.empty, srv)
      | Some l \<Rightarrow>
          (let cid = ClientIDFor (q_xff q) (q_addr q) (RateLimitTrustXFF (settings srv));
               (dec, l') = Check (env_oor (o_env X)) (time_now X srv) (time_now X srv) cid l;
               srv' = tick (srv\<lparr>rl := Some l'\<rparr>)
           in if Allowed dec then (Ok (rate_headers dec), srv')
              else (Err (NewRateLimited (RetryAfterSeconds dec) (Limit dec)), srv')))"

definition acquire :: "Server \<Rightarrow> Server option" where
  "acquire srv =
     (if int (sem srv) < MaxJobs (settings srv) then Some (srv\<lparr>sem := sem srv + 1, activeJobs := activeJobs srv + 1\<rparr>) else None)"

definition release :: "Server \<Rightarrow> Server" where
  "release srv = srv\<lparr>sem := sem srv - 1, activeJobs := activeJobs srv - 1\<rparr>"

definition admit :: "Outside \<Rightarrow> Request \<Rightarrow> Server \<Rightarrow> (Error, headers) result \<times> Server" where
  "admit X q srv =
     (case rate_limit X q srv of
        (Err e, srv1) \<Rightarrow> (Err e, srv1)
      | (Ok h, srv1) \<Rightarrow> (case acquire srv1 of None \<Rightarrow> (Err (NewBusy 60), srv1) | Some srv2 \<Rightarrow> (Ok h, srv2)))"

subsection \<open>Finishing a stream\<close>

type_synonym producer = "Writer \<Rightarrow> World \<Rightarrow> (go_error option \<times> Writer \<times> World) option"

definition with_world :: "(World \<Rightarrow> World) \<Rightarrow> Server \<Rightarrow> Server" where
  "with_world f srv = srv\<lparr>world := f (world srv)\<rparr>"

definition cleanup :: "string \<Rightarrow> Server \<Rightarrow> Server" where
  "cleanup scratchDir srv = set_fs (os_RemoveAll scratchDir (files srv)) srv"

definition s3out_name :: "Outside \<Rightarrow> Server \<Rightarrow> string" where
  "s3out_name X srv = path_join [o_tmp X, ''s3out-'' @ env_rnd (o_env X) (ticks (world srv)) @ ''.pdf'']"

text \<open>The temporary copy: its path, when the output goes to S3 and the file could be created.\<close>

definition open_s3tmp :: "Outside \<Rightarrow> dispatchInfo \<Rightarrow> Server \<Rightarrow> string option \<times> Server" where
  "open_s3tmp X di srv =
     (if di_s3Out di = None then (None, srv)
      else (case run_io (os_Create (env_os (o_env X)) (s3out_name X srv)) (files srv) of
              (Some e, st) \<Rightarrow> (None, tick srv)
            | (None, st) \<Rightarrow> (Some (s3out_name X srv), tick (set_fs st srv))))"

definition remove_file :: "Outside \<Rightarrow> string \<Rightarrow> Server \<Rightarrow> Server" where
  "remove_file X p srv = set_fs (snd (run_io (os_Remove (env_os (o_env X)) p) (files srv))) srv"

definition upload_output :: "Outside \<Rightarrow> dispatchInfo \<Rightarrow> string \<Rightarrow> Server \<Rightarrow> Server" where
  "upload_output X di tmp srv =
     (let (b, k) = the (di_s3Out di);
          (err, cs) = UploadFile (o_aws X) (env_vars (o_env X)) (env_os (o_env X)) tmp b k (settings srv) (files srv)
      in remove_file X tmp (srv\<lparr>calls := calls srv @ cs\<rparr>))"

definition finishStream ::
  "Outside \<Rightarrow> streamWriter \<Rightarrow> dispatchInfo \<Rightarrow> string \<Rightarrow> producer \<Rightarrow> Server \<Rightarrow> (Response \<times> Server) option" where
  "finishStream X sw di scratchDir produce srv =
     (let (s3tmp, srv1) = open_s3tmp X di srv
      in case produce (r_conn (sw_w sw)) (world srv1) of
           None \<Rightarrow> None
         | Some (err, dst, w) \<Rightarrow>
             (let sw' = sw_after dst sw;
                  copy = (case s3tmp of None \<Rightarrow> fsys w | Some p \<Rightarrow> (fsys w)(p \<mapsto> written dst));
                  srv2 = srv1\<lparr>world := w\<lparr>fsys := copy\<rparr>\<rparr>
              in case err of
                   Some e \<Rightarrow>
                     (let srv3 = (case s3tmp of None \<Rightarrow> srv2 | Some p \<Rightarrow> remove_file X p srv2)
                      in if sw_wrote sw'
                         then Some (sw_w sw', cleanup scratchDir (recordConversion X di ''failed'' (errCode e) (sw_n sw') srv3))
                         else (let (r, srv4) = respond_error X (di_rid di) e (sw_w sw') (recordConversion X di ''failed'' (errCode e) 0 srv3)
                               in Some (r, cleanup scratchDir srv4)))
                 | None \<Rightarrow>
                     (let srv3 = (case s3tmp of None \<Rightarrow> srv2 | Some p \<Rightarrow> upload_output X di p srv2)
                      in Some (sw_w sw', cleanup scratchDir (recordConversion X di ''success'' '''' (sw_n sw') srv3)))))"

subsection \<open>The stages\<close>

definition license_gate :: "Outside \<Rightarrow> Server \<Rightarrow> Error option \<times> Server" where
  "license_gate X srv =
     (case IsExpired (env_oor (o_env X)) (o_xml X) (time_now X srv) (o_disk X (ticks (world srv))) (licenseMgr (license srv)) of
        (Err e, m) \<Rightarrow> (Some (NewLicenseExpired ''''), tick (set_mgr m srv))
      | (Ok False, m) \<Rightarrow> (None, tick (set_mgr m srv))
      | (Ok True, m) \<Rightarrow>
          (let srv1 = tick (set_mgr m srv); (d, m') = ExpiryDate (o_xml X) (o_disk X (ticks (world srv1))) m
           in (Some (NewLicenseExpired (case d of Ok (Some date) \<Rightarrow> format_date date | _ \<Rightarrow> '''')), set_mgr m' srv1)))"

definition quoted :: "string \<Rightarrow> string" where "quoted s = CHR 0x27 # s @ [CHR 0x27]"

definition source_conflict :: "Settings \<Rightarrow> bool \<Rightarrow> string \<Rightarrow> string \<Rightarrow> Error option" where
  "source_conflict s hasFile s3in s3out =
     (if (s3in \<noteq> '''' \<or> s3out \<noteq> '''') \<and> \<not> S3Enabled s then Some NewS3Disabled
      else if hasFile \<and> s3in \<noteq> '''' then Some NewInputSourceConflict
      else if \<not> hasFile \<and> s3in = '''' then Some (NewMissingFile (''provide exactly one input source: '' @ quoted ''file'' @ '' or '' @ quoted ''s3_input''))
      else None)"

definition output_target :: "Outside \<Rightarrow> string \<Rightarrow> string \<Rightarrow> Settings \<Rightarrow> (go_error, (string \<times> string) option) result" where
  "output_target X s3out rid s =
     (if s3out = '''' then Ok None
      else case ResolveOutputTarget (o_quote X) s3out rid s of
        Err e \<Rightarrow> Err e
      | Ok (bucket, key) \<Rightarrow>
          if IsOutputBucketAllowed bucket s then Ok (Some (bucket, key)) else Err (OError (NewS3OutputForbidden bucket)))"

text \<open>The input file: its size and the name it came under.\<close>

definition acquire_input ::
  "Outside \<Rightarrow> Request \<Rightarrow> string \<Rightarrow> string \<Rightarrow> Server \<Rightarrow> (go_error, int \<times> string) result \<times> Server" where
  "acquire_input X q s3in inputTmp srv =
     (let s = settings srv; os = env_os (o_env X)
      in case (if s3in \<noteq> ''''
               then (case DownloadToPath (o_aws X) (env_vars (o_env X)) os (o_quote X) (env_sha (o_env X)) s3in inputTmp s (files srv) of
                       (Err e, cs, st) \<Rightarrow> (Err e, set_fs st (srv\<lparr>calls := calls srv @ cs\<rparr>))
                     | (Ok sha, cs, st) \<Rightarrow>
                         (let srv1 = set_fs st (srv\<lparr>calls := calls srv @ cs\<rparr>); len = fileSize inputTmp st
                          in (if len > MaxInputBytes s then Err (OError (NewInputTooLarge len (MaxInputBytes s)))
                              else Ok (len, case ParseURL (o_quote X) s3in of Ok (b, key) \<Rightarrow> basename key | Err e \<Rightarrow> ''''), srv1)))
               else (case q_file q of
                       None \<Rightarrow> (Err (Panic ''nil pointer dereference''), srv)
                     | Some (name, sz, up) \<Rightarrow>
                         (case streamUploadToFile os up inputTmp (MaxInputBytes s) (files srv) of
                            ((n, Some e), st) \<Rightarrow> (Err e, set_fs st srv)
                          | ((n, None), st) \<Rightarrow> (Ok (n, name), set_fs st srv))))
         of (Err e, srv1) \<Rightarrow> (Err e, srv1)
          | (Ok (len, name), srv1) \<Rightarrow> (if len = 0 then Err (OError (NewMissingFile ''file is empty'')) else Ok (len, name), srv1))"

definition os_WriteFile :: "os_faults \<Rightarrow> string \<Rightarrow> string \<Rightarrow> fs \<Rightarrow> fs" where
  "os_WriteFile os p c st = (case run_io (os_Create os p) st of (Some e, st1) \<Rightarrow> st1 | (None, st1) \<Rightarrow> snd (run_io (io_Copy os p c) st1))"

definition normalise_csv :: "Outside \<Rightarrow> string \<Rightarrow> string \<Rightarrow> int \<Rightarrow> Server \<Rightarrow> (go_error, int) result \<times> Server" where
  "normalise_csv X name inputTmp len srv =
     (if \<not> IsCSVFilename name then (Ok len, srv)
      else case fst (run_io (os_Open (env_os (o_env X)) inputTmp) (files srv)) of
        Err e \<Rightarrow> (Ok len, srv)
      | Ok csv \<Rightarrow>
          (case CSVBytesToXLSXBytes (o_zip X) csv of
             Err e \<Rightarrow> (Ok len, srv)
           | Ok xlsx \<Rightarrow>
               if int (length xlsx) > MaxInputBytes (settings srv)
               then (Err (OError (NewInputTooLarge (int (length xlsx)) (MaxInputBytes (settings srv)))), srv)
               else (Ok (int (length xlsx)), set_fs (os_WriteFile (env_os (o_env X)) inputTmp xlsx (files srv)) srv)))"

definition libreofficeFormats :: "string list" where
  "libreofficeFormats = [''odg'', ''png'', ''jpg'', ''tiff'', ''gif'', ''bmp'', ''webp'', ''svg'']"

definition extHintFormats :: "string list" where
  "extHintFormats = [''odt'', ''ods'', ''odp'', ''odg'', ''rtf'', ''jpg'', ''jpeg'', ''tif'', ''tiff'', ''html'', ''htm'']"

definition input_suffix :: "string \<Rightarrow> string \<Rightarrow> string" where
  "input_suffix fmt name = (if contains name ''.'' \<and> extOf name \<in> set extHintFormats then extOf name else fmt)"

text \<open>Detection and the final name of the input: the format and the path.\<close>

definition place_input :: "Outside \<Rightarrow> string \<Rightarrow> string \<Rightarrow> string \<Rightarrow> int \<Rightarrow> Server \<Rightarrow> (go_error, string \<times> string) result \<times> Server" where
  "place_input X scratchDir inputTmp name len srv =
     (let os = env_os (o_env X);
          head = (case readHead os inputTmp (minI64 len 512) (files srv) of Ok h \<Rightarrow> h | Err e \<Rightarrow> '''')
      in case DetectFormat (unzip (env_readers (o_env X))) os head inputTmp name (files srv) of
           Err e \<Rightarrow> (Err e, srv)
         | Ok fmt \<Rightarrow>
             (let inputPath = scratchDir @ ''/input.'' @ input_suffix fmt name
              in case run_io (os_Rename os inputTmp inputPath) (files srv) of
                   (Some e, st) \<Rightarrow> (Err (OError (NewRender None (-1) (''rename input: '' @ e))), set_fs st srv)
                 | (None, st) \<Rightarrow> (Ok (fmt, inputPath), set_fs st srv)))"

definition prepare_input ::
  "Outside \<Rightarrow> Request \<Rightarrow> string \<Rightarrow> string \<Rightarrow> Server \<Rightarrow> (go_error, string \<times> string \<times> string) result \<times> Server" where
  "prepare_input X q s3in scratchDir srv =
     (let inputTmp = scratchDir @ ''/input.tmp''
      in case acquire_input X q s3in inputTmp srv of
           (Err e, srv1) \<Rightarrow> (Err e, srv1)
         | (Ok (len, name), srv1) \<Rightarrow>
             (case normalise_csv X name inputTmp len srv1 of
                (Err e, srv2) \<Rightarrow> (Err e, srv2)
              | (Ok len', srv2) \<Rightarrow>
                  (case place_input X scratchDir inputTmp name len' srv2 of
                     (Err e, srv3) \<Rightarrow> (Err e, srv3)
                   | (Ok (fmt, inputPath), srv3) \<Rightarrow> (Ok (fmt, inputPath, name), srv3))))"

subsection \<open>The handler\<close>

definition has_file :: "Request \<Rightarrow> bool" where
  "has_file q = (case q_file q of Some (name, len, up) \<Rightarrow> name \<noteq> '''' \<or> len > 0 | None \<Rightarrow> False)"

definition pdf_stream :: "headers \<Rightarrow> (string \<times> string) option \<Rightarrow> Response \<Rightarrow> streamWriter" where
  "pdf_stream rateHeaders s3 r =
     new_stream ([''Content-Type'' \<mapsto> ''application/pdf''] ++ rateHeaders ++
       (case s3 of Some (b, k) \<Rightarrow> [''X-S3-Output-Bucket'' \<mapsto> b, ''X-S3-Output-Key'' \<mapsto> k] | None \<Rightarrow> Map.empty)) r"

definition copy_producer :: "Outside \<Rightarrow> string \<Rightarrow> producer" where
  "copy_producer X pdfPath dst w =
     (let (e, dst') = copyPDF (env_os (o_env X)) (env_write_error (o_env X)) pdfPath dst (fsys w) in Some (e, dst', w))"

definition job_producer :: "Outside \<Rightarrow> dispatchInfo \<Rightarrow> string \<Rightarrow> ConversionOptions \<Rightarrow> string \<Rightarrow> Server \<Rightarrow> producer" where
  "job_producer X di inputPath opts scratchDir srv dst w =
     (case ConvertJob (o_env X) (di_rid di) inputPath (di_format di) opts (settings srv) (srv_cache srv) scratchDir dst w of
        None \<Rightarrow> None
      | Some (res, dst', w') \<Rightarrow> Some (case res of Err e \<Rightarrow> Some e | Ok _ \<Rightarrow> None, dst', w'))"

definition fail_recorded :: "Outside \<Rightarrow> dispatchInfo \<Rightarrow> string \<Rightarrow> go_error \<Rightarrow> Response \<Rightarrow> Server \<Rightarrow> Response \<times> Server" where
  "fail_recorded X di scratchDir e r srv =
     respond_error X (di_rid di) e r (recordConversion X di ''failed'' (errCode e) 0 (cleanup scratchDir srv))"

text \<open>A converter that writes a file and the copy of that file to the client.\<close>

definition via_converter ::
  "Outside \<Rightarrow> dispatchInfo \<Rightarrow> string \<Rightarrow> streamWriter \<Rightarrow> (fs \<Rightarrow> (go_error, string) result \<times> fs) \<Rightarrow> Server \<Rightarrow> (Response \<times> Server) option" where
  "via_converter X di scratchDir sw conv srv =
     (case conv (files srv) of
        (Err e, st) \<Rightarrow> Some (fail_recorded X di scratchDir e (sw_w sw) (set_fs st srv))
      | (Ok pdfPath, st) \<Rightarrow> finishStream X sw di scratchDir (copy_producer X pdfPath) (set_fs st srv))"

definition convert_route ::
  "Outside \<Rightarrow> dispatchInfo \<Rightarrow> string \<Rightarrow> string \<Rightarrow> ConversionOptions \<Rightarrow> streamWriter \<Rightarrow> Server \<Rightarrow> (Response \<times> Server) option" where
  "convert_route X di scratchDir inputPath opts sw srv =
     (let fmt = di_format di; os = env_os (o_env X)
      in if fmt \<in> set libreofficeFormats
         then via_converter X di scratchDir sw
                (libreoffice_ConvertToPDF (o_installed X) (o_glob X) os (o_soffice X) inputPath (scratchDir @ ''/lo_out'')) srv
         else if fmt = ''eml''
         then via_converter X di scratchDir sw
                (email_ConvertToPDF (o_pages X) os (env_exec (o_env X)) (settings srv) inputPath (scratchDir @ ''/email_out'')) srv
         else if fmt = ''html''
         then Some (fail_recorded X di scratchDir
                (OError (NewUnsupportedFormat ''html'' AcceptedUploadFormats ''use /v1/convert/html/gotenberg or /v1/convert/html/aspose for HTML inputs''))
                (sw_w sw) srv)
         else finishStream X sw di scratchDir (job_producer X di inputPath opts scratchDir srv) srv)"

definition convert_body :: "Outside \<Rightarrow> Request \<Rightarrow> string \<Rightarrow> int \<Rightarrow> headers \<Rightarrow> Response \<Rightarrow> Server \<Rightarrow> (Response \<times> Server) option" where
  "convert_body X q rid t0 rateHeaders r srv =
     (let s = settings srv; s3in = trim_space (FormValue q ''s3_input''); s3out = trim_space (FormValue q ''s3_output'');
          raw = FormValue q ''options''; opts = parseOptions (o_json X) (if raw = '''' then ''{}'' else raw);
          scratchDir = joinScratch (ScratchDir s) rid
      in case license_gate X srv of
           (Some e, srv1) \<Rightarrow> Some (respond_error X rid (OError e) r srv1)
         | (None, srv1) \<Rightarrow>
             (case source_conflict s (has_file q) s3in s3out of
                Some e \<Rightarrow> Some (respond_error X rid (OError e) r srv1)
              | None \<Rightarrow>
                  (case output_target X s3out rid s of
                     Err e \<Rightarrow> Some (respond_error X rid e r srv1)
                   | Ok s3 \<Rightarrow>
                       (case mkdir_err (env_os (o_env X)) scratchDir of
                          Some e \<Rightarrow> Some (respond_error X rid (OError (NewRender None (-1) (''scratch mkdir: '' @ e))) r srv1)
                        | None \<Rightarrow>
                            (case prepare_input X q s3in scratchDir srv1 of
                               (Err e, srv2) \<Rightarrow> Some (respond_error X rid e r (cleanup scratchDir srv2))
                             | (Ok (fmt, inputPath, name), srv2) \<Rightarrow>
                                 convert_route X
                                   \<lparr>di_rid = rid, di_t0 = t0, di_source = (if s3in \<noteq> '''' then ''cross'' else ''ui''), di_inputFilename = name,
                                    di_format = fmt, di_engine = '''', di_s3Out = s3\<rparr>
                                   scratchDir inputPath opts (pdf_stream rateHeaders s3 r) srv2)))))"

definition convert :: "Outside \<Rightarrow> Request \<Rightarrow> Server \<Rightarrow> (Response \<times> Server) option" where
  "convert X q srv0 =
     (let (rid, r, srv) = requestIDMiddleware X q srv0
      in case admit X q (tick srv) of
           (Err e, srv1) \<Rightarrow> Some (respond_error X rid (OError e) r srv1)
         | (Ok h, srv1) \<Rightarrow>
             (case convert_body X q rid (time_now X srv) h r srv1 of None \<Rightarrow> None | Some (r', srv2) \<Rightarrow> Some (r', release srv2)))"

end
