(* ===== verification/ConvertHtml.thy ===== *)
theory ConvertHtml
  imports Convert
begin

text \<open>
  \<^verbatim>\<open>internal/server/convert_html.go\<close>: the two HTML endpoints. They share admission, scratch directory, upload and
  \<open>finishStream\<close> with the conversion endpoint and differ in the engine that renders the page.
\<close>

section \<open>Definitions\<close>

definition html_license_gate :: "Outside \<Rightarrow> string \<Rightarrow> Server \<Rightarrow> Error option \<times> Server" where
  "html_license_gate X engine srv =
     (if engine \<noteq> ''aspose'' then (None, srv)
      else case IsExpired (env_oor (o_env X)) (o_xml X) (time_now X srv) (o_disk X (ticks (world srv))) (licenseMgr (license srv)) of
        (Ok False, m) \<Rightarrow> (None, tick (set_mgr m srv))
      | (_, m) \<Rightarrow>
          (let srv1 = tick (set_mgr m srv); (d, m') = ExpiryDate (o_xml X) (o_disk X (ticks (world srv1))) m
           in (Some (NewLicenseExpired (case d of Ok (Some date) \<Rightarrow> format_date date | _ \<Rightarrow> '''')), set_mgr m' srv1)))"

definition html_producer :: "Outside \<Rightarrow> string \<Rightarrow> Settings \<Rightarrow> WaitOptions \<Rightarrow> string \<Rightarrow> string \<Rightarrow> producer" where
  "html_producer X engine s opts inputPath outPath dst w =
     (let os = env_os (o_env X);
          (rerr, st) =
            (if engine = ''gotenberg'' then ConvertHTML (o_http X) os (gotenberg_New (GotenbergURL s)) inputPath opts outPath (fsys w)
             else (case RenderHTMLOneShot (env_exec (o_env X)) s inputPath outPath (fsys w) of
                     (Some e, st) \<Rightarrow> (Some e, st)
                   | (None, st) \<Rightarrow> (validatePDFMagic os outPath st, st)));
          w' = w\<lparr>fsys := st\<rparr>
      in case rerr of Some e \<Rightarrow> Some (Some e, dst, w') | None \<Rightarrow> copy_producer X outPath dst w')"

text \<open>The upload of a page: an error, or the file is in place.\<close>

definition html_input :: "Outside \<Rightarrow> string \<Rightarrow> upload \<Rightarrow> string \<Rightarrow> Server \<Rightarrow> go_error option \<times> Server" where
  "html_input X name up inputPath srv =
     (let os = env_os (o_env X)
      in case streamUploadToFile os up inputPath (HTMLMaxBytes (settings srv)) (files srv) of
           ((len, Some e), st) \<Rightarrow> (Some e, set_fs st srv)
         | ((len, None), st) \<Rightarrow>
             (let head = (case readHead os inputPath (minI64 len 1024) st of Ok h \<Rightarrow> h | Err e \<Rightarrow> '''')
              in (if len = 0 then Some (OError (NewMissingFile ''file is empty''))
                  else if \<not> IsHTMLUpload head name
                  then Some (OError (NewInputUnprocessable
                         ''input is not HTML (expected <!doctype html>/<html> content or a .html/.htm file)''))
                  else None, set_fs st srv)))"

definition convertHTML_body ::
  "Outside \<Rightarrow> Request \<Rightarrow> string \<Rightarrow> string \<Rightarrow> int \<Rightarrow> headers \<Rightarrow> Response \<Rightarrow> Server \<Rightarrow> (Response \<times> Server) option" where
  "convertHTML_body X q engine rid t0 rateHeaders r srv =
     (case parseWaitOptions (FormValue q) engine of
        Err e \<Rightarrow> Some (respond_error X rid (OError e) r srv)
      | Ok waitOpts \<Rightarrow>
          (case html_license_gate X engine srv of
             (Some e, srv1) \<Rightarrow> Some (respond_error X rid (OError e) r srv1)
           | (None, srv1) \<Rightarrow>
               if \<not> has_file q
               then Some (respond_error X rid (OError (NewMissingFile (''provide an HTML upload in the '' @ quoted ''file'' @ '' field''))) r srv1)
               else
                 (let (name, len, up) = the (q_file q); s = settings srv;
                      scratchDir = joinScratch (ScratchDir s) rid; inputPath = scratchDir @ ''/input.html'';
                      di = \<lparr>di_rid = rid, di_t0 = t0, di_source = ''ui'', di_inputFilename = name, di_format = ''html'', di_engine = engine, di_s3Out = None\<rparr>
                  in case mkdir_err (env_os (o_env X)) scratchDir of
                       Some e \<Rightarrow> Some (respond_error X rid (OError (NewRender None (-1) (''scratch mkdir: '' @ e))) r srv1)
                     | None \<Rightarrow>
                         (case html_input X name up inputPath srv1 of
                            (Some e, srv2) \<Rightarrow> Some (respond_error X rid e r (cleanup scratchDir srv2))
                          | (None, srv2) \<Rightarrow>
                              finishStream X (pdf_stream rateHeaders None r) di scratchDir
                                (html_producer X engine s waitOpts inputPath (scratchDir @ ''/output.pdf'')) srv2))))"

definition convertHTML :: "Outside \<Rightarrow> Request \<Rightarrow> string \<Rightarrow> Server \<Rightarrow> (Response \<times> Server) option" where
  "convertHTML X q engine srv0 =
     (let (rid, r, srv) = requestIDMiddleware X q srv0
      in case admit X q (tick srv) of
           (Err e, srv1) \<Rightarrow> Some (respond_error X rid (OError e) r srv1)
         | (Ok h, srv1) \<Rightarrow>
             (case convertHTML_body X q engine rid (time_now X srv) h r srv1 of None \<Rightarrow> None | Some (r', srv2) \<Rightarrow> Some (r', release srv2)))"

definition convertHTMLGotenberg :: "Outside \<Rightarrow> Request \<Rightarrow> Server \<Rightarrow> (Response \<times> Server) option" where
  "convertHTMLGotenberg X q srv = convertHTML X q ''gotenberg'' srv"

definition convertHTMLAspose :: "Outside \<Rightarrow> Request \<Rightarrow> Server \<Rightarrow> (Response \<times> Server) option" where
  "convertHTMLAspose X q srv = convertHTML X q ''aspose'' srv"

end
