(* ===== verification/Serving.thy ===== *)
theory Serving
  imports ConvertHtml
begin

text \<open>
  What the handlers of \<open>Convert\<close> and \<open>ConvertHtml\<close> guarantee: the slots of the semaphore under every interleaving of
  requests (the step relation \<open>srv_step\<close>), the answer and the record of a stream, the scratch directory, and what a
  request id chosen by the client does to it.
\<close>

section \<open>What a handler leaves alone\<close>

named_theorems frame_simps

text \<open>The slots, the settings and the rate limiter belong to admission; the rest of a handler does not touch them.\<close>

definition slots_of :: "Server \<Rightarrow> nat \<times> int \<times> Settings \<times> Limiter option" where
  "slots_of srv = (sem srv, activeJobs srv, settings srv, rl srv)"

lemma frame_basic [frame_simps]:
  "slots_of (tick srv) = slots_of srv" "slots_of (set_fs st srv) = slots_of srv" "slots_of (set_mgr m srv) = slots_of srv"
  "slots_of (cleanup d srv) = slots_of srv" "slots_of (remove_file X p srv) = slots_of srv"
  "slots_of (recordConversion X di state c n srv) = slots_of srv" "slots_of (srv\<lparr>calls := cs\<rparr>) = slots_of srv"
  "slots_of (srv\<lparr>world := w\<rparr>) = slots_of srv"
  by (simp_all add: slots_of_def tick_def set_fs_def set_mgr_def cleanup_def remove_file_def recordConversion_def Let_def)

lemma frame_respond [frame_simps]: "respond_error X rid e r srv = (r', srv') \<Longrightarrow> slots_of srv' = slots_of srv"
  by (auto simp: respond_error_def frame_simps)

lemma frame_upload_output [frame_simps]: "slots_of (upload_output X di p srv) = slots_of srv"
  by (auto simp: upload_output_def frame_simps split: prod.split)

lemma frame_open_s3tmp: "open_s3tmp X di srv = (t, srv') \<Longrightarrow> slots_of srv' = slots_of srv"
  by (auto simp: open_s3tmp_def frame_simps split: if_splits prod.splits option.splits)

lemma frame_finishStream:
  assumes "finishStream X sw di dir produce srv = Some (r', srv')"
  shows "slots_of srv' = slots_of srv"
proof -
  obtain t srv1 where o: "open_s3tmp X di srv = (t, srv1)" by fastforce
  obtain err dst w where p: "produce (r_conn (sw_w sw)) (world srv1) = Some (err, dst, w)"
    using assms by (auto simp: finishStream_def o split: option.splits)
  have "slots_of srv' = slots_of srv1"
    using assms by (cases err; cases t) (auto simp: finishStream_def o p Let_def respond_error_def frame_simps split: if_splits)
  with frame_open_s3tmp [OF o] show ?thesis by simp
qed

lemma frame_license: "license_gate X srv = (e, srv') \<Longrightarrow> slots_of srv' = slots_of srv"
  "html_license_gate X engine srv = (e, srv') \<Longrightarrow> slots_of srv' = slots_of srv"
  by (auto simp: license_gate_def html_license_gate_def Let_def frame_simps split: if_splits prod.splits sum.splits bool.splits)

lemma frame_acquire_input: "acquire_input X q s3in tmp srv = (e, srv') \<Longrightarrow> slots_of srv' = slots_of srv"
  by (auto simp: acquire_input_def Let_def frame_simps split: if_splits prod.splits sum.splits option.splits)

lemma frame_normalise_csv: "normalise_csv X name tmp n srv = (e, srv') \<Longrightarrow> slots_of srv' = slots_of srv"
  by (auto simp: normalise_csv_def Let_def frame_simps split: if_splits sum.splits)

lemma frame_place_input: "place_input X dir tmp name n srv = (e, srv') \<Longrightarrow> slots_of srv' = slots_of srv"
  by (auto simp: place_input_def Let_def frame_simps split: prod.splits sum.splits option.splits)

lemma frame_prepare_input: "prepare_input X q s3in dir srv = (e, srv') \<Longrightarrow> slots_of srv' = slots_of srv"
  by (auto simp: prepare_input_def Let_def dest!: frame_acquire_input frame_normalise_csv frame_place_input split: prod.splits sum.splits)

lemma frame_html_input: "html_input X name up p srv = (e, srv') \<Longrightarrow> slots_of srv' = slots_of srv"
  by (auto simp: html_input_def Let_def frame_simps split: prod.splits option.splits)

lemma frame_via_converter: "via_converter X di dir sw conv srv = Some (r', srv') \<Longrightarrow> slots_of srv' = slots_of srv"
  by (auto simp: via_converter_def fail_recorded_def respond_error_def frame_simps dest!: frame_finishStream split: prod.splits sum.splits)

lemma frame_convert_route: "convert_route X di dir p opts sw srv = Some (r', srv') \<Longrightarrow> slots_of srv' = slots_of srv"
  by (auto simp: convert_route_def Let_def fail_recorded_def respond_error_def frame_simps
      dest!: frame_via_converter frame_finishStream split: if_splits)

lemma frame_convert_body:
  assumes "convert_body X q rid t0 h r srv = Some (r', srv')"
  shows "slots_of srv' = slots_of srv"
  using assms unfolding convert_body_def Let_def
  by (auto simp: respond_error_def frame_simps dest!: frame_license(1) frame_prepare_input frame_convert_route
      split: prod.splits option.splits sum.splits)

lemma frame_convertHTML_body:
  assumes "convertHTML_body X q engine rid t0 h r srv = Some (r', srv')"
  shows "slots_of srv' = slots_of srv"
  using assms unfolding convertHTML_body_def Let_def
  by (auto simp: respond_error_def frame_simps dest!: frame_license(2) frame_html_input frame_finishStream
      split: prod.splits option.splits sum.splits if_splits)

section \<open>Slots\<close>

text \<open>
  Requests of the three conversion endpoints in any interleaving. \<open>js\<close> holds the admitted requests whose handler
  has not returned; a handler whose body never returns stays there. The other endpoints and the passing of time
  change anything but what \<open>slots_of\<close> shows.
\<close>

datatype endpoint = Office | HtmlEngine string

type_synonym running = "endpoint \<times> Request \<times> string \<times> int \<times> headers \<times> Response"

fun body :: "Outside \<Rightarrow> running \<Rightarrow> Server \<Rightarrow> (Response \<times> Server) option" where
  "body X (Office, q, rid, t0, h, r) srv = convert_body X q rid t0 h r srv"
| "body X (HtmlEngine engine, q, rid, t0, h, r) srv = convertHTML_body X q engine rid t0 h r srv"

inductive srv_step :: "Outside \<Rightarrow> Server \<times> running list \<Rightarrow> Server \<times> running list \<Rightarrow> bool" for X where
  Refuse: "requestIDMiddleware X q srv = (rid, r, srv1) \<Longrightarrow> admit X q (tick srv1) = (Err e, srv2) \<Longrightarrow>
    srv_step X (srv, js) (snd (respond_error X rid (OError e) r srv2), js)"
| Begin: "requestIDMiddleware X q srv = (rid, r, srv1) \<Longrightarrow> admit X q (tick srv1) = (Ok h, srv2) \<Longrightarrow>
    srv_step X (srv, js) (srv2, (ep, q, rid, time_now X srv1, h, r) # js)"
| End: "j \<in> set js \<Longrightarrow> body X j srv = Some (r, srv') \<Longrightarrow> srv_step X (srv, js) (release srv', remove1 j js)"
| Other: "slots_of srv' = slots_of srv \<Longrightarrow> srv_step X (srv, js) (srv', js)"

inductive_cases srv_stepE: "srv_step X (srv, js) (srv', js')"

definition slots_inv :: "Settings \<Rightarrow> Server \<times> running list \<Rightarrow> bool" where
  "slots_inv s = (\<lambda>(srv, js). settings srv = s \<and> sem srv = length js \<and> activeJobs srv = int (length js) \<and> int (length js) \<le> max 0 (MaxJobs s))"

lemma frame_body: "body X j srv = Some (r, srv') \<Longrightarrow> slots_of srv' = slots_of srv"
  by (cases "(X, j, srv)" rule: body.cases) (auto dest: frame_convert_body frame_convertHTML_body)

lemma frame_middleware: "requestIDMiddleware X q srv = (rid, r, srv1) \<Longrightarrow> slots_of srv1 = slots_of srv"
  by (auto simp: requestIDMiddleware_def Let_def frame_simps)

lemma rate_limit_frame:
  assumes "rate_limit X q srv = (res, srv')"
  shows "sem srv' = sem srv" "activeJobs srv' = activeJobs srv" "settings srv' = settings srv" "files srv' = files srv"
  using assms by (auto simp: rate_limit_def tick_def Let_def split: option.splits prod.splits if_splits)

lemma admit_refused:
  assumes "admit X q srv = (Err e, srv')"
  shows "sem srv' = sem srv" "activeJobs srv' = activeJobs srv" "settings srv' = settings srv" "files srv' = files srv"
  using assms rate_limit_frame by (auto simp: admit_def acquire_def split: prod.splits sum.splits option.splits if_splits)

lemma admit_accepted:
  assumes "admit X q srv = (Ok h, srv')"
  shows "sem srv' = sem srv + 1" "activeJobs srv' = activeJobs srv + 1" "settings srv' = settings srv" "int (sem srv) < MaxJobs (settings srv)"
  using assms rate_limit_frame by (auto simp: admit_def acquire_def split: prod.splits sum.splits option.splits if_splits)

lemma slots_inv_cong: "slots_of srv' = slots_of srv \<Longrightarrow> slots_inv s (srv', js) = slots_inv s (srv, js)"
  by (simp add: slots_inv_def slots_of_def)

lemma slots_inv_step: "srv_step X st st' \<Longrightarrow> slots_inv s st \<Longrightarrow> slots_inv s st'"
proof (induction rule: srv_step.induct)
  case (Refuse q srv rid r srv1 e srv2 js)
  have "slots_inv s (tick srv1, js)"
    using Refuse.prems frame_middleware [OF Refuse.hyps(1)] by (simp add: slots_inv_cong [of "tick srv1" srv] frame_simps)
  then have "slots_inv s (srv2, js)" using admit_refused [OF Refuse.hyps(2)] by (simp add: slots_inv_def)
  then show ?case by (simp add: slots_inv_cong [of "tick srv2" srv2] respond_error_def frame_simps)
next
  case (Begin q srv rid r srv1 h srv2 js ep)
  have "slots_inv s (tick srv1, js)"
    using Begin.prems frame_middleware [OF Begin.hyps(1)] by (simp add: slots_inv_cong [of "tick srv1" srv] frame_simps)
  then show ?case using admit_accepted [OF Begin.hyps(2)] by (simp add: slots_inv_def)
next
  case (End j js srv r srv')
  then have "slots_inv s (srv', js)" using frame_body [OF End.hyps(2)] by (simp add: slots_inv_cong [of srv' srv])
  moreover have "length js = Suc (length (remove1 j js))" using length_pos_if_in_set [OF End.hyps(1)] End.hyps(1) by (simp add: length_remove1)
  ultimately show ?case by (simp add: slots_inv_def release_def)
next
  case (Other srv' srv js)
  then show ?case by (simp add: slots_inv_cong [of srv' srv])
qed

lemma slots_inv_reachable: "(srv_step X)\<^sup>*\<^sup>* st st' \<Longrightarrow> slots_inv s st \<Longrightarrow> slots_inv s st'"
  by (induction rule: rtranclp_induct) (blast intro: slots_inv_step)+

lemma slots_inv_new: "Server_New s lic c rec dash land w = Ok srv0 \<Longrightarrow> slots_inv s (srv0, [])"
  by (auto simp: Server_New_def slots_inv_def Let_def split: if_splits sum.splits)

section \<open>Properties\<close>


text \<open>A request that uploads nothing, under an id of its client.\<close>

definition demo_request :: "string \<Rightarrow> Request" where
  "demo_request rid = \<lparr>q_request_id = rid, q_form = Map.empty, q_file = Some (''a.docx'', 0, ([], None)), q_xff = '''', q_addr = ''1.2.3.4:5'', q_client = None\<rparr>"


subsection \<open>The answer and the record of a stream\<close>

lemma recent_Record_hd: "recent_maxlen s > 0 \<Longrightarrow> recent_buf (recent_Record rec s) = rec # take (nat (recent_maxlen s) - 1) (recent_buf s)"
proof -
  assume a: "recent_maxlen s > 0"
  then obtain m where m: "nat (recent_maxlen s) = Suc m" by (metis Suc_diff_1 zero_less_nat_eq)
  show ?thesis
  proof (cases "int (length (rec # recent_buf s)) > recent_maxlen s")
    case True
    then show ?thesis using m by (simp add: recent_Record_def Let_def)
  next
    case False
    then have "length (recent_buf s) \<le> m" using m a by simp
    then show ?thesis using m False by (simp add: recent_Record_def Let_def)
  qed
qed

lemma recent_frame [simp]:
  "recent (tick srv) = recent srv" "recent (set_fs st srv) = recent srv" "recent (cleanup d srv) = recent srv"
  "recent (remove_file X p srv) = recent srv" "recent (srv\<lparr>world := w\<rparr>) = recent srv" "recent (upload_output X di p srv) = recent srv"
  by (simp_all add: tick_def set_fs_def cleanup_def remove_file_def upload_output_def split: prod.split)

lemma recent_open_s3tmp: "open_s3tmp X di srv = (t, srv') \<Longrightarrow> recent srv' = recent srv"
  by (auto simp: open_s3tmp_def split: if_splits prod.splits option.splits)

text \<open>The newest record after \<^verbatim>\<open>recordConversion\<close>.\<close>

lemma recordConversion_newest:
  assumes "recent_maxlen (recent srv) > 0"
  shows "\<exists>rec. recent_buf (recent (recordConversion X di state code n srv)) = rec # take (nat (recent_maxlen (recent srv)) - 1) (recent_buf (recent srv)) \<and>
    RequestID rec = di_rid di \<and> Status rec = state \<and> ErrorCode rec = (if code \<noteq> '''' then Some code else None) \<and>
    OutputSizeBytes rec = (if state = ''success'' then Some n else None) \<and>
    OutputS3URI rec = map_option (\<lambda>(b, k). ''s3://'' @ b @ ''/'' @ k) (di_s3Out di)"
  using assms by (simp add: recordConversion_def Let_def recent_Record_hd split: option.split)

lemma errCode_not_Nil [simp]: "errCode e \<noteq> ''''"
proof -
  have "failure_string c \<noteq> ''''" for c by (cases c) simp_all
  then show ?thesis by (cases e) simp_all
qed

lemma writeError_sent:
  assumes "r_sent r = None"
  shows "\<exists>h. r_sent (writeError now rid e r) = Some (HTTPStatus (as_error e), h) \<and> h ''Content-Type'' = Some ''application/json''"
    "r_json (writeError now rid e r) = Some (diagnostic rid (as_error e))" "r_conn (writeError now rid e r) = r_conn r"
  using assms by (auto simp: writeError_def writeJSON_def WriteHeader_def set_header_def Let_def split: option.split)

lemma sw_after_fresh:
  assumes "r_sent r = None" "written (r_conn r) = ''''"
  shows "sw_wrote (sw_after dst (new_stream h r)) = w_called dst" "sw_n (sw_after dst (new_stream h r)) = int (length (written dst))"
    "r_json (sw_w (sw_after dst (new_stream h r))) = r_json r"
    "r_sent (sw_w (sw_after dst (new_stream h r))) = (if w_called dst then Some (200, r_header r ++ h) else None)"
  using assms by (simp_all add: sw_after_def sw_begin_def new_stream_def WriteHeader_def Let_def)

text \<open>
  C6: What the client sees and what is recorded agree with what the producer did. After a stream that returns, the
  newest record carries the request id and \<^verbatim>\<open>success\<close> exactly when the producer succeeded, with the number of bytes
  the client received. If the producer failed before its first byte, the client gets the JSON diagnostic with
  the status of the error and no PDF bytes; if it failed later, the client got status 200 with the bytes so far, the
  record says \<^verbatim>\<open>failed\<close>, and no diagnostic is mixed into the body.
\<close>

theorem stream_outcome_recorded:
  assumes "finishStream X (new_stream h r) di dir produce srv = Some (r', srv')"
    and "r_sent r = None" "written (r_conn r) = ''''" "r_json r = None" "recent_maxlen (recent srv) > 0"
  shows "\<exists>w0 err dst w rec. produce (r_conn r) w0 = Some (err, dst, w) \<and>
    recent_buf (recent srv') = rec # take (nat (recent_maxlen (recent srv)) - 1) (recent_buf (recent srv)) \<and> RequestID rec = di_rid di \<and>
    r_conn r' = dst \<and>
    (case err of
       None \<Rightarrow> Status rec = ''success'' \<and> ErrorCode rec = None \<and> OutputSizeBytes rec = Some (int (length (written dst))) \<and> r_json r' = None \<and>
         r_sent r' = (if w_called dst then Some (200, r_header r ++ h) else None)
     | Some e \<Rightarrow> Status rec = ''failed'' \<and> ErrorCode rec = Some (errCode e) \<and> OutputSizeBytes rec = None \<and>
         (if w_called dst then r_json r' = None \<and> r_sent r' = Some (200, r_header r ++ h)
          else r_json r' = Some (diagnostic (di_rid di) (as_error e)) \<and> map_option fst (r_sent r') = Some (HTTPStatus (as_error e))))"
proof -
  obtain t srv1 where o: "open_s3tmp X di srv = (t, srv1)" by fastforce
  have rec1: "recent srv1 = recent srv" by (rule recent_open_s3tmp [OF o])
  obtain err dst w where p: "produce (r_conn r) (world srv1) = Some (err, dst, w)"
    using assms(1) by (auto simp: finishStream_def o new_stream_def split: option.splits)
  define sw where "sw = sw_after dst (new_stream h r)"
  note sw = sw_after_fresh [OF assms(2,3), of dst h, folded sw_def]
  have conn: "r_conn (sw_w sw) = dst" by (simp add: sw_def)
  define srv3 where "srv3 = (let srv2 = srv1\<lparr>world := w\<lparr>fsys := (case t of None \<Rightarrow> fsys w | Some p \<Rightarrow> (fsys w)(p \<mapsto> written dst))\<rparr>\<rparr>
    in case t of None \<Rightarrow> srv2 | Some p \<Rightarrow> if err = None then upload_output X di p srv2 else remove_file X p srv2)"
  have rec3: "recent srv3 = recent srv" by (auto simp: srv3_def rec1 Let_def split: option.split)
  note newest = recordConversion_newest [where srv = srv3, unfolded rec3, OF assms(5)]
  show ?thesis
  proof (cases err)
    case None
    then have "r' = sw_w sw" "srv' = cleanup dir (recordConversion X di ''success'' '''' (sw_n sw) srv3)"
      using assms(1) p by (cases t; simp add: finishStream_def o Let_def srv3_def sw_def new_stream_def)+
    with newest [of X di "''success''" "''''" "sw_n sw"] p None sw conn assms(4) show ?thesis by fastforce
  next
    case (Some e)
    show ?thesis
    proof (cases "w_called dst")
      case True
      then have "r' = sw_w sw" "srv' = cleanup dir (recordConversion X di ''failed'' (errCode e) (sw_n sw) srv3)"
        using assms(1) p Some sw(1) by (cases t; simp add: finishStream_def o Let_def srv3_def sw_def new_stream_def)+
      with newest [of X di "''failed''" "errCode e" "sw_n sw"] p Some True sw conn assms(4) show ?thesis by fastforce
    next
      case False
      define srv4 where "srv4 = recordConversion X di ''failed'' (errCode e) 0 srv3"
      have "r' = writeError (time_now X srv4) (di_rid di) e (sw_w sw)" "srv' = cleanup dir (tick srv4)"
        using assms(1) p Some False sw(1) by (cases t; simp add: finishStream_def o Let_def srv3_def sw_def new_stream_def respond_error_def srv4_def)+
      with newest [of X di "''failed''" "errCode e" 0, folded srv4_def] writeError_sent [of "sw_w sw" "time_now X srv4" "di_rid di" e] p Some False sw conn
      show ?thesis by fastforce
    qed
  qed
qed

definition demo_di :: "(string \<times> string) option \<Rightarrow> dispatchInfo" where
  "demo_di s3 = \<lparr>di_rid = ''r1'', di_t0 = 0, di_source = ''ui'', di_inputFilename = ''a.png'', di_format = ''png'', di_engine = '''', di_s3Out = s3\<rparr>"

theorem stream_outcome_recorded_witness:
  "\<exists>r' srv'. finishStream demo_outside (new_stream Map.empty (new_response None)) (demo_di None) ''/d'' (\<lambda>dst w. Some (Some (PlainError ''x''), dst, w)) (demo_server Map.empty) =
     Some (r', srv') \<and> map_option fst (r_sent r') = Some 500"
proof -
  let ?p = "\<lambda>dst w. Some (Some (PlainError ''x''), dst, w)" and ?r = "new_response None" and ?s = "demo_server Map.empty"
  have "finishStream demo_outside (new_stream Map.empty ?r) (demo_di None) ''/d'' ?p ?s \<noteq> None"
    by (simp add: finishStream_def open_s3tmp_def demo_di_def Let_def respond_error_def)
  then obtain r' srv' where f: "finishStream demo_outside (new_stream Map.empty ?r) (demo_di None) ''/d'' ?p ?s = Some (r', srv')" by fastforce
  have pre: "r_sent ?r = None" "written (r_conn ?r) = ''''" "r_json ?r = None" "recent_maxlen (recent ?s) > 0" "\<not> w_called (r_conn ?r)"
    by (simp_all add: new_response_def demo_server_def NewRecentStore_def DefaultMaxRecent_def)
  from stream_outcome_recorded [OF f pre(1-4)] pre(5) have "map_option fst (r_sent r') = Some 500" by (auto simp: mk_error_def)
  with f show ?thesis by blast
qed

text \<open>
  C35: A failed upload to S3 is invisible to the client and to the record. When the conversion itself succeeds and
  the output was to go to \<^verbatim>\<open>s3://b/k\<close>, the answer and the record are the same whatever the upload returns, also when
  the temporary copy could not even be created: status 200, \<^verbatim>\<open>success\<close>, and the URI of an object that may not
  exist. The README lists status 500 \<^verbatim>\<open>s3_output_upload_failed\<close> for this case.
\<close>

theorem s3_upload_failure_is_success:
  assumes "finishStream X (new_stream h r) di dir produce srv = Some (r', srv')" "di_s3Out di = Some (b, k)"
    and "\<And>w. \<exists>w'. produce (r_conn r) w = Some (None, dst, w')"
    and "r_sent r = None" "written (r_conn r) = ''''" "w_called dst" "recent_maxlen (recent srv) > 0"
  shows "r_sent r' = Some (200, r_header r ++ h) \<and> r_conn r' = dst \<and>
    (\<exists>rec. hd (recent_buf (recent srv')) = rec \<and> Status rec = ''success'' \<and> ErrorCode rec = None \<and> OutputS3URI rec = Some (''s3://'' @ b @ ''/'' @ k))"
proof -
  obtain t srv1 where o: "open_s3tmp X di srv = (t, srv1)" by fastforce
  have rec1: "recent srv1 = recent srv" by (rule recent_open_s3tmp [OF o])
  obtain w where p: "produce (r_conn r) (world srv1) = Some (None, dst, w)" using assms(3) by blast
  define sw where "sw = sw_after dst (new_stream h r)"
  note sw = sw_after_fresh [OF assms(4,5), of dst h, folded sw_def]
  obtain srv3 where "r' = sw_w sw" "srv' = cleanup dir (recordConversion X di ''success'' '''' (sw_n sw) srv3)" "recent srv3 = recent srv"
    using assms(1) p rec1 by (cases t) (auto simp: finishStream_def o Let_def sw_def new_stream_def)
  with recordConversion_newest [of srv3 X di "''success''" "''''" "sw_n sw"] sw assms(2,6,7) show ?thesis by (auto simp: sw_def)
qed

theorem s3_upload_failure_is_success_witness:
  "\<exists>r' srv'. finishStream demo_outside (new_stream Map.empty (new_response None)) (demo_di (Some (''b'', ''k''))) ''/d''
       (\<lambda>dst w. Some (None, received dst ''%PDF-'', w)) (demo_server Map.empty) = Some (r', srv') \<and>
     map_option fst (r_sent r') = Some 200 \<and> OutputS3URI (hd (recent_buf (recent srv'))) = Some ''s3://b/k''"
proof -
  let ?p = "\<lambda>dst w. Some (None, received dst ''%PDF-'', w)" and ?r = "new_response None" and ?s = "demo_server Map.empty"
  have "finishStream demo_outside (new_stream Map.empty ?r) (demo_di (Some (''b'', ''k''))) ''/d'' ?p ?s \<noteq> None"
    by (simp add: finishStream_def Let_def split: prod.split)
  then obtain r' srv' where f: "finishStream demo_outside (new_stream Map.empty ?r) (demo_di (Some (''b'', ''k''))) ''/d'' ?p ?s = Some (r', srv')" by fastforce
  have "di_s3Out (demo_di (Some (''b'', ''k''))) = Some (''b'', ''k'')" "r_sent ?r = None" "written (r_conn ?r) = ''''"
    "w_called (received (r_conn ?r) ''%PDF-'')" "recent_maxlen (recent ?s) > 0"
    by (simp_all add: demo_di_def new_response_def demo_server_def NewRecentStore_def DefaultMaxRecent_def)
  from s3_upload_failure_is_success [OF f this(1) _ this(2-5)] have "map_option fst (r_sent r') = Some 200" "OutputS3URI (hd (recent_buf (recent srv'))) = Some ''s3://b/k''"
    by auto
  with f show ?thesis by blast
qed

subsection \<open>The scratch directory\<close>

definition real_comp :: "string \<Rightarrow> bool" where
  "real_comp x \<longleftrightarrow> x \<noteq> '''' \<and> x \<noteq> ''.'' \<and> x \<noteq> ''..''"

lemma push_comp_real: "list_all real_comp st \<Longrightarrow> list_all real_comp (push_comp True w st)"
  by (cases st) (auto simp: push_comp_def real_comp_def [of w] real_comp_def [of "''..''"])

lemma fold_push_real: "list_all real_comp st \<Longrightarrow> list_all real_comp (fold (push_comp True) ws st)"
  by (induction ws arbitrary: st) (simp_all add: push_comp_real)

lemma rooted_comps: "rooted p \<Longrightarrow> list_all real_comp (path_comps p)"
  using fold_push_real [of "[]"] by (simp add: path_comps_def)

text \<open>\<^verbatim>\<open>os.RemoveAll\<close> acts on every cleaned absolute path.\<close>

lemma clean_removable:
  assumes "rooted p"
  shows "os_RemoveAll (clean p) st = (\<lambda>q. if below (clean p) q then None else st q)"
proof -
  define cs where "cs = path_comps p"
  have clean: "clean p = CHR ''/'' # join ''/'' cs" using assms by (simp add: clean_def path_text_def cs_def)
  have "clean p \<noteq> t @ ''/.''" for t
  proof
    assume t: "clean p = t @ ''/.''"
    show False
    proof (cases cs)
      case Nil
      then show ?thesis using t clean by simp
    next
      case (Cons a as)
      have "split CHR ''/'' (clean p) = [] # cs"
        using Cons split_join [of cs "CHR ''/''"] path_comps_slash [of _ p] unfolding clean cs_def [symmetric] by simp
      moreover have "last (split CHR ''/'' (t @ ''/.'')) = ''.''" using split_append [of "CHR ''/''" t "''.''"] by (simp add: split_no_sep)
      ultimately have "last cs = ''.''" using t Cons by simp
      moreover have "real_comp (last cs)" using rooted_comps [OF assms] Cons last_in_set [of cs] by (auto simp: list_all_iff cs_def)
      ultimately show ?thesis by (simp add: real_comp_def)
    qed
  qed
  then have "\<not> has_suffix (clean p) ''/.''" unfolding has_suffix_def by (metis append_take_drop_id)
  then show ?thesis using clean by (simp add: os_RemoveAll_def)
qed

lemma joinScratch_clean: "d \<noteq> '''' \<Longrightarrow> joinScratch d rid = clean (if rid = '''' then d else d @ ''/'' @ rid)"
  by (simp add: joinScratch_def path_join_def)

lemma cleanup_scratch:
  assumes "rooted d" "below (joinScratch d rid) p"
  shows "files (cleanup (joinScratch d rid) srv) p = None"
proof -
  have d: "d \<noteq> ''''" using assms(1) by (auto simp: rooted_def has_prefix_def)
  then have "rooted (if rid = '''' then d else d @ ''/'' @ rid)" using assms(1) by (simp add: rooted_append)
  from clean_removable [OF this] assms(2) show ?thesis by (simp add: joinScratch_clean [OF d] cleanup_def set_fs_def)
qed

lemma files_frame [simp]:
  "files (tick srv) = files srv" "files (set_mgr m srv) = files srv" "files (recordConversion X di state c n srv) = files srv"
  "files (set_fs st srv) = st"
  by (simp_all add: tick_def set_mgr_def recordConversion_def set_fs_def Let_def)

lemma files_license: "license_gate X srv = (e, srv') \<Longrightarrow> files srv' = files srv" "html_license_gate X engine srv = (e, srv') \<Longrightarrow> files srv' = files srv"
  by (auto simp: license_gate_def html_license_gate_def Let_def split: if_splits prod.splits sum.splits bool.splits)

lemma files_cleaned:
  assumes "rooted d"
  shows "finishStream X sw di (joinScratch d rid) produce srv = Some (r', srv') \<Longrightarrow> below (joinScratch d rid) p \<Longrightarrow> files srv' p = None"
    "fail_recorded X di (joinScratch d rid) e r srv = (r', srv') \<Longrightarrow> below (joinScratch d rid) p \<Longrightarrow> files srv' p = None"
    "respond_error X rid' e r (cleanup (joinScratch d rid) srv) = (r', srv') \<Longrightarrow> below (joinScratch d rid) p \<Longrightarrow> files srv' p = None"
  using cleanup_scratch [OF assms]
  by (auto simp: finishStream_def fail_recorded_def respond_error_def Let_def split: option.splits prod.splits if_splits)

lemma convert_route_cleaned:
  assumes "rooted d" "convert_route X di (joinScratch d rid) inp opts sw srv = Some (r', srv')" "below (joinScratch d rid) p"
  shows "files srv' p = None"
  using assms(2,3) files_cleaned [OF assms(1)]
  by (auto simp: convert_route_def via_converter_def Let_def split: if_splits prod.splits sum.splits)


text \<open>An upload of no bytes is refused, and its scratch directory is removed.\<close>

lemma empty_upload:
  assumes "license_gate X srv = (None, srv1)" "q_form q = Map.empty" "q_file q = Some (name, 0, ([], None))" "name \<noteq> ''''" "env_os (o_env X) = no_faults"
  obtains srv2 where "convert_body X q rid t0 h r srv =
    Some (respond_error X rid (OError (NewMissingFile ''file is empty'')) r (cleanup (joinScratch (ScratchDir (settings srv)) rid) srv2))"
proof -
  define dir where "dir = joinScratch (ScratchDir (settings srv)) rid"
  have form: "trim_space (FormValue q k) = ''''" for k
    using trim_space_visible [of "''''"] by (simp add: FormValue_def assms(2))
  have "streamUploadToFile (env_os (o_env X)) ([], None) (dir @ ''/input.tmp'') m st = ((0, None), st(dir @ ''/input.tmp'' \<mapsto> ''''))" for m st
    by (simp add: streamUploadToFile_def assms(5))
  then obtain srv2 where "prepare_input X q '''' dir srv1 = (Err (OError (NewMissingFile ''file is empty'')), srv2)"
    by (simp add: prepare_input_def acquire_input_def assms(3) Let_def)
  then show ?thesis
    using assms by (intro that) (simp add: convert_body_def form source_conflict_def has_file_def output_target_def dir_def [symmetric] Let_def)
qed

lemma demo_gate: obtains srv1 where "license_gate demo_outside (demo_server st) = (None, srv1)"
proof -
  have "licenseMgr (license (demo_server st)) = license_NewManager" by (simp add: demo_server_def)
  then show ?thesis using that by (simp add: license_gate_def demo_license)
qed

lemma demo_request_sel:
  "q_form (demo_request rid) = Map.empty" "q_file (demo_request rid) = Some (''a.docx'', 0, ([], None))" "''a.docx'' \<noteq> ''''"
  "env_os (o_env demo_outside) = no_faults" "r_sent (new_response None) = None" "ScratchDir (settings (demo_server st)) = ''/data/scratch''"
  by (simp_all add: demo_request_def demo_outside_def new_response_def demo_server_def)

lemma demo_scratch: "rooted ''/data/scratch''" "path_comps ''/data/scratch'' = [''data''] @ [''scratch'']"
  by code_simp+


text \<open>The parent of a directory.\<close>

lemma path_comps_up:
  assumes "rooted d" "path_comps d = cs @ [c]"
  shows "path_comps (d @ ''/..'') = cs"
proof -
  have d: "d \<noteq> ''''" using assms(1) by (auto simp: rooted_def has_prefix_def)
  have "split CHR ''/'' (d @ ''/..'') = split CHR ''/'' d @ [''..'']" using split_append [of "CHR ''/''" d "''..''"] by (simp add: split_no_sep)
  moreover have "rooted (d @ ''/..'')" using assms(1) d by (simp add: rooted_append)
  moreover have "fold (push_comp True) (split CHR ''/'' d) [] = c # rev cs"
    using assms by (simp add: path_comps_def) (metis rev_rev_ident rev.simps(2) rev_append append_Cons append_Nil)
  moreover have "c \<noteq> ''..''" using rooted_comps [OF assms(1)] assms(2) by (simp add: real_comp_def)
  ultimately show ?thesis by (simp add: path_comps_def push_comp_def)
qed

lemma joinScratch_up:
  assumes "rooted d" "path_comps d = cs @ [c]"
  shows "joinScratch d ''..'' = path_text True cs"
proof -
  have d: "d \<noteq> ''''" using assms(1) by (auto simp: rooted_def has_prefix_def)
  then have "rooted (d @ ''/..'')" using assms(1) by (simp add: rooted_append)
  then show ?thesis using path_comps_up [OF assms] by (simp add: joinScratch_clean [OF d] clean_def)
qed

text \<open>
  C34: The client chooses what is deleted. The request id comes from the header \<^verbatim>\<open>X-Request-ID\<close> unchecked and
  names the scratch directory; with the id \<^verbatim>\<open>..\<close> the scratch directory is the parent of the configured one, and an
  empty upload, answered as a plain 400, removes every file below that parent: the scratch directories of
  all other requests and everything beside them.
\<close>

theorem request_id_deletes_parent:
  assumes "rooted (ScratchDir (settings srv))" "path_comps (ScratchDir (settings srv)) = cs @ [c]"
    and "license_gate X srv = (None, srv1)" "q_form q = Map.empty" "q_file q = Some (name, 0, ([], None))" "name \<noteq> ''''"
    and "env_os (o_env X) = no_faults" "r_sent r = None"
  shows "\<exists>r' srv'. convert_body X q ''..'' t0 h r srv = Some (r', srv') \<and> map_option fst (r_sent r') = Some 400 \<and>
    (\<forall>p. below (path_text True cs) p \<longrightarrow> files srv' p = None)"
proof -
  define dir where "dir = joinScratch (ScratchDir (settings srv)) ''..''"
  have dir: "dir = path_text True cs" using joinScratch_up [OF assms(1,2)] by (simp add: dir_def)
  obtain srv2 where body: "convert_body X q ''..'' t0 h r srv = Some (respond_error X ''..'' (OError (NewMissingFile ''file is empty'')) r (cleanup dir srv2))"
    unfolding dir_def by (rule empty_upload [OF assms(3-7)])
  obtain r' srv' where r': "respond_error X ''..'' (OError (NewMissingFile ''file is empty'')) r (cleanup dir srv2) = (r', srv')" by fastforce
  have "map_option fst (r_sent r') = Some 400"
    using r' writeError_sent(1) [OF assms(8), of "time_now X (cleanup dir srv2)" "''..''" "OError (NewMissingFile ''file is empty'')"]
    by (auto simp: respond_error_def NewMissingFile_def)
  moreover have "files srv' p = None" if "below (path_text True cs) p" for p
    using files_cleaned(3) [OF assms(1), of X "''..''" _ r "''..''" srv2 r' srv' p] r' that dir by (simp add: dir_def)
  ultimately show ?thesis using body r' by auto
qed

theorem request_id_deletes_parent_witness:
  "\<exists>r' srv'. convert_body demo_outside (demo_request ''..'') ''..'' 0 Map.empty (new_response None) (demo_server [''/data/secret/key'' \<mapsto> ''x'']) = Some (r', srv') \<and>
     files srv' ''/data/secret/key'' = None"
proof -
  let ?srv = "demo_server [''/data/secret/key'' \<mapsto> ''x'']"
  obtain srv1 where lic: "license_gate demo_outside ?srv = (None, srv1)" by (rule demo_gate)
  have "below (path_text True [''data'']) ''/data/secret/key''" by code_simp
  with request_id_deletes_parent [where c = "''scratch''" and cs = "[''data'']", OF _ _ lic demo_request_sel(1-5)] show ?thesis
    unfolding demo_request_sel(6) using demo_scratch by fastforce
qed

end
