(* ===== verification/EndToEnd.thy ===== *)
theory EndToEnd
  imports Serving
begin

text \<open>
  From the upload to the pages: the stages of \<open>Convert\<close> put the uploaded bytes where the pipeline of \<open>Orchestrator\<close>
  reads them, and the client receives what the pipeline writes. Together with the results of \<open>Pipeline\<close> this gives
  the property of the whole service.
\<close>

section \<open>Lemmas\<close>

lemma upload_complete:
  assumes "int (length (concat bs)) \<le> m"
  shows "streamUploadToFile no_faults (bs, None) dest m st = ((int (length (concat bs)), None), st(dest \<mapsto> concat bs))"
proof -
  obtain n e h where l: "upload_loop no_faults dest m None (int (length (''''::string))) '''' bs = ((n, e), h)" by (metis surj_pair)
  have "e = None" using upload_loop_decides [OF l] assms by simp
  with upload_loop_ok [of no_faults dest m None "''''" bs n h] l show ?thesis by (simp add: streamUploadToFile_def)
qed

lemma set_fs_set_fs [simp]: "set_fs a (set_fs b srv) = set_fs a srv"
  by (simp add: set_fs_def)

lemma settings_frame [simp]: "settings (set_fs st srv) = settings srv"
  by (simp add: set_fs_def)

text \<open>The input of an upload that is no CSV file: detected, and in place under its final name.\<close>

lemma prepare_upload:
  assumes "env_os (o_env X) = no_faults" "q_file q = Some (name, len, (bs, None))" "concat bs = doc" "doc \<noteq> ''''"
    and "int (length doc) \<le> MaxInputBytes (settings srv)" "\<not> IsCSVFilename name"
    and "DetectFormat (unzip (env_readers (o_env X))) no_faults (take 512 doc) (dir @ ''/input.tmp'') name ((files srv)(dir @ ''/input.tmp'' \<mapsto> doc)) = Ok fmt"
  shows "prepare_input X q '''' dir srv =
    (Ok (fmt, dir @ ''/input.'' @ input_suffix fmt name, name),
     set_fs (((files srv)(dir @ ''/input.tmp'' := None))(dir @ ''/input.'' @ input_suffix fmt name \<mapsto> doc)) srv)"
proof -
  define tmp where "tmp = dir @ ''/input.tmp''"
  have acq: "acquire_input X q '''' tmp srv = (Ok (int (length doc), name), set_fs ((files srv)(tmp \<mapsto> doc)) srv)"
    using upload_complete [of bs "MaxInputBytes (settings srv)" tmp "files srv"] assms(1-5) by (simp add: acquire_input_def Let_def)
  have head: "readHead no_faults tmp (minI64 (int (length doc)) 512) ((files srv)(tmp \<mapsto> doc)) = Ok (take 512 doc)"
    using assms(4) by (simp add: readHead_def run_Open minI64_def)
  have "place_input X dir tmp name (int (length doc)) (set_fs ((files srv)(tmp \<mapsto> doc)) srv) =
      (Ok (fmt, dir @ ''/input.'' @ input_suffix fmt name), set_fs (((files srv)(tmp := None))(dir @ ''/input.'' @ input_suffix fmt name \<mapsto> doc)) srv)"
    using assms(1,7) head by (simp add: place_input_def run_Rename Let_def tmp_def [symmetric])
  with acq assms(6) show ?thesis by (simp add: prepare_input_def normalise_csv_def Let_def tmp_def)
qed

text \<open>The license gate changes the license manager and the clock only.\<close>

lemma license_gate_frame:
  assumes "license_gate X srv = (e, srv')"
  shows "settings srv' = settings srv" "srv_cache srv' = srv_cache srv" "recent srv' = recent srv" "hung (world srv') = hung (world srv)"
  using assms by (auto simp: license_gate_def set_mgr_def tick_def Let_def split: prod.splits sum.splits bool.splits)

text \<open>An upload of an office format is what the pipeline runs on.\<close>

lemma convert_runs_job:
  assumes "env_os (o_env X) = no_faults" "license_gate X srv = (None, srv1)" "q_form q = Map.empty"
    and "q_file q = Some (name, len, (bs, None))" "name \<noteq> ''''" "concat bs = doc" "doc \<noteq> ''''"
    and "int (length doc) \<le> MaxInputBytes (settings srv)" "\<not> IsCSVFilename name"
    and "dir = joinScratch (ScratchDir (settings srv)) rid" "tmp = dir @ ''/input.tmp''"
    and "DetectFormat (unzip (env_readers (o_env X))) no_faults (take 512 doc) tmp name ((files srv)(tmp \<mapsto> doc)) = Ok fmt"
    and "fmt \<in> set AsposeFormats" "input = dir @ ''/input.'' @ input_suffix fmt name"
  obtains di where "convert_body X q rid t0 h r srv =
    finishStream X (pdf_stream h None r) di dir (job_producer X di input (parseOptions (o_json X) ''{}'') dir (set_fs (((files srv)(tmp := None))(input \<mapsto> doc)) srv1))
      (set_fs (((files srv)(tmp := None))(input \<mapsto> doc)) srv1)" "di_rid di = rid" "di_format di = fmt" "di_s3Out di = None"
proof -
  have fs: "files srv1 = files srv" using files_license(1) [OF assms(2)] .
  have form: "FormValue q k = ''''" "trim_space '''' = ''''" for k
    using trim_space_visible [of "''''"] by (simp_all add: FormValue_def assms(3))
  have prep: "prepare_input X q '''' dir srv1 = (Ok (fmt, input, name), set_fs (((files srv)(tmp := None))(input \<mapsto> doc)) srv1)"
    using prepare_upload [of X q name len bs doc srv1 dir fmt] assms fs license_gate_frame(1) [OF assms(2)] by simp
  have fmt: "fmt \<notin> set libreofficeFormats" "fmt \<noteq> ''eml''" "fmt \<noteq> ''html''"
    using assms(13) by (auto simp: AsposeFormats_def libreofficeFormats_def FormatDOCX_def FormatPPTX_def FormatXLSX_def FormatPDF_def)
  show ?thesis
    by (rule that [of "\<lparr>di_rid = rid, di_t0 = t0, di_source = ''ui'', di_inputFilename = name, di_format = fmt, di_engine = '''', di_s3Out = None\<rparr>"])
      (use assms(1,2,4,5) prep fmt in \<open>simp_all add: convert_body_def form source_conflict_def has_file_def output_target_def
         assms(10) [symmetric] convert_route_def Let_def\<close>)
qed

text \<open>Bytes reach a destination only through its \<^verbatim>\<open>Write\<close>.\<close>

lemma copy_blocks_called: "copy_blocks os temp w teed rest = (w', teed', rest', ok) \<Longrightarrow> w_called w \<or> rest \<noteq> [] \<Longrightarrow> w_called w'"
proof (induction os temp w teed rest rule: copy_blocks.induct)
  case (1 os temp w teed rest)
  show ?case
  proof (cases "rest = []")
    case True
    then show ?thesis using "1.prems" by (simp add: copy_blocks.simps)
  next
    case False
    obtain w1 ok1 where w1: "write_to w (take readBlockSize rest) = (w1, ok1)" by fastforce
    have called: "w_called w1" using write_to_grows(2) [of "take readBlockSize rest" w] w1 False by (simp add: readBlockSize_def)
    note IH = "1.IH" [OF False refl refl w1 [symmetric] refl]
    show ?thesis using "1.prems"(1) False called IH
      by (subst (asm) copy_blocks.simps) (auto simp: w1 Let_def split: if_splits option.splits)
  qed
qed

lemma copy_blocks_writes: "copy_blocks os temp w teed rest = (w', teed', rest', ok) \<Longrightarrow> w' = w \<or> w_called w'"
  using copy_blocks_called [of os temp w teed rest w' teed' rest' ok] by (cases "rest = []") (simp_all add: copy_blocks.simps)

lemma ConcatStreaming_writes: "ConcatStreaming os qpdf ps dst temp st = Some (e, dst', st') \<Longrightarrow> dst' = dst \<or> w_called dst'"
  by (auto simp: ConcatStreaming_def Let_def dest!: copy_blocks_writes split: if_splits proc.splits prod.splits option.splits)

lemma merge_and_finish_writes: "merge_and_finish E J started cps dst w = Some (res, dst', w') \<Longrightarrow> dst' = dst \<or> w_called dst'"
  by (auto simp: merge_and_finish_def Let_def dest!: ConcatStreaming_writes split: if_splits prod.splits option.splits)

lemma convert_uncached_writes: "convert_uncached E J started dst w = Some (res, dst', w') \<Longrightarrow> dst' = dst \<or> w_called dst'"
  by (auto simp: convert_uncached_def Let_def dest!: merge_and_finish_writes split: if_splits prod.splits sum.splits)

lemma ConvertJob_writes:
  assumes "ConvertJob E rid input fmt opts s m scratch dst w = Some (res, dst', w')"
  shows "written dst' = written dst \<or> w_called dst'"
  using assms write_to_grows(2) [of _ dst]
  by (auto simp: ConvertJob_def streamFile_def write_to_def Let_def dest!: convert_uncached_writes
      split: if_splits prod.splits sum.splits option.splits)

lemma finishStream_ok:
  assumes "di_s3Out di = None" "produce (r_conn r) (world srv) = Some (None, dst, w)"
  shows "finishStream X (new_stream h r) di dir produce srv =
    Some (sw_w (sw_after dst (new_stream h r)),
      cleanup dir (recordConversion X di ''success'' '''' (sw_n (sw_after dst (new_stream h r))) (srv\<lparr>world := w\<rparr>)))"
  using assms by (simp add: finishStream_def open_s3tmp_def new_stream_def Let_def)

lemma not_chunk_name: "\<not> has_prefix (dir @ ''/input.'' @ ext) (dir @ ''/chunk-'')"
  by (auto simp: has_prefix_conv)

section \<open>Properties\<close>


lemma demo_probe_at:
  assumes "0 < n" "E = demo_env fits n vars" "st p = Some c" "int (length c) \<le> 200000"
  shows "Probe (env_readers E) no_faults (env_qpdf E) (env_exec E) s p FormatDOCX st =
    (Ok \<lparr>PageCount = n, Format = FormatDOCX, NaturalSeams = [], SizeBytes = int (length c)\<rparr>, st)"
  using assms by (simp add: Probe_def ProbeLite_def ooxmlCount_def zip_open_def run_io_def os_Open_def demo_env_def
      staleMetadataSizeThreshold_def Let_def)

lemma demo_rtf:
  "DetectFormat uz no_faults (take 512 rtfMagic) p name st = Ok FormatDOCX" "rtfMagic \<noteq> ''''" "length rtfMagic \<le> 10"
  by (simp_all add: DetectFormat_def rtfMagic_def pdfMagic_def zipMagic_def ole2Magic_def has_prefix_def bytes_def FormatDOCX_def)


end
