(* ===== verification/Containerstats.thy ===== *)
theory Containerstats
  imports Server "HOL-Library.Multiset"
begin

text \<open>
  \<^verbatim>\<open>internal/containerstats/containerstats.go\<close>: resource counters from the cgroup files and the list of worker
  processes from \<^verbatim>\<open>/proc\<close>, with the two endpoints that serve them. The files are those of the file system model;
  the names in \<^verbatim>\<open>/proc\<close> and the page size are arguments. A text in \<^verbatim>\<open>/proc/uptime\<close> that is not a plain decimal
  number counts as zero. Integers wrap at 64 bits.
\<close>

section \<open>Definitions\<close>

subsection \<open>Texts and numbers\<close>

text \<open>\<^verbatim>\<open>strings.Fields\<close>: the pieces between white space.\<close>

function fields_from :: "string \<Rightarrow> string \<Rightarrow> string list" where
  "fields_from cur [] = (if cur = '''' then [] else [cur])"
| "fields_from cur (c # s) =
     (case find (\<lambda>p. p \<noteq> [] \<and> has_prefix (c # s) p) space_seqs of
        Some p \<Rightarrow> (if cur = '''' then [] else [cur]) @ fields_from '''' (drop (length p) (c # s))
      | None \<Rightarrow> fields_from (cur @ [c]) s)"
  by pat_completeness auto
termination
proof (relation "measure (\<lambda>(cur, s). length s)", goal_cases)
  case (3 cur c s p)
  then have "p \<noteq> []" by (auto simp: find_Some_iff)
  then show ?case by (cases p) simp_all
qed simp_all

definition Fields :: "string \<Rightarrow> string list" where
  "Fields s = fields_from '''' s"

text \<open>The value that \<^verbatim>\<open>strconv.ParseInt\<close> returns beside its error: zero, or the end of the range.\<close>

definition ParseInt_value :: "string \<Rightarrow> int" where
  "ParseInt_value s =
     (case parse_int s of
        Some v \<Rightarrow> v
      | None \<Rightarrow>
          (let neg = (s \<noteq> '''' \<and> hd s = CHR ''-''); ds = (if s \<noteq> '''' \<and> hd s \<in> {CHR ''+'', CHR ''-''} then tl s else s)
           in if ds = '''' \<or> \<not> list_all is_digit ds then 0 else if neg then - (2 ^ 63) else 2 ^ 63 - 1))"

definition wrap64 :: "int \<Rightarrow> int" where
  "wrap64 x = (x + 2 ^ 63) mod 2 ^ 64 - 2 ^ 63"

definition decimal_value :: "string \<Rightarrow> rat" where
  "decimal_value s =
     (let (m, f, some, r) = scan_mant False False (0, 0, False) s
      in if some \<and> r = '''' \<and> CHR ''_'' \<notin> set s then rnd64 (of_nat m / 10 ^ f) else 0)"

definition ReadFile :: "os_faults \<Rightarrow> string \<Rightarrow> fs \<Rightarrow> (string, string) result" where
  "ReadFile os path st = fst (run_io (os_Open os path) st)"

subsection \<open>The container\<close>

definition cgroupV2Marker :: string where "cgroupV2Marker = ''/sys/fs/cgroup/cgroup.controllers''"
definition cpuV2 :: string where "cpuV2 = ''/sys/fs/cgroup/cpu.stat''"
definition memCurrentV2 :: string where "memCurrentV2 = ''/sys/fs/cgroup/memory.current''"
definition memMaxV2 :: string where "memMaxV2 = ''/sys/fs/cgroup/memory.max''"
definition pidsCurrentV2 :: string where "pidsCurrentV2 = ''/sys/fs/cgroup/pids.current''"
definition cpuacctV1 :: string where "cpuacctV1 = ''/sys/fs/cgroup/cpuacct/cpuacct.usage''"
definition memUsageV1 :: string where "memUsageV1 = ''/sys/fs/cgroup/memory/memory.usage_in_bytes''"
definition memLimitV1 :: string where "memLimitV1 = ''/sys/fs/cgroup/memory/memory.limit_in_bytes''"
definition pidsCurrentV1 :: string where "pidsCurrentV1 = ''/sys/fs/cgroup/pids/pids.current''"

definition isCgroupV2 :: "fs \<Rightarrow> bool" where
  "isCgroupV2 st = os_Stat cgroupV2Marker st"

definition readInt :: "os_faults \<Rightarrow> string \<Rightarrow> int \<Rightarrow> fs \<Rightarrow> int" where
  "readInt os path def st =
     (case ReadFile os path st of Err e \<Rightarrow> def | Ok b \<Rightarrow> (case parse_int (trim_space b) of None \<Rightarrow> def | Some v \<Rightarrow> v))"

definition cpu_usage_v2 :: "os_faults \<Rightarrow> fs \<Rightarrow> int" where
  "cpu_usage_v2 os st =
     (case ReadFile os cpuV2 st of
        Err e \<Rightarrow> 0
      | Ok b \<Rightarrow>
          (case find (\<lambda>line. has_prefix line ''usage_usec'') (split CHR 0x0A b) of
             None \<Rightarrow> 0
           | Some line \<Rightarrow> (let parts = Fields line in if length parts \<ge> 2 then ParseInt_value (parts ! 1) else 0)))"

definition mem_max_v2 :: "os_faults \<Rightarrow> fs \<Rightarrow> int" where
  "mem_max_v2 os st =
     (case ReadFile os memMaxV2 st of
        Err e \<Rightarrow> 0
      | Ok b \<Rightarrow> (let raw = trim_space b in if raw \<noteq> '''' \<and> raw \<noteq> ''max'' then ParseInt_value raw else 0))"

definition ReadContainerStats :: "os_faults \<Rightarrow> int \<Rightarrow> fs \<Rightarrow> (string \<times> json) list" where
  "ReadContainerStats os now st =
     (let v2 = isCgroupV2 st;
          limit = readInt os memLimitV1 0 st;
          (cpu, mem, mem_max, pids) =
            (if v2 then (cpu_usage_v2 os st, readInt os memCurrentV2 0 st, mem_max_v2 os st, readInt os pidsCurrentV2 0 st)
             else (tquot (readInt os cpuacctV1 0 st) 1000, readInt os memUsageV1 0 st, if limit \<ge> 2 ^ 62 then 0 else limit,
                   readInt os pidsCurrentV1 0 st))
      in [(''cpu_usage_usec'', JInt cpu), (''mem_bytes'', JInt mem), (''mem_max_bytes'', JInt mem_max), (''pids_current'', JInt pids),
          (''sampled_at'', JNum (nowEpoch now)), (''cgroup_version'', JInt (if v2 then 2 else 1))])"

subsection \<open>The workers\<close>

definition sysconfClockTick :: int where "sysconfClockTick = 100"

definition systemBootUptimeSec :: "os_faults \<Rightarrow> fs \<Rightarrow> rat" where
  "systemBootUptimeSec os st =
     (case ReadFile os ''/proc/uptime'' st of
        Err e \<Rightarrow> 0
      | Ok b \<Rightarrow> (case Fields b of [] \<Rightarrow> 0 | f # fs \<Rightarrow> decimal_value f))"

record proc_info =
  pid :: int
  cmdline :: string
  cpu_usage_usec :: int
  rss_bytes :: int
  etime_sec :: rat
  sampled_at :: rat

definition argv0_base :: "string \<Rightarrow> string" where
  "argv0_base cmd = (let first = (case Fields cmd of [] \<Rightarrow> '''' | f # fs \<Rightarrow> f) in basename first)"

text \<open>One directory of \<^verbatim>\<open>/proc\<close>: \<open>Ok None\<close> when it is passed over, an error when the slice is out of range.\<close>

definition read_proc ::
  "os_faults \<Rightarrow> (rat \<Rightarrow> int) \<Rightarrow> int \<Rightarrow> string \<Rightarrow> rat \<Rightarrow> rat \<Rightarrow> fs \<Rightarrow> string \<Rightarrow> (go_error, proc_info option) result" where
  "read_proc os oor pageSize pfx bootUptime sampledAt st name =
     (let file = (\<lambda>f. ReadFile os (path_join [''/proc'', name, f]) st)
      in case parse_int name of
           None \<Rightarrow> Ok None
         | Some p \<Rightarrow>
             (case file ''cmdline'' of
                Err e \<Rightarrow> Ok None
              | Ok raw \<Rightarrow>
                  (let cmd = trim_space (map (\<lambda>c. if c = CHR 0x00 then CHR '' '' else c) raw)
                   in if raw = '''' \<or> \<not> has_prefix (argv0_base cmd) pfx then Ok None
                      else case file ''stat'' of
                        Err e \<Rightarrow> Ok None
                      | Ok stat \<Rightarrow>
                          (case cut_last CHR '')'' stat of
                             None \<Rightarrow> Ok None
                           | Some (a, b) \<Rightarrow>
                               if b = '''' then Err (Panic ''slice bounds out of range'')
                               else
                                 (let after = Fields (tl b)
                                  in if length after < 20 then Ok None
                                     else case (parse_int (after ! 11), parse_int (after ! 12), parse_int (after ! 19)) of
                                       (Some utime, Some stime, Some starttime) \<Rightarrow>
                                         (let cpu = f2i oor (fdiv (fmul (fl (wrap64 (utime + stime))) 1000000) (fl sysconfClockTick));
                                              rss = (case file ''statm'' of
                                                       Err e \<Rightarrow> 0
                                                     | Ok sm \<Rightarrow> (let parts = Fields sm
                                                               in if length parts \<ge> 2
                                                                  then (case parse_int (parts ! 1) of Some n \<Rightarrow> wrap64 (n * pageSize) | None \<Rightarrow> 0)
                                                                  else 0));
                                              etime = fsub bootUptime (fdiv (fl starttime) (fl sysconfClockTick))
                                          in Ok (Some \<lparr>pid = p, cmdline = cmd, cpu_usage_usec = cpu, rss_bytes = rss,
                                                      etime_sec = (if etime < 0 then 0 else etime), sampled_at = sampledAt\<rparr>))
                                     | _ \<Rightarrow> Ok None)))))"

fun read_procs :: "(string \<Rightarrow> (go_error, proc_info option) result) \<Rightarrow> string list \<Rightarrow> (go_error, proc_info list) result" where
  "read_procs look [] = Ok []"
| "read_procs look (n # ns) =
     (case look n of
        Err e \<Rightarrow> Err e
      | Ok w \<Rightarrow> (case read_procs look ns of Err e \<Rightarrow> Err e | Ok ws \<Rightarrow> Ok (case w of None \<Rightarrow> ws | Some i \<Rightarrow> i # ws)))"

text \<open>The insertion sort: an element moves left past the larger ones; \<open>racc\<close> is the sorted part, last element first.\<close>

fun move_left :: "proc_info \<Rightarrow> proc_info list \<Rightarrow> proc_info list" where
  "move_left w [] = [w]"
| "move_left w (v # racc) = (if pid v > pid w then v # move_left w racc else w # v # racc)"

definition sort_workers :: "proc_info list \<Rightarrow> proc_info list" where
  "sort_workers ws = rev (fold move_left ws [])"

text \<open>\<open>entries\<close> is what \<^verbatim>\<open>os.ReadDir("/proc")\<close> returns, \<open>None\<close> for an error.\<close>

definition ListWorkers ::
  "os_faults \<Rightarrow> (rat \<Rightarrow> int) \<Rightarrow> int \<Rightarrow> string list option \<Rightarrow> string \<Rightarrow> int \<Rightarrow> fs \<Rightarrow> (go_error, proc_info list) result" where
  "ListWorkers os oor pageSize entries prefix0 now st =
     (let pfx = (if prefix0 = '''' then ''office-convert-worker'' else prefix0)
      in case entries of
           None \<Rightarrow> Ok []
         | Some names \<Rightarrow>
             (case read_procs (read_proc os oor pageSize pfx (systemBootUptimeSec os st) (nowEpoch now) st) names of
                Err e \<Rightarrow> Err e
              | Ok ws \<Rightarrow> Ok (sort_workers ws)))"

subsection \<open>The endpoints\<close>

definition containerStats :: "Outside \<Rightarrow> Response \<Rightarrow> Server \<Rightarrow> Response \<times> Server" where
  "containerStats X r srv = (writeJSON 200 (JObj (ReadContainerStats (env_os (o_env X)) (time_now X srv) (files srv))) r, tick srv)"

definition worker_json :: "proc_info \<Rightarrow> json" where
  "worker_json w = JObj [(''pid'', JInt (pid w)), (''cmdline'', JStr (cmdline w)), (''cpu_usage_usec'', JInt (cpu_usage_usec w)),
     (''rss_bytes'', JInt (rss_bytes w)), (''etime_sec'', JNum (etime_sec w)), (''sampled_at'', JNum (sampled_at w))]"

text \<open>A panic of the listing aborts the response: \<open>None\<close>.\<close>

definition containerWorkers :: "Outside \<Rightarrow> int \<Rightarrow> string list option \<Rightarrow> Response \<Rightarrow> Server \<Rightarrow> (Response \<times> Server) option" where
  "containerWorkers X pageSize entries r srv =
     (case ListWorkers (env_os (o_env X)) (env_oor (o_env X)) pageSize entries ''office-convert-worker'' (time_now X srv) (files srv) of
        Err e \<Rightarrow> None
      | Ok ws \<Rightarrow> Some (writeJSON 200 (JObj [(''workers'', JArr (map worker_json ws))]) r, tick srv))"

section \<open>Properties\<close>

lemma cut_last_end:
  assumes "cut_last c s = Some (a, [])"
  obtains t where "s = t @ [c]"
proof -
  from assms have "takeWhile (\<lambda>x. x \<noteq> c) (rev s) = []" "c \<in> set s" by (auto simp: cut_last_def split: if_splits)
  then show ?thesis using that by (cases s rule: rev_cases) (auto split: if_splits)
qed

lemma mset_move_left: "mset (move_left w racc) = add_mset w (mset racc)"
  by (induction racc) auto

lemma sorted_move_left: "sorted (map pid (rev racc)) \<Longrightarrow> sorted (map pid (rev (move_left w racc)))"
proof (induction racc)
  case (Cons v racc)
  have "set (move_left w racc) = insert w (set racc)" using arg_cong [OF mset_move_left [of w racc], of set_mset] by simp
  with Cons show ?case by (auto simp: sorted_append)
qed simp

lemma filter_move_left:
  "sorted (map pid (rev racc)) \<Longrightarrow> filter (\<lambda>x. k = pid x) (rev (move_left w racc)) = filter (\<lambda>x. k = pid x) (rev racc @ [w])"
  by (induction racc) (auto simp: sorted_append)

lemma sort_workers_eq: "sort_workers ws = sort_key pid ws"
proof -
  have inv: "mset (fold move_left ws racc) = mset (rev racc @ ws) \<and> sorted (map pid (rev (fold move_left ws racc))) \<and>
      filter (\<lambda>x. k = pid x) (rev (fold move_left ws racc)) = filter (\<lambda>x. k = pid x) (rev racc @ ws)"
    if "sorted (map pid (rev racc))" for racc k
    using that
  proof (induction ws arbitrary: racc)
    case (Cons w ws)
    from Cons.IH [OF sorted_move_left [OF Cons.prems]] show ?case
      using filter_move_left [OF Cons.prems, of k w] by (simp add: mset_move_left)
  qed simp
  from inv [of "[]"] show ?thesis unfolding sort_workers_def
    by (intro properties_for_sort_key [symmetric]) auto
qed

lemma read_procs_Ok: "read_procs look ns = Ok ws \<Longrightarrow> set ws = {i. \<exists>n \<in> set ns. look n = Ok (Some i)} \<and> (\<forall>n \<in> set ns. \<forall>e. look n \<noteq> Err e)"
  by (induction ns arbitrary: ws) (auto split: sum.splits option.splits)

lemma read_procs_Err: "read_procs look ns = Err e \<Longrightarrow> \<exists>n \<in> set ns. look n = Err e"
  by (induction ns) (auto split: sum.splits)


end
