(* ===== verification/Netpolicy.thy ===== *)
theory Netpolicy
  imports Prelude
begin

text \<open>
  \<^verbatim>\<open>internal/netpolicy/netpolicy.go\<close>: which resources an HTML page may fetch. \<^verbatim>\<open>Denied\<close> parses the URL; the model
  follows \<^verbatim>\<open>net/url\<close> (\<^verbatim>\<open>Parse\<close>, \<^verbatim>\<open>Hostname\<close>), \<^verbatim>\<open>net.ParseIP\<close> and the address classes of \<^verbatim>\<open>net.IP\<close>.
  \<^verbatim>\<open>ChromiumDenyListRegex\<close> is a regular expression over the text of the URL; the model gives its syntax tree and
  matches it with derivatives.
\<close>

section \<open>Definitions\<close>

subsection \<open>Characters and texts\<close>

definition code :: "char \<Rightarrow> nat" where "code c = of_char c"

definition alpha :: "char \<Rightarrow> bool" where
  "alpha c \<longleftrightarrow> 65 \<le> code c \<and> code c \<le> 90 \<or> 97 \<le> code c \<and> code c \<le> 122"

definition hex_digit_val :: "char \<Rightarrow> nat option" where
  "hex_digit_val c =
     (let n = code c
      in if 48 \<le> n \<and> n \<le> 57 then Some (n - 48) else if 97 \<le> n \<and> n \<le> 102 then Some (n - 87) else if 65 \<le> n \<and> n \<le> 70 then Some (n - 55) else None)"

text \<open>Index of the last occurrence of a character, as the texts before and after it.\<close>

definition last_index :: "char \<Rightarrow> string \<Rightarrow> (string \<times> string) option" where
  "last_index c s = (case cut_last c s of None \<Rightarrow> None | Some (a, b) \<Rightarrow> Some (butlast a, b))"

fun index_text :: "string \<Rightarrow> string \<Rightarrow> nat option" where
  "index_text p [] = (if p = '''' then Some 0 else None)"
| "index_text p (c # s) = (if has_prefix (c # s) p then Some 0 else map_option Suc (index_text p s))"

subsection \<open>Addresses\<close>

text \<open>An address is its sixteen bytes; an IPv4 address has the prefix of the mapped ones.\<close>

definition v4_prefix :: "nat list" where "v4_prefix = replicate 10 0 @ [255, 255]"

definition octet :: "string \<Rightarrow> nat option" where
  "octet s =
     (if s = '''' \<or> \<not> list_all is_digit s \<or> length s > 3 \<or> (length s > 1 \<and> hd s = CHR ''0'') then None
      else let v = atou 0 s in if v > 255 then None else Some v)"

definition parseIPv4 :: "string \<Rightarrow> nat list option" where
  "parseIPv4 s =
     (let parts = split CHR ''.'' s in if length parts = 4 \<and> list_all (\<lambda>p. octet p \<noteq> None) parts then Some (map (\<lambda>p. the (octet p)) parts) else None)"

text \<open>
  The loop of the IPv6 parser: the bytes so far, the place of the ellipsis, and the rest of the text. A group has
  at most four hexadecimal digits; an IPv4 address may stand at the end.
\<close>

definition hex_group :: "string \<Rightarrow> string \<times> string" where
  "hex_group s = (takeWhile (\<lambda>c. hex_digit_val c \<noteq> None) s, dropWhile (\<lambda>c. hex_digit_val c \<noteq> None) s)"

definition hex_value :: "string \<Rightarrow> nat" where
  "hex_value s = foldl (\<lambda>a c. 16 * a + the (hex_digit_val c)) 0 s"

fun ipv6_loop :: "nat \<Rightarrow> nat list \<Rightarrow> nat option \<Rightarrow> string \<Rightarrow> (nat list \<times> nat option \<times> string) option" where
  "ipv6_loop 0 bs ell s = (if s = '''' then Some (bs, ell, s) else if length bs < 16 then None else Some (bs, ell, s))"
| "ipv6_loop (Suc fuel) bs ell s =
     (if length bs \<ge> 16 then Some (bs, ell, s)
      else
        (let (g, rest) = hex_group s
         in if length g = 0 \<or> length g > 4 then None
            else if rest \<noteq> '''' \<and> hd rest = CHR ''.''
            then (if (ell = None \<and> length bs \<noteq> 12) \<or> length bs + 4 > 16 then None
                  else case parseIPv4 s of None \<Rightarrow> None | Some v4 \<Rightarrow> Some (bs @ v4, ell, ''''))
            else
              (let bs' = bs @ [hex_value g div 256, hex_value g mod 256]
               in if rest = '''' then Some (bs', ell, '''')
                  else if hd rest \<noteq> CHR '':'' \<or> length rest = 1 then None
                  else (let r1 = tl rest
                        in if hd r1 = CHR '':''
                           then (if ell \<noteq> None then None
                                 else if tl r1 = '''' then Some (bs', Some (length bs'), '''') else ipv6_loop fuel bs' (Some (length bs')) (tl r1))
                           else ipv6_loop fuel bs' ell r1))))"

definition parseIPv6 :: "string \<Rightarrow> nat list option" where
  "parseIPv6 s =
     (let dbl = has_prefix s ''::''; s0 = (if dbl then drop 2 s else s); ell0 = (if dbl then Some 0 else None)
      in if dbl \<and> s0 = '''' then Some (replicate 16 0)
         else case ipv6_loop 16 [] ell0 s0 of
           None \<Rightarrow> None
         | Some (bs, ell, rest) \<Rightarrow>
             if rest \<noteq> '''' then None
             else if length bs < 16
             then (case ell of None \<Rightarrow> None | Some e \<Rightarrow> Some (take e bs @ replicate (16 - length bs) 0 @ drop e bs))
             else if ell \<noteq> None then None else Some bs)"

text \<open>\<^verbatim>\<open>netip.ParseAddr\<close>: the bytes, whether the text is an IPv4 address, and the zone.\<close>

definition ParseAddr :: "string \<Rightarrow> (nat list \<times> bool \<times> string) option" where
  "ParseAddr s =
     (case find (\<lambda>c. c \<in> set ''.:%'') s of
        None \<Rightarrow> None
      | Some c \<Rightarrow>
          if c = CHR ''.'' then map_option (\<lambda>v4. (v4_prefix @ v4, True, '''')) (parseIPv4 s)
          else if c = CHR ''%'' then None
          else (let (addr, zone, found) = cut CHR ''%'' s
                in if found \<and> zone = '''' then None else map_option (\<lambda>ip. (ip, False, zone)) (parseIPv6 addr)))"

definition ParseIP :: "string \<Rightarrow> nat list option" where
  "ParseIP s = (case ParseAddr s of Some (ip, _, zone) \<Rightarrow> if zone = '''' then Some ip else None | None \<Rightarrow> None)"

definition is_v4 :: "nat list \<Rightarrow> bool" where
  "is_v4 ip = (take 12 ip = v4_prefix)"

definition IsLoopback :: "nat list \<Rightarrow> bool" where
  "IsLoopback ip = (if is_v4 ip then ip ! 12 = 127 else ip = replicate 15 0 @ [1])"

definition IsPrivate :: "nat list \<Rightarrow> bool" where
  "IsPrivate ip =
     (if is_v4 ip then ip ! 12 = 10 \<or> (ip ! 12 = 172 \<and> ip ! 13 div 16 = 1) \<or> (ip ! 12 = 192 \<and> ip ! 13 = 168)
      else ip ! 0 div 2 = 126)"

definition IsLinkLocalUnicast :: "nat list \<Rightarrow> bool" where
  "IsLinkLocalUnicast ip = (if is_v4 ip then ip ! 12 = 169 \<and> ip ! 13 = 254 else ip ! 0 = 254 \<and> ip ! 1 div 64 = 2)"

definition IsLinkLocalMulticast :: "nat list \<Rightarrow> bool" where
  "IsLinkLocalMulticast ip =
     (if is_v4 ip then ip ! 12 = 224 \<and> ip ! 13 = 0 \<and> ip ! 14 = 0 else ip ! 0 = 255 \<and> ip ! 1 mod 16 = 2)"

definition IsUnspecified :: "nat list \<Rightarrow> bool" where
  "IsUnspecified ip = (ip = v4_prefix @ [0, 0, 0, 0] \<or> ip = replicate 16 0)"

subsection \<open>URLs\<close>

datatype escape_mode = EncPath | EncFragment | EncUser | EncHost | EncZone

definition host_ok :: "char \<Rightarrow> bool" where
  "host_ok c \<longleftrightarrow> alpha c \<or> is_digit c \<or> c \<in> set ''!$&()*+,;=:[]<>-_.~'' \<or> code c = 39 \<or> code c = 34"

text \<open>\<^verbatim>\<open>unescape\<close>: \<open>None\<close> for an invalid escape or a byte that a host may not have.\<close>

fun unescape_url :: "escape_mode \<Rightarrow> string \<Rightarrow> string option" where
  "unescape_url mode [] = Some []"
| "unescape_url mode (c # s) =
     (if c = CHR ''%''
      then (case s of
              a # b # s' \<Rightarrow>
                (case (hex_digit_val a, hex_digit_val b) of
                   (Some x, Some y) \<Rightarrow>
                     (let v = char_of (16 * x + y) :: char; pct = (x = 2 \<and> y = 5)
                      in if mode = EncHost \<and> x < 8 \<and> \<not> pct then None
                         else if mode = EncZone \<and> \<not> pct \<and> v \<noteq> CHR '' '' \<and> \<not> host_ok v then None
                         else map_option (Cons v) (unescape_url mode s'))
                 | _ \<Rightarrow> None)
            | _ \<Rightarrow> None)
      else if mode \<in> {EncHost, EncZone} \<and> code c < 128 \<and> \<not> host_ok c then None
      else map_option (Cons c) (unescape_url mode s))"

fun getScheme_from :: "string \<Rightarrow> string \<Rightarrow> (string \<times> string) option option" where
  "getScheme_from seen [] = Some None"
| "getScheme_from seen (c # s) =
     (if alpha c then getScheme_from (seen @ [c]) s
      else if is_digit c \<or> c \<in> set ''+-.'' then (if seen = '''' then Some None else getScheme_from (seen @ [c]) s)
      else if c = CHR '':'' then (if seen = '''' then None else Some (Some (seen, s)))
      else Some None)"

text \<open>The scheme (empty when there is none) and the rest; \<open>None\<close> is a missing scheme before a colon.\<close>

definition getScheme :: "string \<Rightarrow> (string \<times> string) option" where
  "getScheme raw = (case getScheme_from '''' raw of None \<Rightarrow> None | Some None \<Rightarrow> Some ('''', raw) | Some (Some p) \<Rightarrow> Some p)"

definition validOptionalPort :: "string \<Rightarrow> bool" where
  "validOptionalPort port = (port = '''' \<or> (hd port = CHR '':'' \<and> list_all is_digit (tl port)))"

text \<open>
  A bracketed host is an IPv6 address, perhaps with a zone; any other host has at most one colon, before the port.
\<close>

definition bracketed_name :: "string \<Rightarrow> string option" where
  "bracketed_name hostname =
     (case index_text ''%25'' hostname of
        None \<Rightarrow> unescape_url EncHost hostname
      | Some z \<Rightarrow>
          (case (unescape_url EncHost (take z hostname), unescape_url EncZone (drop z hostname)) of
             (Some h, Some zone) \<Rightarrow> Some (h @ zone)
           | _ \<Rightarrow> None))"

definition parseHost :: "string \<Rightarrow> string option" where
  "parseHost host =
     (if CHR ''['' \<in> set (tl host) then None
      else if has_prefix host ''[''
      then (case last_index CHR '']'' (tl host) of
              None \<Rightarrow> None
            | Some (hostname, colonPort) \<Rightarrow>
                if \<not> validOptionalPort colonPort then None
                else (case (unescape_url EncHost colonPort, bracketed_name hostname) of
                        (Some port, Some h) \<Rightarrow>
                          (case ParseAddr h of
                             Some (ip, False, zone) \<Rightarrow> Some (''['' @ h @ '']'' @ port)
                           | _ \<Rightarrow> None)
                      | _ \<Rightarrow> None))
      else if validOptionalPort (dropWhile (\<lambda>c. c \<noteq> CHR '':'') host) then unescape_url EncHost host
      else None)"

definition validUserinfo :: "string \<Rightarrow> bool" where
  "validUserinfo s = list_all (\<lambda>c. alpha c \<or> is_digit c \<or> c \<in> set ''-._:~!$&()*+,;=%@'' \<or> code c = 39) s"

definition parseAuthority :: "string \<Rightarrow> string option" where
  "parseAuthority authority =
     (case last_index CHR ''@'' authority of
        None \<Rightarrow> parseHost authority
      | Some (userinfo, h) \<Rightarrow>
          (case parseHost h of
             None \<Rightarrow> None
           | Some host \<Rightarrow>
               if validUserinfo userinfo \<and> list_all (\<lambda>p. unescape_url EncUser p \<noteq> None) (let (u, p, found) = cut CHR '':'' userinfo in [u, p])
               then Some host else None))"

record URL =
  Scheme :: string
  Host :: string

definition url_Parse :: "string \<Rightarrow> URL option" where
  "url_Parse raw =
     (let (u, frag, _) = cut CHR ''#'' raw
      in if list_ex (\<lambda>c. code c < 32 \<or> code c = 127) u \<or> unescape_url EncFragment frag = None then None
         else case getScheme u of
           None \<Rightarrow> None
         | Some (scheme0, rest0) \<Rightarrow>
             (let scheme = to_lower scheme0; rest = fst (cut CHR ''?'' rest0)
              in if \<not> has_prefix rest ''/'' \<and> scheme \<noteq> '''' then Some \<lparr>Scheme = scheme, Host = ''''\<rparr>
                 else if \<not> has_prefix rest ''/'' \<and> CHR '':'' \<in> set (fst (cut CHR ''/'' rest)) then None
                 else if (scheme \<noteq> '''' \<or> \<not> has_prefix rest ''///'') \<and> has_prefix rest ''//''
                 then (let auth_path = drop 2 rest; authority = takeWhile (\<lambda>c. c \<noteq> CHR ''/'') auth_path; path = dropWhile (\<lambda>c. c \<noteq> CHR ''/'') auth_path
                       in case parseAuthority authority of
                            None \<Rightarrow> None
                          | Some host \<Rightarrow> if unescape_url EncPath path = None then None else Some \<lparr>Scheme = scheme, Host = host\<rparr>)
                 else if unescape_url EncPath rest = None then None else Some \<lparr>Scheme = scheme, Host = ''''\<rparr>))"

definition Hostname :: "URL \<Rightarrow> string" where
  "Hostname u =
     (let h = (case last_index CHR '':'' (Host u) of
                 Some (a, b) \<Rightarrow> if list_all is_digit b then a else Host u
               | None \<Rightarrow> Host u)
      in if has_prefix h ''['' \<and> has_suffix h '']'' then butlast (tl h) else h)"

subsection \<open>The policy\<close>

definition Denied :: "string \<Rightarrow> bool \<times> string" where
  "Denied rawURL =
     (let lower = to_lower (trim_space rawURL)
      in if has_prefix lower ''data:'' then (False, '''')
         else case url_Parse rawURL of
           None \<Rightarrow> (True, ''unparseable URL'')
         | Some u \<Rightarrow>
             if Scheme u \<noteq> ''http'' \<and> Scheme u \<noteq> ''https'' then (True, ''scheme '' @ Scheme u)
             else
               (let host = to_lower (Hostname u)
                in if host = '''' then (True, ''empty host'')
                   else if host = ''localhost'' \<or> has_suffix host ''.localhost'' then (True, ''loopback host'')
                   else case ParseIP host of
                     Some ip \<Rightarrow>
                       if IsLoopback ip \<or> IsPrivate ip \<or> IsLinkLocalUnicast ip \<or> IsLinkLocalMulticast ip \<or> IsUnspecified ip
                       then (True, ''private address '' @ host) else (False, '''')
                   | None \<Rightarrow> if \<not> contains host ''.'' then (True, ''single-label host '' @ host) else (False, '''')))"

subsection \<open>Regular expressions\<close>

text \<open>
  The constructs of the pattern: \<open>Lit\<close> a character (escaped where it is special), \<open>Class\<close> a bracket class of ranges
  with its negation, \<open>Grp\<close> a group \<^verbatim>\<open>(?:...)\<close>. The classes of the pattern are ASCII or, when negated, repeated, so that
  matching bytes is matching runes.
\<close>

datatype regex =
    Lit char
  | Class bool "(char \<times> char) list"
  | Bol
  | Eol
  | Cat regex regex
  | Alt regex regex
  | Grp regex
  | Opt regex
  | Many regex
  | Some1 regex
  | Rep regex nat

definition in_class :: "bool \<Rightarrow> (char \<times> char) list \<Rightarrow> char \<Rightarrow> bool" where
  "in_class neg rs c = (neg \<noteq> list_ex (\<lambda>(a, b). code a \<le> code c \<and> code c \<le> code b) rs)"

definition quoted :: "char set \<Rightarrow> char \<Rightarrow> string" where
  "quoted special c = (if c \<in> special then [CHR 0x5C, c] else [c])"

fun regex_text :: "regex \<Rightarrow> string" where
  "regex_text (Lit c) = quoted {CHR ''.'', CHR ''['', CHR '']''} c"
| "regex_text (Class neg rs) =
     ''['' @ (if neg then ''^'' else '''') @ concat (map (\<lambda>(a, b). if a = b then quoted {CHR '']''} a else [a, CHR ''-'', b]) rs) @ '']''"
| "regex_text Bol = ''^''"
| "regex_text Eol = ''$''"
| "regex_text (Cat r s) = regex_text r @ regex_text s"
| "regex_text (Alt r s) = regex_text r @ ''|'' @ regex_text s"
| "regex_text (Grp r) = ''(?:'' @ regex_text r @ '')''"
| "regex_text (Opt r) = regex_text r @ ''?''"
| "regex_text (Many r) = regex_text r @ ''*''"
| "regex_text (Some1 r) = regex_text r @ ''+''"
| "regex_text (Rep r n) = regex_text r @ ''{'' @ utoa n @ ''}''"

text \<open>The core the matcher works on; an anchor matches the empty text at its place.\<close>

datatype rx =
    Zero
  | One
  | Begin
  | End
  | Sym bool "(char \<times> char) list"
  | Seq rx rx
  | Or rx rx
  | Star rx

fun core :: "regex \<Rightarrow> rx" where
  "core (Lit c) = Sym False [(c, c)]"
| "core (Class neg rs) = Sym neg rs"
| "core Bol = Begin"
| "core Eol = End"
| "core (Cat r s) = Seq (core r) (core s)"
| "core (Alt r s) = Or (core r) (core s)"
| "core (Grp r) = core r"
| "core (Opt r) = Or (core r) One"
| "core (Many r) = Star (core r)"
| "core (Some1 r) = Seq (core r) (Star (core r))"
| "core (Rep r n) = ((Seq (core r)) ^^ n) One"

text \<open>
  \<^verbatim>\<open>regexp.MatchString\<close> by derivatives: \<open>b\<close> says that the place is the begin of the text, \<open>e\<close> that it is its end.
\<close>

fun rx_null :: "bool \<Rightarrow> bool \<Rightarrow> rx \<Rightarrow> bool" where
  "rx_null b e Zero = False"
| "rx_null b e One = True"
| "rx_null b e Begin = b"
| "rx_null b e End = e"
| "rx_null b e (Sym neg rs) = False"
| "rx_null b e (Seq r s) = (rx_null b e r \<and> rx_null b e s)"
| "rx_null b e (Or r s) = (rx_null b e r \<or> rx_null b e s)"
| "rx_null b e (Star r) = True"

definition mk_seq :: "rx \<Rightarrow> rx \<Rightarrow> rx" where
  "mk_seq r s = (if r = Zero then Zero else if r = One then s else Seq r s)"

definition mk_or :: "rx \<Rightarrow> rx \<Rightarrow> rx" where
  "mk_or r s = (if r = Zero then s else if s = Zero then r else Or r s)"

fun rx_deriv :: "bool \<Rightarrow> char \<Rightarrow> rx \<Rightarrow> rx" where
  "rx_deriv b c Zero = Zero"
| "rx_deriv b c One = Zero"
| "rx_deriv b c Begin = Zero"
| "rx_deriv b c End = Zero"
| "rx_deriv b c (Sym neg rs) = (if in_class neg rs c then One else Zero)"
| "rx_deriv b c (Seq r s) = mk_or (mk_seq (rx_deriv b c r) s) (if rx_null b False r then rx_deriv b c s else Zero)"
| "rx_deriv b c (Or r s) = mk_or (rx_deriv b c r) (rx_deriv b c s)"
| "rx_deriv b c (Star r) = mk_seq (rx_deriv b c r) (Star r)"

fun match_from :: "bool \<Rightarrow> rx \<Rightarrow> string \<Rightarrow> bool" where
  "match_from b r [] = rx_null b True r"
| "match_from b r (c # s) = (rx_null b False r \<or> match_from False (rx_deriv b c r) s)"

fun rx_search :: "bool \<Rightarrow> rx \<Rightarrow> string \<Rightarrow> bool" where
  "rx_search b r [] = match_from b r []"
| "rx_search b r (c # s) = (match_from b r (c # s) \<or> rx_search False r s)"

definition MatchString :: "regex \<Rightarrow> string \<Rightarrow> bool" where
  "MatchString r s = rx_search True (core r) s"

subsection \<open>The deny list of Chromium\<close>

text \<open>The text of the constant; a backslash, which has no literal, is written as a back quote, which the text has not.\<close>

definition backslashed :: "string \<Rightarrow> string" where
  "backslashed s = map (\<lambda>c. if c = CHR ''`'' then CHR 0x5C else c) s"

definition ChromiumDenyListRegex :: string where
  "ChromiumDenyListRegex = backslashed (
     ''^https?://(?:[^@/]*@)?(?:'' @
     ''localhost|'' @
     ''[^/:.]+|'' @
     ''[^/:]*`.localhost|'' @
     ''127`.[0-9.]+|'' @
     ''0`.0`.0`.0|'' @
     ''10`.[0-9.]+|'' @
     ''192`.168`.[0-9.]+|'' @
     ''172`.(?:1[6-9]|2[0-9]|3[01])`.[0-9.]+|'' @
     ''169`.254`.[0-9.]+|'' @
     ''`[::1`]|'' @
     ''`[[fF][cdCD][0-9a-fA-F]{2}:[^`]]*`]|'' @
     ''`[[fF][eE][89abAB][0-9a-fA-F]:[^`]]*`]'' @
     '')(?::[0-9]+)?(?:[/?#]|$)'')"

text \<open>Its syntax tree (\<open>deny_tree_text\<close> below shows that it is the tree of this text).\<close>

fun lits :: "string \<Rightarrow> regex \<Rightarrow> regex" where
  "lits [] r = r"
| "lits (c # s) r = Cat (Lit c) (lits s r)"

fun word :: "string \<Rightarrow> regex" where
  "word [] = Class True []"
| "word [c] = Lit c"
| "word (c # d # s) = Cat (Lit c) (word (d # s))"

definition chars_of :: "string \<Rightarrow> (char \<times> char) list" where
  "chars_of s = map (\<lambda>c. (c, c)) s"

definition digits_dots :: regex where
  "digits_dots = Some1 (Class False [(CHR ''0'', CHR ''9''), (CHR ''.'', CHR ''.'')])"

definition teens :: regex where
  "teens =
     Grp (Alt (Cat (Lit CHR ''1'') (Class False [(CHR ''6'', CHR ''9'')]))
         (Alt (Cat (Lit CHR ''2'') (Class False [(CHR ''0'', CHR ''9'')])) (Cat (Lit CHR ''3'') (Class False (chars_of ''01'')))))"

definition hex_class :: regex where
  "hex_class = Class False [(CHR ''0'', CHR ''9''), (CHR ''a'', CHR ''f''), (CHR ''A'', CHR ''F'')]"

definition to_bracket :: regex where
  "to_bracket = Cat (Many (Class True [(CHR '']'', CHR '']'')])) (Lit CHR '']'')"

definition deny_hosts :: "regex list" where
  "deny_hosts =
     [word ''localhost'',
      Some1 (Class True (chars_of ''/:.'')),
      Cat (Many (Class True (chars_of ''/:''))) (word ''.localhost''),
      lits ''127.'' digits_dots,
      word ''0.0.0.0'',
      lits ''10.'' digits_dots,
      lits ''192.168.'' digits_dots,
      lits ''172.'' (Cat teens (Cat (Lit CHR ''.'') digits_dots)),
      lits ''169.254.'' digits_dots,
      word ''[::1]'',
      lits ''['' (Cat (Class False (chars_of ''fF'')) (Cat (Class False (chars_of ''cdCD'')) (Cat (Rep hex_class 2) (Cat (Lit CHR '':'') to_bracket)))),
      lits ''[''
        (Cat (Class False (chars_of ''fF'')) (Cat (Class False (chars_of ''eE''))
          (Cat (Class False (chars_of ''89abAB'')) (Cat hex_class (Cat (Lit CHR '':'') to_bracket)))))]"

fun alts :: "regex list \<Rightarrow> regex" where
  "alts [] = Class False []"
| "alts [r] = r"
| "alts (r # s # rs) = Alt r (alts (s # rs))"

definition deny_tree :: regex where
  "deny_tree =
     Cat Bol (lits ''http'' (Cat (Opt (Lit CHR ''s'')) (lits ''://''
       (Cat (Opt (Grp (Cat (Many (Class True (chars_of ''@/''))) (Lit CHR ''@''))))
       (Cat (Grp (alts deny_hosts))
       (Cat (Opt (Grp (Cat (Lit CHR '':'') (Some1 (Class False [(CHR ''0'', CHR ''9'')])))))
            (Grp (Alt (Class False (chars_of ''/?#'')) Eol))))))))"

section \<open>Lemmas\<close>

lemma deny_tree_text: "regex_text deny_tree = ChromiumDenyListRegex"
  by code_simp


subsection \<open>The matcher decides the meaning of a pattern\<close>

lemma ex_list: "(\<exists>xs. P xs) \<longleftrightarrow> P [] \<or> (\<exists>x xs. P (x # xs))"
  by (metis list.exhaust)

text \<open>\<open>matches r u w v\<close>: in the text \<open>u @ w @ v\<close> the pattern matches the part \<open>w\<close>.\<close>

inductive matches :: "rx \<Rightarrow> string \<Rightarrow> string \<Rightarrow> string \<Rightarrow> bool" where
  one: "matches One u [] v"
| begin_text: "matches Begin [] [] v"
| end_text: "matches End u [] []"
| sym: "in_class neg rs c \<Longrightarrow> matches (Sym neg rs) u [c] v"
| seq: "matches r u w1 (w2 @ v) \<Longrightarrow> matches s (u @ w1) w2 v \<Longrightarrow> matches (Seq r s) u (w1 @ w2) v"
| or1: "matches r u w v \<Longrightarrow> matches (Or r s) u w v"
| or2: "matches s u w v \<Longrightarrow> matches (Or r s) u w v"
| star0: "matches (Star r) u [] v"
| star1: "matches r u w1 (w2 @ v) \<Longrightarrow> matches (Star r) (u @ w1) w2 v \<Longrightarrow> matches (Star r) u (w1 @ w2) v"

inductive_simps matches_simps:
  "matches Zero u w v" "matches One u w v" "matches Begin u w v" "matches End u w v" "matches (Sym neg rs) u w v"
  "matches (Seq r s) u w v" "matches (Or r s) u w v"

lemmas match_simps = matches_simps(1-5,7)

lemma matches_mk_or: "matches (mk_or r s) u w v \<longleftrightarrow> matches (Or r s) u w v"
  by (auto simp: mk_or_def match_simps)

lemma matches_mk_seq: "matches (mk_seq r s) u w v \<longleftrightarrow> matches (Seq r s) u w v"
  by (auto simp: mk_seq_def matches_simps)

lemma null_matches: "rx_null (u = []) (v = []) r \<longleftrightarrow> matches r u [] v"
  by (induction r) (auto simp: matches_simps intro: star0)

lemma star_cons: "matches r' u w v \<Longrightarrow> r' = Star r \<Longrightarrow> w = c # x \<Longrightarrow> \<exists>w1 w2. x = w1 @ w2 \<and> matches r u (c # w1) (w2 @ v) \<and> matches (Star r) (u @ c # w1) w2 v"
proof (induction arbitrary: c x rule: matches.induct)
  case (star1 r0 u w1 w2 v)
  then show ?case by (cases w1) auto
qed auto

lemma matches_star_Cons:
  "matches (Star r) u (c # x) v \<longleftrightarrow> (\<exists>w1 w2. x = w1 @ w2 \<and> matches r u (c # w1) (w2 @ v) \<and> matches (Star r) (u @ c # w1) w2 v)"
  using star_cons star1 [of r u "c # _"] by fastforce

lemma matches_seq_Cons:
  "matches (Seq r s) u (c # w) v \<longleftrightarrow>
     (\<exists>w1 w2. w = w1 @ w2 \<and> matches r u (c # w1) (w2 @ v) \<and> matches s (u @ c # w1) w2 v) \<or> matches r u [] (c # w @ v) \<and> matches s u (c # w) v"
proof -
  have "matches (Seq r s) u (c # w) v \<longleftrightarrow> (\<exists>w1 w2. c # w = w1 @ w2 \<and> matches r u w1 (w2 @ v) \<and> matches s (u @ w1) w2 v)"
    by (simp only: matches_simps)
  then show ?thesis by (subst (asm) ex_list) auto
qed

lemma deriv_matches: "matches (rx_deriv (u = []) c r) (u @ [c]) w v \<longleftrightarrow> matches r u (c # w) v"
proof (induction r arbitrary: w v)
  case (Seq r s)
  have "rx_null (u = []) False r \<longleftrightarrow> matches r u [] (c # w @ v)" using null_matches [of u "c # w @ v" r] by simp
  then have "matches (rx_deriv (u = []) c (rx.Seq r s)) (u @ [c]) w v \<longleftrightarrow>
      matches (rx.Seq (rx_deriv (u = []) c r) s) (u @ [c]) w v \<or> matches r u [] (c # w @ v) \<and> matches s u (c # w) v"
    by (simp add: Seq match_simps matches_mk_or matches_mk_seq)
  then show ?case unfolding matches_seq_Cons by (simp add: matches_simps(6) Seq)
next
  case (Star r)
  then show ?case by (auto simp: matches_mk_seq matches_simps matches_star_Cons)
qed (auto simp: match_simps matches_mk_or)

lemma match_from_matches: "match_from (u = []) r s \<longleftrightarrow> (\<exists>w v. s = w @ v \<and> matches r u w v)"
proof (induction s arbitrary: u r)
  case Nil
  then show ?case using null_matches [of u "[]" r] by simp
next
  case (Cons c s)
  have "match_from False (rx_deriv (u = []) c r) s \<longleftrightarrow> (\<exists>w v. s = w @ v \<and> matches r u (c # w) v)"
    using Cons.IH [of "u @ [c]" "rx_deriv (u = []) c r"] by (simp add: deriv_matches)
  moreover have "rx_null (u = []) False r \<longleftrightarrow> matches r u [] (c # s)" using null_matches [of u "c # s" r] by simp
  ultimately show ?case by (simp add: Cons_eq_append_conv) blast
qed

lemma rx_search_matches: "rx_search (u = []) r s \<longleftrightarrow> (\<exists>u' w v. s = u' @ w @ v \<and> matches r (u @ u') w v)"
proof (induction s arbitrary: u)
  case Nil
  then show ?case using match_from_matches [of u r "[]"] by simp
next
  case (Cons c s)
  have "rx_search (u = []) r (c # s) \<longleftrightarrow> match_from (u = []) r (c # s) \<or> rx_search (u @ [c] = []) r s" by simp
  also have "\<dots> \<longleftrightarrow> (\<exists>w v. c # s = w @ v \<and> matches r u w v) \<or> (\<exists>u' w v. s = u' @ w @ v \<and> matches r (u @ c # u') w v)"
    by (simp only: match_from_matches Cons.IH) simp
  also have "\<dots> \<longleftrightarrow> (\<exists>u' w v. c # s = u' @ w @ v \<and> matches r (u @ u') w v)"
    by (subst (2) ex_list) auto
  finally show ?case .
qed

lemma MatchString_iff: "MatchString r s \<longleftrightarrow> (\<exists>u w v. s = u @ w @ v \<and> matches (core r) u w v)"
  using rx_search_matches [of "[]" "core r" s] by (simp add: MatchString_def)

subsection \<open>The texts the deny list matches\<close>

lemma code_inject [simp]: "code c = code d \<longleftrightarrow> c = d"
  by (simp add: code_def)

lemma in_class_single [simp]: "in_class False [(c, c)] d \<longleftrightarrow> d = c"
  using code_inject [of c d] by (auto simp: in_class_def)

lemma in_class_chars [simp]: "in_class neg (chars_of s) c \<longleftrightarrow> neg \<noteq> (c \<in> set s)"
proof -
  have "list_ex (\<lambda>(a, b). code a \<le> code c \<and> code c \<le> code b) (chars_of s) \<longleftrightarrow> c \<in> set s"
    using code_inject [of _ c] by (auto simp: chars_of_def list_ex_iff)
  then show ?thesis by (simp add: in_class_def)
qed

lemma matches_many_aux: "matches r' u w v \<Longrightarrow> r' = Star (Sym neg rs) \<Longrightarrow> list_all (in_class neg rs) w"
  by (induction rule: matches.induct) (auto simp: match_simps)

lemma matches_many [simp]: "matches (Star (Sym neg rs)) u w v \<longleftrightarrow> list_all (in_class neg rs) w"
proof
  assume "list_all (in_class neg rs) w"
  then show "matches (Star (Sym neg rs)) u w v"
  proof (induction w arbitrary: u)
    case (Cons c w)
    then show ?case using star1 [of "Sym neg rs" u "[c]" w v] by (auto intro: sym)
  qed (simp add: star0)
qed (use matches_many_aux in blast)

lemma matches_some: "matches (core (Some1 (Class neg rs))) u w v \<longleftrightarrow> w \<noteq> [] \<and> list_all (in_class neg rs) w"
  by (cases w) (simp_all add: matches_seq_Cons match_simps, simp add: matches_simps(6) match_simps)

lemma matches_lits: "matches (core (lits s r)) u w v \<longleftrightarrow> (\<exists>x. w = s @ x \<and> matches (core r) (u @ s) x v)"
  by (induction s arbitrary: u w) (auto simp: matches_simps)

lemma matches_word: "s \<noteq> [] \<Longrightarrow> matches (core (word s)) u w v \<longleftrightarrow> w = s"
  by (induction s arbitrary: u w rule: word.induct) (auto simp: matches_simps)

lemma matches_alts: "rs \<noteq> [] \<Longrightarrow> matches (core (alts rs)) u w v \<longleftrightarrow> (\<exists>r \<in> set rs. matches (core r) u w v)"
  by (induction rs rule: alts.induct) (auto simp: match_simps)

definition dotted_tail :: "string \<Rightarrow> string \<Rightarrow> bool" where
  "dotted_tail p w \<longleftrightarrow> (\<exists>x. w = p @ x \<and> x \<noteq> [] \<and> list_all (\<lambda>c. is_digit c \<or> c = CHR ''.'') x)"

lemma matches_dotted: "matches (core (lits p digits_dots)) u w v \<longleftrightarrow> dotted_tail p w"
proof -
  have "in_class False [(CHR ''0'', CHR ''9''), (CHR ''.'', CHR ''.'')] = (\<lambda>c. is_digit c \<or> c = CHR ''.'')"
  proof (rule ext)
    fix c
    have "code CHR ''.'' = 46" "code CHR ''0'' = 48" "code CHR ''9'' = 57" by (simp_all add: code_def)
    moreover have "(46 \<le> code c \<and> code c \<le> 46) = (c = CHR ''.'')" using code_inject [of c "CHR ''.''"] by (simp add: code_def) linarith
    ultimately show "in_class False [(CHR ''0'', CHR ''9''), (CHR ''.'', CHR ''.'')] c = (is_digit c \<or> c = CHR ''.'')"
      by (simp add: in_class_def is_digit_def less_Suc_eq_le [symmetric] flip: code_def)
  qed
  then show ?thesis by (simp add: matches_lits digits_dots_def matches_some dotted_tail_def del: core.simps)
qed

text \<open>The hosts the pattern denies, without those in brackets.\<close>

definition deny_host :: "string \<Rightarrow> bool" where
  "deny_host w \<longleftrightarrow>
     w = ''localhost'' \<or> (w \<noteq> [] \<and> list_all (\<lambda>c. c \<notin> set ''/:.'') w) \<or> (\<exists>x. w = x @ ''.localhost'' \<and> list_all (\<lambda>c. c \<notin> set ''/:'') x) \<or>
     dotted_tail ''127.'' w \<or> w = ''0.0.0.0'' \<or> dotted_tail ''10.'' w \<or> dotted_tail ''192.168.'' w \<or>
     (\<exists>n. 16 \<le> n \<and> n \<le> 31 \<and> dotted_tail (''172.'' @ utoa n @ ''.'') w) \<or> dotted_tail ''169.254.'' w"

lemma in_class_digits: "i < 10 \<Longrightarrow> j < 10 \<Longrightarrow> in_class False [(digit_char i, digit_char j)] c \<longleftrightarrow> (\<exists>d. i \<le> d \<and> d \<le> j \<and> c = digit_char d)"
proof
  assume ij: "i < 10" "j < 10" and "in_class False [(digit_char i, digit_char j)] c"
  then have c: "48 + i \<le> code c" "code c \<le> 48 + j" by (simp_all add: in_class_def code_def digit_char_code)
  then have "c = digit_char (code c - 48)"
    using ij by (simp add: digit_char_def code_def)
  then show "\<exists>d. i \<le> d \<and> d \<le> j \<and> c = digit_char d" using c by (intro exI [of _ "code c - 48"]) auto
qed (auto simp: in_class_def code_def digit_char_code)

lemma matches_pair: "matches (Seq (Sym False [(a, a)]) (Sym False rs)) u x v \<longleftrightarrow> (\<exists>c. in_class False rs c \<and> x = [a, c])"
  by (simp add: matches_simps) blast

lemma matches_teens: "matches (core teens) u x v \<longleftrightarrow> (\<exists>n. 16 \<le> n \<and> n \<le> 31 \<and> x = utoa n)"
proof -
  have d: "CHR ''0'' = digit_char 0" "CHR ''1'' = digit_char 1" "CHR ''2'' = digit_char 2" "CHR ''3'' = digit_char 3" "CHR ''6'' = digit_char 6" "CHR ''9'' = digit_char 9"
    unfolding digit_char_def by code_simp+
  have r: "in_class False (chars_of ''01'') c \<longleftrightarrow> (\<exists>d. d \<le> 1 \<and> c = digit_char d)" for c
    by (auto simp: d le_Suc_eq)
  have "matches (core teens) u x v \<longleftrightarrow>
      (\<exists>a d. x = [digit_char a, digit_char d] \<and> (a = 1 \<and> 6 \<le> d \<and> d \<le> 9 \<or> a = 2 \<and> d \<le> 9 \<or> a = 3 \<and> d \<le> 1))"
    by (simp add: teens_def match_simps matches_pair r del: in_class_chars) (simp add: d in_class_digits, blast)
  also have "\<dots> \<longleftrightarrow> (\<exists>n. 16 \<le> n \<and> n \<le> 31 \<and> x = utoa n)"
  proof
    assume "\<exists>a d. x = [digit_char a, digit_char d] \<and> (a = 1 \<and> 6 \<le> d \<and> d \<le> 9 \<or> a = 2 \<and> d \<le> 9 \<or> a = 3 \<and> d \<le> 1)"
    then obtain a d where x: "x = [digit_char a, digit_char d]" and "a = 1 \<and> 6 \<le> d \<and> d \<le> 9 \<or> a = 2 \<and> d \<le> 9 \<or> a = 3 \<and> d \<le> 1" by blast
    then have "16 \<le> 10 * a + d" "10 * a + d \<le> 31" "d < 10" by auto
    moreover from this have "utoa (10 * a + d) = x" using x utoa_two [of "10 * a + d"] by simp
    ultimately show "\<exists>n. 16 \<le> n \<and> n \<le> 31 \<and> x = utoa n" by blast
  next
    assume "\<exists>n. 16 \<le> n \<and> n \<le> 31 \<and> x = utoa n"
    then obtain n where n: "16 \<le> n" "n \<le> 31" "x = utoa n" by blast
    then have "x = [digit_char (n div 10), digit_char (n mod 10)]" using utoa_two [of n] by simp
    moreover have "n div 10 = 1 \<and> 6 \<le> n mod 10 \<and> n mod 10 \<le> 9 \<or> n div 10 = 2 \<and> n mod 10 \<le> 9 \<or> n div 10 = 3 \<and> n mod 10 \<le> 1"
    proof -
      consider "n div 10 = 1" "6 \<le> n mod 10" | "n div 10 = 2" | "n div 10 = 3" "n mod 10 \<le> 1"
        using n div_mult_mod_eq [of n 10] mod_less_divisor [of 10 n] by linarith
      then show ?thesis using mod_less_divisor [of 10 n] by cases auto
    qed
    ultimately show "\<exists>a d. x = [digit_char a, digit_char d] \<and> (a = 1 \<and> 6 \<le> d \<and> d \<le> 9 \<or> a = 2 \<and> d \<le> 9 \<or> a = 3 \<and> d \<le> 1)" by blast
  qed
  finally show ?thesis .
qed

lemma dotted_middle:
  "(\<exists>x. w = p @ x \<and> (\<exists>w1 w2. x = w1 @ w2 \<and> (\<exists>n. 16 \<le> n \<and> n \<le> 31 \<and> w1 = f n) \<and> dotted_tail q w2)) \<longleftrightarrow>
     (\<exists>n :: nat. 16 \<le> n \<and> n \<le> 31 \<and> dotted_tail (p @ f n @ q) w)"
  unfolding dotted_tail_def by (simp add: ex_simps [symmetric] del: ex_simps) blast

lemma deny_hosts_split:
  "(\<exists>r \<in> set deny_hosts. matches (core r) u w v) \<longleftrightarrow> deny_host w \<or> (\<exists>r \<in> set (drop 9 deny_hosts). matches (core r) u w v)"
proof -
  have 1: "matches (core (word ''localhost'')) u w v \<longleftrightarrow> w = ''localhost''" "matches (core (word ''0.0.0.0'')) u w v \<longleftrightarrow> w = ''0.0.0.0''"
    by (rule matches_word; simp)+
  have 2: "matches (core (Cat (Many (Class True (chars_of ''/:''))) (word ''.localhost''))) u w v \<longleftrightarrow>
      (\<exists>x. w = x @ ''.localhost'' \<and> list_all (\<lambda>c. c \<notin> set ''/:'') x)"
    by (simp add: matches_simps(6) matches_word del: word.simps) (auto simp: list_all_iff)
  have 3: "matches (core (Some1 (Class True (chars_of ''/:.'')))) u w v \<longleftrightarrow> w \<noteq> [] \<and> list_all (\<lambda>c. c \<notin> set ''/:.'') w"
    by (simp only: matches_some) (auto simp: list_all_iff)
  have 4: "matches (core (lits ''172.'' (Cat teens (Cat (Lit CHR ''.'') digits_dots)))) u w v \<longleftrightarrow>
      (\<exists>n. 16 \<le> n \<and> n \<le> 31 \<and> dotted_tail (''172.'' @ utoa n @ ''.'') w)"
  proof -
    have "Cat (Lit CHR ''.'') digits_dots = lits ''.'' digits_dots" by simp
    then show ?thesis
      by (simp only: matches_lits [of "''172.''"] core.simps(5) matches_simps(6) matches_teens matches_dotted dotted_middle)
  qed
  have split9: "(\<exists>r \<in> set deny_hosts. P r) \<longleftrightarrow> P (deny_hosts ! 0) \<or> P (deny_hosts ! 1) \<or> P (deny_hosts ! 2) \<or> P (deny_hosts ! 3) \<or> P (deny_hosts ! 4) \<or>
      P (deny_hosts ! 5) \<or> P (deny_hosts ! 6) \<or> P (deny_hosts ! 7) \<or> P (deny_hosts ! 8) \<or> (\<exists>r \<in> set (drop 9 deny_hosts). P r)" for P
    by (simp add: deny_hosts_def del: word.simps lits.simps)
  have "(\<exists>r \<in> set deny_hosts. matches (core r) u w v) \<longleftrightarrow> 
     w = ''localhost'' \<or> (w \<noteq> [] \<and> list_all (\<lambda>c. c \<notin> set ''/:.'') w) \<or> (\<exists>x. w = x @ ''.localhost'' \<and> list_all (\<lambda>c. c \<notin> set ''/:'') x) \<or>
     dotted_tail ''127.'' w \<or> w = ''0.0.0.0'' \<or> dotted_tail ''10.'' w \<or> dotted_tail ''192.168.'' w \<or>
     (\<exists>n. 16 \<le> n \<and> n \<le> 31 \<and> dotted_tail (''172.'' @ utoa n @ ''.'') w) \<or> dotted_tail ''169.254.'' w \<or> (\<exists>r \<in> set (drop 9 deny_hosts). matches (core r) u w v)"
    unfolding split9 [of "\<lambda>r. matches (core r) u w v"]
    by (simp add: deny_hosts_def 1 2 3 4 matches_dotted del: word.simps lits.simps core.simps)
  then show ?thesis unfolding deny_host_def by (simp only: disj_assoc)
qed

text \<open>Without anchors a match does not depend on what is around it.\<close>

fun anchor_free :: "rx \<Rightarrow> bool" where
  "anchor_free Begin = False"
| "anchor_free End = False"
| "anchor_free (Seq r s) = (anchor_free r \<and> anchor_free s)"
| "anchor_free (Or r s) = (anchor_free r \<and> anchor_free s)"
| "anchor_free (Star r) = anchor_free r"
| "anchor_free _ = True"

lemma matches_anywhere: "matches r u w v \<Longrightarrow> anchor_free r \<Longrightarrow> matches r u' w v'"
  by (induction arbitrary: u' v' rule: matches.induct) (auto intro: matches.intros)

definition bracket_host :: "string \<Rightarrow> bool" where
  "bracket_host w \<longleftrightarrow> (\<exists>r \<in> set (drop 9 deny_hosts). matches (core r) [] w [])"

lemma bracket_host_ctx: "(\<exists>r \<in> set (drop 9 deny_hosts). matches (core r) u w v) \<longleftrightarrow> bracket_host w"
proof -
  have "list_all (\<lambda>r. anchor_free (core r)) (drop 9 deny_hosts)" by code_simp
  then show ?thesis unfolding bracket_host_def list_all_iff using matches_anywhere by blast
qed

lemma bracket_host_hd: "bracket_host w \<Longrightarrow> \<exists>x. w = CHR ''['' # x"
proof -
  have 9: "drop 9 deny_hosts = [word ''[::1]'', deny_hosts ! 10, deny_hosts ! 11]" "deny_hosts ! 10 = lits ''['' (case deny_hosts ! 10 of Cat _ r \<Rightarrow> r)"
    "deny_hosts ! 11 = lits ''['' (case deny_hosts ! 11 of Cat _ r \<Rightarrow> r)" by code_simp+
  have "matches (core (lits ''['' r)) [] w [] \<Longrightarrow> \<exists>x. w = CHR ''['' # x" for r
    by (simp only: matches_lits append.simps) blast
  moreover assume "bracket_host w"
  then have "matches (core (word ''[::1]'')) [] w [] \<or> matches (core (deny_hosts ! 10)) [] w [] \<or> matches (core (deny_hosts ! 11)) [] w []"
    unfolding bracket_host_def 9(1) by (simp del: word.simps)
  ultimately show ?thesis using 9(2,3) matches_word [of "''[::1]''" "[]" w "[]"] by (metis list.distinct(1))
qed

lemma dotted_tail_chars: "dotted_tail p w \<Longrightarrow> c \<in> set w \<Longrightarrow> c \<in> set p \<or> is_digit c \<or> c = CHR ''.''"
  by (auto simp: dotted_tail_def list_all_iff)

lemma list_all_absent: "list_all P w \<Longrightarrow> \<not> P c \<Longrightarrow> c \<notin> set w"
  by (auto simp: list_all_iff)

lemma deny_host_no_slash:
  assumes "deny_host w"
  shows "CHR ''/'' \<notin> set w"
proof -
  have d: "\<not> is_digit CHR ''/''" by code_simp
  have nd: "CHR ''/'' \<notin> set w" if "dotted_tail p w" "CHR ''/'' \<notin> set p" for p
    using dotted_tail_chars [of p w "CHR ''/''"] that d by auto
  have u: "CHR ''/'' \<notin> set (utoa n)" for n using utoa_digits [of "CHR ''/''" n] d by auto
  show ?thesis
    using assms unfolding deny_host_def
    by (elim disjE exE conjE)
      (simp_all add: u nd [of "''127.''"] nd [of "''10.''"] nd [of "''192.168.''"] nd [of "''172.'' @ utoa _ @ ''.''"] nd [of "''169.254.''"] list_all_absent)
qed

lemma matches_opt: "matches (core (Opt r)) u w v \<longleftrightarrow> matches (core r) u w v \<or> w = []"
  by (auto simp: match_simps)

lemma matches_cat: "matches (core (Cat r s)) u w v \<longleftrightarrow> (\<exists>w1 w2. w = w1 @ w2 \<and> matches (core r) u w1 (w2 @ v) \<and> matches (core s) (u @ w1) w2 v)"
  by (simp add: matches_simps(6))

lemma matches_alt: "matches (core (Alt r s)) u w v \<longleftrightarrow> matches (core r) u w v \<or> matches (core s) u w v"
  by (simp add: match_simps)

lemma matches_bol: "matches (core (Cat Bol r)) u w v \<longleftrightarrow> u = [] \<and> matches (core r) u w v"
  by (auto simp: matches_simps)

lemma flat_match:
  "(\<exists>u w v. s = u @ w @ v \<and> u = [] \<and>
     (\<exists>x. w = a @ x \<and> (\<exists>w1 w2. x = w1 @ w2 \<and> A w1 \<and> (\<exists>x. w2 = b @ x \<and> (\<exists>w1 w2. x = w1 @ w2 \<and> B w1 \<and>
       (\<exists>w1 w2a. w2 = w1 @ w2a \<and> C w1 \<and> (\<exists>w1 w2. w2a = w1 @ w2 \<and> D w1 \<and> E w2 v))))))) \<longleftrightarrow>
     (\<exists>S U H P T v. s = a @ S @ b @ U @ H @ P @ T @ v \<and> A S \<and> B U \<and> C H \<and> D P \<and> E T v)"
  by (simp, safe; (intro exI conjI; (assumption | simp))?)

lemma deny_match_iff:
  "MatchString deny_tree s \<longleftrightarrow>
     (\<exists>S U H P T v. s = ''http'' @ S @ ''://'' @ U @ H @ P @ T @ v \<and> (S = ''s'' \<or> S = []) \<and>
        ((\<exists>x. U = x @ ''@'' \<and> list_all (\<lambda>c. c \<notin> set ''@/'') x) \<or> U = []) \<and> (deny_host H \<or> bracket_host H) \<and>
        ((\<exists>x. P = '':'' @ x \<and> x \<noteq> [] \<and> list_all (in_class False [(CHR ''0'', CHR ''9'')]) x) \<or> P = []) \<and>
        ((\<exists>c \<in> set ''/?#''. T = [c]) \<or> T = [] \<and> v = []))"
proof -
  have 1: "matches (core (Opt (Lit CHR ''s''))) u w v \<longleftrightarrow> w = ''s'' \<or> w = []" for u w v
    by (simp only: matches_opt core.simps match_simps) auto
  have 2: "matches (core (Opt (Grp (Cat (Many (Class True (chars_of ''@/''))) (Lit CHR ''@''))))) u w v \<longleftrightarrow>
      (\<exists>x. w = x @ ''@'' \<and> list_all (\<lambda>c. c \<notin> set ''@/'') x) \<or> w = []" for u w v
    by (simp only: matches_opt core.simps(7) matches_cat core.simps(1,2,9) matches_many matches_simps(5) in_class_chars in_class_single) (auto simp: list_all_iff)
  have 3: "matches (core (Grp (alts deny_hosts))) u w v \<longleftrightarrow> deny_host w \<or> bracket_host w" for u w v
    using matches_alts [of deny_hosts u w v] deny_hosts_split [of u w v] bracket_host_ctx [of u w v] by (simp add: deny_hosts_def)
  have 4: "matches (core (Opt (Grp (Cat (Lit CHR '':'') (Some1 (Class False [(CHR ''0'', CHR ''9'')])))))) u w v \<longleftrightarrow>
      (\<exists>x. w = '':'' @ x \<and> x \<noteq> [] \<and> list_all (in_class False [(CHR ''0'', CHR ''9'')]) x) \<or> w = []" for u w v
  proof -
    have "Cat (Lit CHR '':'') r = lits '':'' r" for r by simp
    then show ?thesis by (simp only: matches_opt core.simps(7) matches_lits matches_some)
  qed
  have 5: "matches (core (Grp (Alt (Class False (chars_of ''/?#'')) Eol))) u w v \<longleftrightarrow> (\<exists>c \<in> set ''/?#''. w = [c]) \<or> w = [] \<and> v = []" for u w v
    by (simp only: core.simps(7) matches_alt core.simps(2,4) match_simps in_class_chars) auto
  show ?thesis
    unfolding MatchString_iff deny_tree_def
    apply (simp only: matches_bol matches_lits)
    apply (simp only: matches_cat [of "Opt (Lit _)"] matches_lits 1)
    apply (simp only: matches_cat 2 3 4 5)
    by (rule flat_match)
qed

subsection \<open>Plain URLs\<close>

text \<open>A host name or a dotted address in lower case, and a path of visible characters without escapes and fragment.\<close>

definition name_char :: "char \<Rightarrow> bool" where
  "name_char c \<longleftrightarrow> is_digit c \<or> (97 \<le> code c \<and> code c \<le> 122) \<or> c = CHR ''-'' \<or> c = CHR ''.''"

definition plain_path :: "string \<Rightarrow> bool" where
  "plain_path p = list_all (\<lambda>c. 33 \<le> code c \<and> code c \<le> 126 \<and> c \<notin> set ''%#'') p"

definition url_of :: "string \<Rightarrow> string \<Rightarrow> string \<Rightarrow> string" where
  "url_of scheme host path = scheme @ ''://'' @ host @ ''/'' @ path"

lemma not_name_char [simp]: "\<not> name_char CHR ''/''" "\<not> name_char CHR '':''" "\<not> name_char CHR ''?''" "\<not> name_char CHR ''#''" "\<not> name_char CHR ''@''"
  "\<not> name_char CHR ''[''" "\<not> name_char CHR '']''" "\<not> name_char CHR ''%''"
  by code_simp+

lemma before_slash: "c \<notin> set a \<Longrightarrow> a @ y = h @ c # p \<Longrightarrow> \<exists>h2. h = a @ h2 \<and> y = h2 @ c # p"
  by (auto simp: append_eq_append_conv2 append_eq_Cons_conv Cons_eq_append_conv)

lemma match_host:
  assumes "scheme \<in> {''http'', ''https''}" "h \<noteq> []" "list_all name_char h"
  shows "MatchString deny_tree (url_of scheme h path) \<longleftrightarrow> deny_host h"
proof
  assume "MatchString deny_tree (url_of scheme h path)"
  then obtain S U H P T v where m: "url_of scheme h path = ''http'' @ S @ ''://'' @ U @ H @ P @ T @ v" "S = ''s'' \<or> S = []"
      "(\<exists>x. U = x @ ''@'' \<and> list_all (\<lambda>c. c \<notin> set ''@/'') x) \<or> U = []" "deny_host H \<or> bracket_host H"
      "(\<exists>x. P = '':'' @ x \<and> x \<noteq> [] \<and> list_all (in_class False [(CHR ''0'', CHR ''9'')]) x) \<or> P = []" "(\<exists>c \<in> set ''/?#''. T = [c]) \<or> T = [] \<and> v = []"
    unfolding deny_match_iff by (elim exE conjE) (rule that)
  have "U @ H @ P @ T @ v = h @ CHR ''/'' # path" using m(1,2) assms(1) by (auto simp: url_of_def)
  moreover have "U = []"
  proof (rule ccontr)
    assume "U \<noteq> []"
    with m(3) obtain x where x: "U = x @ ''@''" "CHR ''/'' \<notin> set x" by (auto simp: list_all_iff)
    then obtain h2 where h2: "h = x @ h2" "CHR ''@'' # H @ P @ T @ v = h2 @ CHR ''/'' # path" using before_slash [of "CHR ''/''" x "CHR ''@'' # H @ P @ T @ v" h path] calculation by auto
    then show False using assms(3) by (cases h2) auto
  qed
  ultimately have eq: "H @ P @ T @ v = h @ CHR ''/'' # path" by simp
  have H: "deny_host H"
  proof (rule ccontr)
    assume "\<not> deny_host H"
    then obtain x where "H = CHR ''['' # x" using m(4) bracket_host_hd by blast
    then show False using eq assms(2,3) by (cases h) auto
  qed
  obtain h2 where h2: "h = H @ h2" "P @ T @ v = h2 @ CHR ''/'' # path" using before_slash [OF deny_host_no_slash [OF H] eq] by blast
  have "h2 = []"
  proof (rule ccontr)
    assume "h2 \<noteq> []"
    then obtain c t where c: "h2 = c # t" "name_char c" using h2(1) assms(3) by (cases h2) auto
    then show False using h2(2) m(5,6) by auto
  qed
  then show "deny_host h" using h2(1) H by simp
next
  assume "deny_host h"
  moreover have "\<exists>S. scheme = ''http'' @ S \<and> (S = ''s'' \<or> S = [])" using assms(1) by auto
  then obtain S where "scheme = ''http'' @ S" "S = ''s'' \<or> S = []" by blast
  ultimately show "MatchString deny_tree (url_of scheme h path)"
    unfolding deny_match_iff url_of_def
    by (intro exI [of _ S] exI [of _ "[]"] exI [of _ h] exI [of _ "''/''"] exI [of _ path] conjI) simp_all
qed

lemma name_char_code: "name_char c \<Longrightarrow> 45 \<le> code c \<and> code c \<le> 122 \<and> \<not> (65 \<le> code c \<and> code c \<le> 90)"
  by (auto simp: name_char_def is_digit_def code_def)

lemma name_char_absent: "list_all name_char h \<Longrightarrow> \<not> name_char c \<Longrightarrow> c \<notin> set h"
  by (rule list_all_absent)

lemma unescape_url_plain: "CHR ''%'' \<notin> set s \<Longrightarrow> mode \<notin> {EncHost, EncZone} \<or> list_all (\<lambda>c. 128 \<le> code c \<or> host_ok c) s \<Longrightarrow> unescape_url mode s = Some s"
  by (induction s) (auto simp: not_le)

lemma name_ok: "name_char c \<Longrightarrow> host_ok c"
  by (auto simp: name_char_def host_ok_def alpha_def)

lemma name_host_ok: "list_all name_char h \<Longrightarrow> list_all (\<lambda>c. 128 \<le> code c \<or> host_ok c) h"
  using name_ok by (auto simp: list_all_iff)

lemma parseAuthority_name:
  assumes "list_all name_char h"
  shows "parseAuthority h = Some h"
proof -
  have a: "CHR ''@'' \<notin> set h" "CHR '':'' \<notin> set h" "CHR ''['' \<notin> set h" "CHR ''%'' \<notin> set h"
    by (rule name_char_absent [OF assms]; simp)+
  have "dropWhile (\<lambda>c. c \<noteq> CHR '':'') h = []" using a(2) by (auto simp: dropWhile_eq_Nil_conv)
  moreover have "\<not> has_prefix h ''[''" using a(3) by (cases h) (auto simp: has_prefix_def)
  moreover have "CHR ''['' \<notin> set (tl h)" using a(3) by (cases h) auto
  ultimately have "parseHost h = Some h"
    using unescape_url_plain [of h EncHost] name_host_ok [OF assms] a(4) by (simp add: parseHost_def validOptionalPort_def)
  then show ?thesis using a(1) by (simp add: parseAuthority_def last_index_def cut_last_def)
qed

lemma getScheme_http: "getScheme (''http:'' @ r) = Some (''http'', r)" "getScheme (''https:'' @ r) = Some (''https'', r)"
  by (simp_all add: getScheme_def alpha_def code_def is_digit_def)

lemma cut_prefix: "c \<notin> set a \<Longrightarrow> fst (cut c (a @ b)) = a @ fst (cut c b)"
  by (induction a) (auto simp: Let_def split: prod.splits)

lemma cut_fst_subset: "set (fst (cut c s)) \<subseteq> set s"
  by (induction s) (auto simp: Let_def split: prod.splits)

lemma ascii_no_rune: "code c < 128 \<Longrightarrow> 128 \<le> n \<Longrightarrow> n < 256 \<Longrightarrow> \<not> has_prefix (c # s) (bytes (n # ns))"
  by (auto simp: has_prefix_def bytes_def code_def)

lemma to_lower_Cons: "code c < 128 \<Longrightarrow> to_lower (c # s) = lower_byte c # to_lower s"
  by (simp add: ascii_no_rune)

lemma to_lower_plain: "\<forall>c \<in> set s. code c < 128 \<and> \<not> (65 \<le> code c \<and> code c \<le> 90) \<Longrightarrow> to_lower s = s"
  by (induction s) (auto simp: to_lower_Cons lower_byte_def code_def simp del: to_lower.simps(2))

text \<open>A host as it may stand in an authority.\<close>

definition plain_host :: "string \<Rightarrow> bool" where
  "plain_host h \<longleftrightarrow> parseAuthority h = Some h \<and> list_all (\<lambda>c. 33 \<le> code c \<and> code c \<le> 126 \<and> c \<notin> set ''/?#'') h"

lemma plain_host_name: "list_all name_char h \<Longrightarrow> plain_host h"
  unfolding plain_host_def
proof (intro conjI)
  assume h: "list_all name_char h"
  show "parseAuthority h = Some h" using h by (rule parseAuthority_name)
  have "name_char c \<Longrightarrow> 33 \<le> code c \<and> code c \<le> 126 \<and> c \<notin> set ''/?#''" for c using name_char_code [of c] by auto
  then show "list_all (\<lambda>c. 33 \<le> code c \<and> code c \<le> 126 \<and> c \<notin> set ''/?#'') h" using h by (rule list.pred_mono_strong [rotated])
qed

lemma url_visible:
  assumes "scheme \<in> {''http'', ''https''}" "plain_host h" "plain_path path"
  shows "list_all (\<lambda>c. 33 \<le> code c \<and> code c < 127) (url_of scheme h path)"
proof -
  have "list_all (\<lambda>c. 33 \<le> code c \<and> code c < 127) scheme" using assms(1) by (auto simp: code_def)
  moreover have "list_all (\<lambda>c. 33 \<le> code c \<and> code c < 127) h" using conjunct2 [OF assms(2) [unfolded plain_host_def]] by (rule list.pred_mono_strong) linarith
  moreover have "list_all (\<lambda>c. 33 \<le> code c \<and> code c < 127) path" using assms(3) unfolding plain_path_def by (rule list.pred_mono_strong) linarith
  moreover have "list_all (\<lambda>c. 33 \<le> code c \<and> code c < 127) ''://''" "list_all (\<lambda>c. 33 \<le> code c \<and> code c < 127) ''/''" by (simp_all add: code_def)
  ultimately show ?thesis by (simp only: url_of_def list_all_append)
qed

lemma url_Parse_plain:
  assumes "scheme \<in> {''http'', ''https''}" "plain_host h" "plain_path path"
  shows "url_Parse (url_of scheme h path) = Some \<lparr>Scheme = scheme, Host = h\<rparr>"
proof -
  let ?u = "url_of scheme h path" and ?q = "fst (cut CHR ''?'' path)"
  have n: "CHR ''/'' \<notin> set h" "CHR ''?'' \<notin> set h" "CHR ''#'' \<notin> set h"
    by (rule list_all_absent [OF conjunct2 [OF assms(2) [unfolded plain_host_def]]]; simp)+
  have "CHR ''#'' \<notin> set path" using assms(3) unfolding plain_path_def by (rule list_all_absent) simp
  moreover have "CHR ''#'' \<notin> set scheme" using assms(1) by (elim insertE emptyE) simp_all
  ultimately have "CHR ''#'' \<notin> set ?u" using n(3) by (simp add: url_of_def)
  then have c: "cut CHR ''#'' ?u = (?u, [], False)" by (rule cut_absent)
  have s: "getScheme ?u = Some (scheme, ''//'' @ h @ ''/'' @ path)"
    using assms(1) getScheme_http [of "''//'' @ h @ ''/'' @ path"] by (auto simp: url_of_def)
  have ctl: "\<not> list_ex (\<lambda>c. code c < 32 \<or> code c = 127) ?u"
    using url_visible [OF assms] unfolding list_ex_iff list_all_iff by fastforce
  have q: "fst (cut CHR ''?'' (''//'' @ h @ ''/'' @ path)) = ''//'' @ h @ CHR ''/'' # ?q"
    using cut_prefix [of "CHR ''?''" "''//'' @ h @ ''/''" path] n(2) by simp
  have p: "unescape_url EncPath (CHR ''/'' # ?q) \<noteq> None"
    using unescape_url_plain [of "CHR ''/'' # ?q" EncPath] cut_fst_subset [of "CHR ''?''" path] assms(3) by (auto simp: plain_path_def list_all_iff)
  have tw: "takeWhile (\<lambda>c. c \<noteq> CHR ''/'') (h @ CHR ''/'' # ?q) = h" "dropWhile (\<lambda>c. c \<noteq> CHR ''/'') (h @ CHR ''/'' # ?q) = CHR ''/'' # ?q"
    using n(1) by (auto simp: takeWhile_append dropWhile_append)
  have l: "to_lower scheme = scheme" "scheme \<noteq> ''''" using assms(1) by (auto intro!: to_lower_plain simp: code_def)
  show ?thesis
    unfolding url_Parse_def c Let_def prod.case s option.case q
    using ctl p l conjunct1 [OF assms(2) [unfolded plain_host_def]] by (simp add: has_prefix_def tw)
qed

lemma Denied_plain:
  assumes "scheme \<in> {''http'', ''https''}" "plain_host h" "plain_path path" "Hostname \<lparr>Scheme = scheme, Host = h\<rparr> = x" "to_lower x = x" "x \<noteq> []"
  shows "fst (Denied (url_of scheme h path)) \<longleftrightarrow>
     x = ''localhost'' \<or> has_suffix x ''.localhost'' \<or>
     (case ParseIP x of
        Some ip \<Rightarrow> IsLoopback ip \<or> IsPrivate ip \<or> IsLinkLocalUnicast ip \<or> IsLinkLocalMulticast ip \<or> IsUnspecified ip
      | None \<Rightarrow> \<not> contains x ''.'')"
proof -
  let ?u = "url_of scheme h path"
  have "\<forall>c \<in> set ?u. 33 \<le> code c \<and> code c < 127" using url_visible [OF assms(1-3)] by (simp only: list_all_iff)
  then have "trim_space ?u = ?u" by (intro trim_space_visible) (fastforce simp: code_def)
  moreover have "\<not> has_prefix (to_lower ?u) ''data:''"
  proof -
    have "\<exists>t. ?u = CHR ''h'' # t" using assms(1) by (auto simp: url_of_def)
    then obtain t where "?u = CHR ''h'' # t" by blast
    moreover have "lower_byte CHR ''h'' = CHR ''h''" "code CHR ''h'' < 128" by code_simp+
    ultimately have "to_lower ?u = CHR ''h'' # to_lower t" by (simp add: to_lower_Cons del: to_lower.simps)
    then show ?thesis by (simp add: has_prefix_def)
  qed
  ultimately show ?thesis
    using assms(1,4-6) url_Parse_plain [OF assms(1-3)]
    by (auto simp: Denied_def Let_def split: option.split)
qed

lemma Denied_name:
  assumes "scheme \<in> {''http'', ''https''}" "h \<noteq> []" "list_all name_char h" "plain_path path"
  shows "fst (Denied (url_of scheme h path)) \<longleftrightarrow>
     h = ''localhost'' \<or> has_suffix h ''.localhost'' \<or>
     (case ParseIP h of
        Some ip \<Rightarrow> IsLoopback ip \<or> IsPrivate ip \<or> IsLinkLocalUnicast ip \<or> IsLinkLocalMulticast ip \<or> IsUnspecified ip
      | None \<Rightarrow> \<not> contains h ''.'')"
proof (rule Denied_plain [OF assms(1) plain_host_name [OF assms(3)] assms(4) _ _ assms(2)])
  have "CHR '':'' \<notin> set h" "CHR ''['' \<notin> set h" by (rule name_char_absent [OF assms(3)]; simp)+
  then show "Hostname \<lparr>Scheme = scheme, Host = h\<rparr> = h" using assms(2) by (cases h) (auto simp: Hostname_def last_index_def cut_last_def has_prefix_def)
  show "to_lower h = h" using assms(3) name_char_code by (intro to_lower_plain) (fastforce simp: list_all_iff)
qed

subsection \<open>Names and dotted addresses\<close>

definition dotted :: "string \<Rightarrow> bool" where
  "dotted s = list_all (\<lambda>c. is_digit c \<or> c = CHR ''.'') s"

definition quad :: "nat \<Rightarrow> nat \<Rightarrow> nat \<Rightarrow> nat \<Rightarrow> string" where
  "quad a b c d = utoa a @ ''.'' @ utoa b @ ''.'' @ utoa c @ ''.'' @ utoa d"

lemma dotted_append [simp]: "dotted (s @ t) \<longleftrightarrow> dotted s \<and> dotted t"
  by (simp add: dotted_def)

lemma dotted_utoa [simp]: "dotted (utoa n)"
  by (auto simp: dotted_def list_all_iff utoa_digits)

lemma dotted_dot [simp]: "dotted ''.''"
  by (simp add: dotted_def)

lemma dotted_quad: "dotted (quad a b c d)"
  unfolding quad_def by (simp only: dotted_append dotted_utoa dotted_dot)

lemma dotted_dotted_tail: "dotted_tail p w \<Longrightarrow> dotted p \<Longrightarrow> dotted w"
  by (auto simp: dotted_tail_def dotted_def)

lemma split_covers: "c \<in> set s \<Longrightarrow> c \<noteq> x \<Longrightarrow> \<exists>w \<in> set (split x s). c \<in> set w"
proof (induction s)
  case (Cons y s)
  then show ?case by (cases "split x s") auto
qed simp

lemma parseIPv4_dotted: "parseIPv4 s \<noteq> None \<Longrightarrow> dotted s"
  unfolding dotted_def list_all_iff
proof (intro ballI)
  fix c
  assume p: "parseIPv4 s \<noteq> None" and c: "c \<in> set s"
  show "is_digit c \<or> c = CHR ''.''"
  proof (cases "c = CHR ''.''")
    case False
    then obtain w where "w \<in> set (split CHR ''.'' s)" "c \<in> set w" using split_covers [OF c] by blast
    moreover have "\<forall>w \<in> set (split CHR ''.'' s). octet w \<noteq> None" using p by (simp add: parseIPv4_def Let_def list_all_iff split: if_splits)
    ultimately show ?thesis by (auto simp: octet_def list_all_iff split: if_splits)
  qed simp
qed

lemma ParseIP_name:
  assumes "list_all name_char h" "\<not> dotted h"
  shows "ParseIP h = None"
proof (cases "find (\<lambda>c. c \<in> set ''.:%'') h")
  case None
  then show ?thesis by (simp only: ParseIP_def ParseAddr_def option.case)
next
  case (Some c)
  then have "c \<in> set h" "c \<in> set ''.:%''" using nth_mem [of _ h] by (auto simp only: find_Some_iff)
  moreover have "CHR '':'' \<notin> set h" "CHR ''%'' \<notin> set h" by (rule name_char_absent [OF assms(1)]; simp)+
  ultimately have "c = CHR ''.''" by auto
  moreover have "parseIPv4 h = None" using parseIPv4_dotted assms(2) by blast
  ultimately show ?thesis using Some by (simp add: ParseIP_def ParseAddr_def)
qed

lemma contains_dot: "contains h ''.'' \<longleftrightarrow> CHR ''.'' \<in> set h"
  by (induction h) (auto simp: has_prefix_def)

lemma has_suffix_conv: "has_suffix s p \<longleftrightarrow> (\<exists>t. s = t @ p)"
proof
  assume "has_suffix s p"
  then have "s = take (length s - length p) s @ p" using append_take_drop_id [of "length s - length p" s] by (simp add: has_suffix_def)
  then show "\<exists>t. s = t @ p" by (rule exI)
qed (auto simp: has_suffix_def)

lemma deny_host_name:
  assumes "list_all name_char h" "\<not> dotted h" "h \<noteq> []"
  shows "deny_host h \<longleftrightarrow> h = ''localhost'' \<or> has_suffix h ''.localhost'' \<or> \<not> contains h ''.''"
proof -
  have n: "CHR ''/'' \<notin> set h" "CHR '':'' \<notin> set h" by (rule name_char_absent [OF assms(1)]; simp)+
  have d: "\<not> dotted_tail p h" if "dotted p" for p using dotted_dotted_tail that assms(2) by blast
  have lit: "dotted ''127.''" "dotted ''0.0.0.0''" "dotted ''10.''" "dotted ''192.168.''" "dotted ''172.''" "dotted ''169.254.''" by code_simp+
  have "\<not> dotted_tail (''172.'' @ utoa n @ ''.'') h" for n using d lit(5) dotted_append dotted_utoa dotted_dot by blast
  moreover have "h \<noteq> ''0.0.0.0''" using assms(2) lit(2) by blast
  moreover have "list_all (\<lambda>c. c \<notin> set ''/:.'') h \<longleftrightarrow> \<not> contains h ''.''"
    unfolding contains_dot list_all_iff using n by auto
  moreover have "(\<exists>x. h = x @ ''.localhost'' \<and> list_all (\<lambda>c. c \<notin> set ''/:'') x) \<longleftrightarrow> has_suffix h ''.localhost''"
    unfolding has_suffix_conv list_all_iff using n by auto
  ultimately show ?thesis
    using d [OF lit(1)] d [OF lit(3)] d [OF lit(4)] d [OF lit(6)] assms(3) unfolding deny_host_def by blast
qed

lemma dot_not_utoa [simp]: "CHR ''.'' \<notin> set (utoa n)"
  using utoa_digits [of "CHR ''.''" n] by auto

lemma utoa_sep: "utoa a @ CHR ''.'' # x = utoa b @ CHR ''.'' # y \<longleftrightarrow> a = b \<and> x = y"
  using before_slash [of "CHR ''.''" "utoa a" "CHR ''.'' # x" "utoa b" y] before_slash [of "CHR ''.''" "utoa b" "CHR ''.'' # y" "utoa a" x] utoa_inj by force

lemma octet_utoa: "n < 256 \<Longrightarrow> octet (utoa n) = Some n"
proof -
  assume n: "n < 256"
  have "length (utoa n) \<le> 3" using length_utoa [of n 3] n by simp
  moreover have "list_all is_digit (utoa n)" by (simp add: list_all_iff utoa_digits)
  moreover have "length (utoa n) \<le> 1 \<or> hd (utoa n) \<noteq> CHR ''0''"
    using utoa_hd [of n] length_utoa [of n 1] by (cases "10 \<le> n") auto
  ultimately show ?thesis using n by (auto simp: octet_def atou_utoa Let_def)
qed

lemma ParseIP_quad:
  assumes "a < 256" "b < 256" "c < 256" "d < 256"
  shows "ParseIP (quad a b c d) = Some (v4_prefix @ [a, b, c, d])"
proof -
  have "split CHR ''.'' (quad a b c d) = [utoa a, utoa b, utoa c, utoa d]"
    by (simp add: quad_def split_append_sep split_no_sep)
  then have "parseIPv4 (quad a b c d) = Some [a, b, c, d]" using assms by (simp add: parseIPv4_def octet_utoa)
  moreover have "find (\<lambda>c. c \<in> set ''.:%'') (quad a b c d) = Some CHR ''.''"
  proof -
    have "find P (s @ CHR ''.'' # t) = Some CHR ''.''" if "list_all (\<lambda>c. \<not> P c) s" "P CHR ''.''" for P s t using that by (induction s) auto
    moreover have "list_all (\<lambda>c. c \<notin> set ''.:%'') (utoa a)"
      using utoa_digits [of "CHR '':''" a] utoa_digits [of "CHR ''%''" a] by (auto simp: list_all_iff is_digit_def)
    ultimately show ?thesis by (simp add: quad_def)
  qed
  ultimately show ?thesis by (simp add: ParseIP_def ParseAddr_def)
qed

lemma dotted_tail_quad: "dotted_tail (utoa n @ ''.'') (quad a b c d) \<longleftrightarrow> a = n" "dotted_tail (utoa n @ ''.'' @ utoa m @ ''.'') (quad a b c d) \<longleftrightarrow> a = n \<and> b = m"
proof -
  have d: "list_all (\<lambda>c. is_digit c \<or> c = CHR ''.'') (utoa n)" for n using dotted_utoa [of n] by (simp only: dotted_def)
  show "dotted_tail (utoa n @ ''.'') (quad a b c d) \<longleftrightarrow> a = n" "dotted_tail (utoa n @ ''.'' @ utoa m @ ''.'') (quad a b c d) \<longleftrightarrow> a = n \<and> b = m"
    by (auto simp: dotted_tail_def quad_def utoa_sep d)
qed

lemma deny_host_quad:
  "deny_host (quad a b c d) \<longleftrightarrow>
     a = 127 \<or> a = 0 \<and> b = 0 \<and> c = 0 \<and> d = 0 \<or> a = 10 \<or> a = 192 \<and> b = 168 \<or> a = 172 \<and> 16 \<le> b \<and> b \<le> 31 \<or> a = 169 \<and> b = 254"
proof -
  have lit: "''127.'' = utoa 127 @ ''.''" "''0.0.0.0'' = quad 0 0 0 0" "''10.'' = utoa 10 @ ''.''" "''192.168.'' = utoa 192 @ ''.'' @ utoa 168 @ ''.''"
    "''169.254.'' = utoa 169 @ ''.'' @ utoa 254 @ ''.''" by code_simp+
  have "''172.'' = utoa 172 @ ''.''" by code_simp
  then have teens: "''172.'' @ utoa n @ ''.'' = utoa 172 @ ''.'' @ utoa n @ ''.''" for n by (simp only: append_assoc)
  have "\<not> dotted ''localhost''" "\<not> dotted ''.localhost''" by code_simp+
  then have l: "quad a b c d \<noteq> ''localhost''" "quad a b c d \<noteq> x @ ''.localhost''" for x using dotted_quad dotted_append by metis+
  have "CHR ''.'' \<in> set (quad a b c d)" by (simp add: quad_def)
  then have p: "\<not> list_all (\<lambda>c. c \<notin> set ''/:.'') (quad a b c d)" using list_all_absent [of _ _ "CHR ''.''"] by fastforce
  have z: "quad a b c d = quad 0 0 0 0 \<longleftrightarrow> a = 0 \<and> b = 0 \<and> c = 0 \<and> d = 0"
    using utoa_inj [of d 0] by (auto simp: quad_def utoa_sep)
  show ?thesis
    unfolding deny_host_def lit teens dotted_tail_quad z using l p by blast
qed

lemma Denied_quad:
  assumes "scheme \<in> {''http'', ''https''}" "plain_path path" "a < 256" "b < 256" "c < 256" "d < 256"
  shows "fst (Denied (url_of scheme (quad a b c d) path)) \<longleftrightarrow>
     a = 127 \<or> a = 10 \<or> (a = 172 \<and> b div 16 = 1) \<or> (a = 192 \<and> b = 168) \<or> (a = 169 \<and> b = 254) \<or> (a = 224 \<and> b = 0 \<and> c = 0) \<or>
     (a = 0 \<and> b = 0 \<and> c = 0 \<and> d = 0)"
proof -
  have "list_all name_char (quad a b c d)" using dotted_quad [of a b c d] by (auto simp: dotted_def name_char_def list_all_iff)
  moreover have "quad a b c d \<noteq> []" by (simp add: quad_def)
  moreover have "\<not> dotted ''localhost''" "\<not> dotted ''.localhost''" by code_simp+
  then have "quad a b c d \<noteq> ''localhost''" "\<not> has_suffix (quad a b c d) ''.localhost''"
    unfolding has_suffix_conv using dotted_quad dotted_append by metis+
  moreover have "is_v4 (v4_prefix @ [a, b, c, d])" by (simp add: is_v4_def v4_prefix_def)
  moreover have "length v4_prefix = 12" by (simp add: v4_prefix_def)
  moreover have "v4_prefix @ [a, b, c, d] \<noteq> replicate 16 0" by (simp add: v4_prefix_def eval_nat_numeral)
  ultimately show ?thesis
    using Denied_name [OF assms(1), of "quad a b c d" path] assms(2) ParseIP_quad [OF assms(3-6)]
    by (simp add: IsLoopback_def IsPrivate_def IsLinkLocalUnicast_def IsLinkLocalMulticast_def IsUnspecified_def nth_append)
qed

subsection \<open>Bracketed addresses\<close>

lemmas ipv6_step = ipv6_loop.simps(2) [of "pred_numeral k" for k, folded numeral_eq_Suc]

lemma hex_vals: "hex_digit_val CHR ''0'' = Some 0" "hex_digit_val CHR ''1'' = Some 1" "hex_digit_val CHR ''2'' = Some 2" "hex_digit_val CHR ''4'' = Some 4"
  "hex_digit_val CHR ''5'' = Some 5" "hex_digit_val CHR ''6'' = Some 6" "hex_digit_val CHR ''9'' = Some 9" "hex_digit_val CHR ''a'' = Some 10"
  "hex_digit_val CHR ''e'' = Some 14" "hex_digit_val CHR ''f'' = Some 15" "hex_digit_val CHR '':'' = None" "hex_digit_val CHR ''.'' = None"
  by (simp_all add: hex_digit_val_def code_def)

lemmas ipv6_eval = parseIPv6_def has_prefix_def ipv6_step hex_group_def hex_vals hex_value_def v4_prefix_def Let_def

lemma mapped_metadata: "parseIPv6 ''::ffff:169.254.169.254'' = Some (v4_prefix @ [169, 254, 169, 254])"
proof -
  have "parseIPv4 ''169.254.169.254'' = Some [169, 254, 169, 254]" by (simp add: parseIPv4_def octet_def is_digit_def digit_val_def)
  then show ?thesis by (simp add: ipv6_eval)
qed

lemma mapped_metadata_hex: "parseIPv6 ''::ffff:a9fe:a9fe'' = Some (v4_prefix @ [169, 254, 169, 254])"
  by (simp add: ipv6_eval)

text \<open>The characters of an IPv6 address in lower case.\<close>

definition ip6_char :: "char \<Rightarrow> bool" where
  "ip6_char c \<longleftrightarrow> is_digit c \<or> (97 \<le> code c \<and> code c \<le> 102) \<or> c = CHR '':'' \<or> c = CHR ''.''"

lemma Denied_bracketed:
  assumes "list_all ip6_char x" "find (\<lambda>c. c \<in> set ''.:%'') x = Some CHR '':''" "parseIPv6 x = Some ip" "plain_path path"
    and "IsLoopback ip \<or> IsPrivate ip \<or> IsLinkLocalUnicast ip \<or> IsLinkLocalMulticast ip \<or> IsUnspecified ip"
  shows "fst (Denied (url_of ''http'' (''['' @ x @ '']'') path))"
proof -
  have n: "CHR ''['' \<notin> set x" "CHR '']'' \<notin> set x" "CHR ''%'' \<notin> set x" "CHR ''@'' \<notin> set x"
    by (rule list_all_absent [OF assms(1)]; code_simp)+
  have c: "ip6_char c \<Longrightarrow> 45 < code c \<and> code c < 123 \<and> \<not> (65 \<le> code c \<and> code c \<le> 90) \<and> c \<notin> set ''/?#'' \<and> host_ok c" for c
    by (auto simp: ip6_char_def is_digit_def code_def host_ok_def alpha_def)
  have addr: "ParseAddr x = Some (ip, False, '''')" using assms(2,3) n(3) by (simp add: ParseAddr_def cut_absent)
  have idx: "CHR ''%'' \<notin> set s \<Longrightarrow> index_text ''%25'' s = None" for s by (induction s) (auto simp: has_prefix_def)
  have "unescape_url EncHost x = Some x" using unescape_url_plain [OF n(3), of EncHost] assms(1) c by (auto simp: list_all_iff)
  then have "bracketed_name x = Some x" using idx [OF n(3)] by (simp add: bracketed_name_def)
  moreover have "last_index CHR '']'' (x @ '']'') = Some (x, '''')" using n(2) by (simp add: last_index_def cut_last_def)
  ultimately have "parseHost (''['' @ x @ '']'') = Some (''['' @ x @ '']'')"
    using n(1) addr by (simp add: parseHost_def has_prefix_def validOptionalPort_def)
  then have "parseAuthority (''['' @ x @ '']'') = Some (''['' @ x @ '']'')" using n(4) by (simp add: parseAuthority_def last_index_def cut_last_def)
  moreover have "list_all (\<lambda>c. 33 \<le> code c \<and> code c \<le> 126 \<and> c \<notin> set ''/?#'') x"
    using assms(1) by (rule list.pred_mono_strong) (use c in fastforce)
  ultimately have "plain_host (''['' @ x @ '']'')" by (simp add: plain_host_def code_def)
  moreover have "Hostname \<lparr>Scheme = ''http'', Host = ''['' @ x @ '']''\<rparr> = x"
  proof -
    have "cut_last CHR '':'' (CHR ''['' # x @ '']'') = Some (a, b) \<Longrightarrow> CHR '']'' \<in> set b" for a b
      by (auto simp: cut_last_def split: if_splits)
    then have "last_index CHR '':'' (CHR ''['' # x @ '']'') = Some (a, b) \<Longrightarrow> CHR '']'' \<in> set b" for a b
      by (auto simp: last_index_def split: option.splits)
    moreover have "\<not> is_digit CHR '']''" by code_simp
    ultimately have "last_index CHR '':'' (CHR ''['' # x @ '']'') = Some (a, b) \<Longrightarrow> \<not> list_all is_digit b" for a b
      by (auto simp: list_all_iff)
    then show ?thesis by (auto simp: Hostname_def has_prefix_def has_suffix_def split: option.split)
  qed
  moreover have "to_lower x = x" using assms(1) c by (intro to_lower_plain) (fastforce simp: list_all_iff)
  moreover have "x \<noteq> []" using assms(2) by auto
  ultimately show ?thesis
    using Denied_plain [of "''http''" "''['' @ x @ '']''" path x] assms(4,5) addr by (simp add: ParseIP_def)
qed

section \<open>Properties\<close>




end
