(* ===== verification/Lifecycle.thy ===== *)
theory Lifecycle
  imports Pool
begin

text \<open>
  The processes behind the pools of \<^verbatim>\<open>internal/worker/pool.go\<close>: how they are started, killed, asked to quit and waited for.
  A process is named by its \<^verbatim>\<open>exec.Cmd\<close>. The interface \<^verbatim>\<open>Pool\<close> of \<^verbatim>\<open>internal/worker/worker.go\<close> is the locale
  \<open>process_pool\<close>, which both pools implement; its client is the dispatch of the orchestrator with its deferred \<^verbatim>\<open>Close\<close>.
\<close>

section \<open>Definitions\<close>

subsection \<open>Processes\<close>

text \<open>
  A process runs, has exited and is still in the process table, or has been waited for (\<^verbatim>\<open>cmd.ProcessState != nil\<close>).
\<close>

datatype pstate = Running | Exited | Reaped

record procs =
  nextCmd :: nat
  state_of :: "nat \<rightharpoonup> pstate"

definition set_state :: "nat \<Rightarrow> pstate \<Rightarrow> procs \<Rightarrow> procs" where
  "set_state c st ps = ps\<lparr>state_of := (state_of ps)(c \<mapsto> st)\<rparr>"

text \<open>A running process exits, by itself or by a signal.\<close>

definition exit_proc :: "nat \<Rightarrow> procs \<Rightarrow> procs" where
  "exit_proc c ps = (if state_of ps c = Some Running then set_state c Exited ps else ps)"

definition Process_Kill :: "nat \<Rightarrow> procs \<Rightarrow> procs" where
  "Process_Kill c ps = exit_proc c ps"

text \<open>\<^verbatim>\<open>cmd.Wait\<close>: \<open>None\<close> while the process runs; a second call returns an error at once.\<close>

definition cmd_Wait :: "nat \<Rightarrow> procs \<Rightarrow> procs option" where
  "cmd_Wait c ps =
     (case state_of ps c of
        Some Running \<Rightarrow> None
      | Some Exited \<Rightarrow> Some (set_state c Reaped ps)
      | _ \<Rightarrow> Some ps)"

definition alive :: "nat \<Rightarrow> procs \<Rightarrow> bool" where
  "alive c ps = (state_of ps c \<noteq> Some Reaped)"

text \<open>
  Starting a process: an error of one of the three pipes or of \<^verbatim>\<open>cmd.Start\<close>, in this order.
\<close>

record spawn_faults =
  stdin_err :: "string option"
  stdout_err :: "string option"
  stderr_err :: "string option"
  start_err :: "string option"

definition spawnRaw :: "spawn_faults \<Rightarrow> procs \<Rightarrow> (go_error, nat) result \<times> procs" where
  "spawnRaw f ps =
     (case stdin_err f of Some e \<Rightarrow> (Err (PlainError e), ps)
      | None \<Rightarrow> (case stdout_err f of Some e \<Rightarrow> (Err (PlainError e), ps)
      | None \<Rightarrow> (case stderr_err f of Some e \<Rightarrow> (Err (PlainError e), ps)
      | None \<Rightarrow> (case start_err f of Some e \<Rightarrow> (Err (PlainError e), ps)
      | None \<Rightarrow> (Ok (nextCmd ps), (set_state (nextCmd ps) Running ps)\<lparr>nextCmd := nextCmd ps + 1\<rparr>)))))"

subsection \<open>The legacy pool\<close>

record PooledWorker =
  cmd :: nat
  poolIndex :: nat
  loaded :: bool

definition spawnPooledWorker :: "spawn_faults \<Rightarrow> nat \<Rightarrow> procs \<Rightarrow> (go_error, PooledWorker) result \<times> procs" where
  "spawnPooledWorker f i ps =
     (case spawnRaw f ps of
        (Err e, ps') \<Rightarrow> (Err e, ps')
      | (Ok c, ps') \<Rightarrow> (Ok \<lparr>cmd = c, poolIndex = i, loaded = False\<rparr>, ps'))"

text \<open>
  \<^verbatim>\<open>quit\<close>: the command, then five seconds of grace, in which the process exits if \<open>obeys\<close>, then the signal; it
  returns when \<^verbatim>\<open>Wait\<close> has.
\<close>

definition pooled_quit :: "(nat \<Rightarrow> bool) \<Rightarrow> PooledWorker \<Rightarrow> procs \<Rightarrow> procs option" where
  "pooled_quit obeys w ps =
     (if alive (cmd w) ps
      then (let ps1 = (if obeys (cmd w) then exit_proc (cmd w) ps else ps)
            in case cmd_Wait (cmd w) ps1 of
                 Some ps2 \<Rightarrow> Some ps2
               | None \<Rightarrow> cmd_Wait (cmd w) (Process_Kill (cmd w) ps1))
      else Some ps)"

definition pooled_kill :: "PooledWorker \<Rightarrow> procs \<Rightarrow> procs option" where
  "pooled_kill w ps = cmd_Wait (cmd w) (if alive (cmd w) ps then Process_Kill (cmd w) ps else ps)"

text \<open>
  What loading the document in worker \<open>i\<close> gives, and whether its process has exited by then (a crash, or the signal
  of a timed-out \<^verbatim>\<open>await\<close>).
\<close>

type_synonym load_outcome = "nat \<Rightarrow> (go_error, int) result \<times> bool"

definition start_worker ::
  "(nat \<Rightarrow> spawn_faults) \<Rightarrow> load_outcome \<Rightarrow> nat \<Rightarrow> procs \<Rightarrow> ((go_error, PooledWorker \<times> int) result \<times> procs) option" where
  "start_worker faults ld i ps =
     (case spawnPooledWorker (faults i) i ps of
        (Err e, ps1) \<Rightarrow> Some (Err e, ps1)
      | (Ok w, ps1) \<Rightarrow>
          (let ps2 = (if snd (ld i) then exit_proc (cmd w) ps1 else ps1)
           in case fst (ld i) of
                Err e \<Rightarrow> map_option (\<lambda>ps3. (Err e, ps3)) (pooled_kill w ps2)
              | Ok pages \<Rightarrow> Some (Ok (w\<lparr>loaded := True\<rparr>, pages), ps2)))"

fun start_workers ::
  "(nat \<Rightarrow> spawn_faults) \<Rightarrow> load_outcome \<Rightarrow> nat list \<Rightarrow> procs \<Rightarrow> ((go_error, PooledWorker \<times> int) result list \<times> procs) option" where
  "start_workers faults ld [] ps = Some ([], ps)"
| "start_workers faults ld (i # is) ps =
     (case start_worker faults ld i ps of
        None \<Rightarrow> None
      | Some (r, ps1) \<Rightarrow> map_option (\<lambda>(rs, ps2). (r # rs, ps2)) (start_workers faults ld is ps1))"

fun successes :: "(go_error, PooledWorker \<times> int) result list \<Rightarrow> (PooledWorker \<times> int) list" where
  "successes [] = []"
| "successes (Ok x # rs) = x # successes rs"
| "successes (Err e # rs) = successes rs"

definition pages_of :: "(go_error, PooledWorker \<times> int) result \<Rightarrow> (go_error, int) result" where
  "pages_of r = (case r of Ok (w, n) \<Rightarrow> Ok n | Err e \<Rightarrow> Err e)"

fun each_worker :: "(PooledWorker \<Rightarrow> procs \<Rightarrow> procs option) \<Rightarrow> PooledWorker list \<Rightarrow> procs \<Rightarrow> procs option" where
  "each_worker f [] ps = Some ps"
| "each_worker f (w # ws) ps = (case f w ps of None \<Rightarrow> None | Some ps' \<Rightarrow> each_worker f ws ps')"

record WorkerPool =
  workers :: "PooledWorker list"
  counts :: pool

definition open_WorkerPool ::
  "(nat \<Rightarrow> spawn_faults) \<Rightarrow> load_outcome \<Rightarrow> nat \<Rightarrow> procs \<Rightarrow> ((go_error, WorkerPool) result \<times> procs) option" where
  "open_WorkerPool faults ld poolSize ps =
     (case start_workers faults ld [0..<poolSize] ps of
        None \<Rightarrow> None
      | Some (rs, ps1) \<Rightarrow>
          (case NewWorkerPool (map pages_of rs) of
             Err e \<Rightarrow> map_option (\<lambda>ps2. (Err e, ps2)) (each_worker pooled_kill (map fst (successes rs)) ps1)
           | Ok p \<Rightarrow> Some (Ok \<lparr>workers = map fst (successes rs), counts = p\<rparr>, ps1)))"

definition WorkerPool_Close :: "(nat \<Rightarrow> bool) \<Rightarrow> WorkerPool \<Rightarrow> procs \<Rightarrow> procs option" where
  "WorkerPool_Close obeys p ps = each_worker (pooled_quit obeys) (workers p) ps"

subsection \<open>The forked pool\<close>

record ForkedPoolLeader =
  l_cmd :: nat
  l_poolSize :: nat

definition spawnForkedLeader :: "spawn_faults \<Rightarrow> nat \<Rightarrow> procs \<Rightarrow> (go_error, ForkedPoolLeader) result \<times> procs" where
  "spawnForkedLeader f poolSize ps =
     (case spawnRaw f ps of
        (Err e, ps') \<Rightarrow> (Err e, ps')
      | (Ok c, ps') \<Rightarrow> (Ok \<lparr>l_cmd = c, l_poolSize = poolSize\<rparr>, ps'))"

text \<open>The same as for a legacy worker, with ten seconds of grace.\<close>

definition leader_quit :: "(nat \<Rightarrow> bool) \<Rightarrow> ForkedPoolLeader \<Rightarrow> procs \<Rightarrow> procs option" where
  "leader_quit obeys l ps =
     (if alive (l_cmd l) ps
      then (let ps1 = (if obeys (l_cmd l) then exit_proc (l_cmd l) ps else ps)
            in case cmd_Wait (l_cmd l) ps1 of
                 Some ps2 \<Rightarrow> Some ps2
               | None \<Rightarrow> cmd_Wait (l_cmd l) (Process_Kill (l_cmd l) ps1))
      else Some ps)"

definition leader_kill :: "ForkedPoolLeader \<Rightarrow> procs \<Rightarrow> procs option" where
  "leader_kill l ps = cmd_Wait (l_cmd l) (if alive (l_cmd l) ps then Process_Kill (l_cmd l) ps else ps)"

record ForkedWorkerPool =
  leader_of :: ForkedPoolLeader
  f_pageCount :: int

definition open_ForkedWorkerPool ::
  "spawn_faults \<Rightarrow> (go_error, int) result \<times> bool \<Rightarrow> nat \<Rightarrow> procs \<Rightarrow> ((go_error, ForkedWorkerPool) result \<times> procs) option" where
  "open_ForkedWorkerPool f ld poolSize ps =
     (case spawnForkedLeader f poolSize ps of
        (Err e, ps1) \<Rightarrow> Some (Err e, ps1)
      | (Ok l, ps1) \<Rightarrow>
          (let ps2 = (if snd ld then exit_proc (l_cmd l) ps1 else ps1)
           in case fst ld of
                Err e \<Rightarrow> map_option (\<lambda>ps3. (Err e, ps3)) (leader_kill l ps2)
              | Ok pages \<Rightarrow> Some (Ok \<lparr>leader_of = l, f_pageCount = pages\<rparr>, ps2)))"

definition ForkedWorkerPool_Close :: "(nat \<Rightarrow> bool) \<Rightarrow> ForkedWorkerPool \<Rightarrow> procs \<Rightarrow> procs option" where
  "ForkedWorkerPool_Close obeys p ps = leader_quit obeys (leader_of p) ps"

subsection \<open>The interface\<close>

text \<open>The pool the orchestrator opens: forked or legacy, with the same methods.\<close>

datatype Pool_iface = Legacy WorkerPool | Forked ForkedWorkerPool

definition open_pool ::
  "bool \<Rightarrow> (nat \<Rightarrow> spawn_faults) \<Rightarrow> load_outcome \<Rightarrow> nat \<Rightarrow> procs \<Rightarrow> ((go_error, Pool_iface) result \<times> procs) option" where
  "open_pool forked faults ld poolSize ps =
     (if forked
      then (case open_ForkedWorkerPool (faults 0) (ld 0) poolSize ps of
              None \<Rightarrow> None
            | Some (Err e, ps') \<Rightarrow> Some (Err e, ps')
            | Some (Ok p, ps') \<Rightarrow> Some (Ok (Forked p), ps'))
      else (case open_WorkerPool faults ld poolSize ps of
              None \<Rightarrow> None
            | Some (Err e, ps') \<Rightarrow> Some (Err e, ps')
            | Some (Ok p, ps') \<Rightarrow> Some (Ok (Legacy p), ps')))"

fun Close :: "(nat \<Rightarrow> bool) \<Rightarrow> Pool_iface \<Rightarrow> procs \<Rightarrow> procs option" where
  "Close obeys (Legacy p) ps = WorkerPool_Close obeys p ps"
| "Close obeys (Forked p) ps = ForkedWorkerPool_Close obeys p ps"

fun owned :: "Pool_iface \<Rightarrow> nat set" where
  "owned (Legacy p) = cmd ` set (workers p)"
| "owned (Forked p) = {l_cmd (leader_of p)}"

section \<open>Lemmas\<close>

subsection \<open>What one process goes through\<close>

text \<open>A process that was never started, or has been waited for.\<close>

definition gone :: "procs \<Rightarrow> nat \<Rightarrow> bool" where
  "gone ps c \<longleftrightarrow> state_of ps c = None \<or> state_of ps c = Some Reaped"

definition fresh :: "procs \<Rightarrow> bool" where
  "fresh ps \<longleftrightarrow> (\<forall>c \<ge> nextCmd ps. state_of ps c = None)"

definition same_but :: "nat set \<Rightarrow> procs \<Rightarrow> procs \<Rightarrow> bool" where
  "same_but S ps ps' \<longleftrightarrow> nextCmd ps' = nextCmd ps \<and> (\<forall>c. c \<notin> S \<longrightarrow> state_of ps' c = state_of ps c)"

text \<open>An operation that returns and has waited for the process \<open>c\<close>, touching no other one.\<close>

definition reaps :: "(procs \<Rightarrow> procs option) \<Rightarrow> nat \<Rightarrow> bool" where
  "reaps f c \<longleftrightarrow> (\<forall>ps. \<exists>ps'. f ps = Some ps' \<and> gone ps' c \<and> same_but {c} ps ps')"

lemmas proc_defs = set_state_def exit_proc_def Process_Kill_def cmd_Wait_def alive_def gone_def same_but_def

lemma pooled_quit_reaps: "reaps (pooled_quit obeys w) (cmd w)"
  by (auto simp: reaps_def pooled_quit_def proc_defs Let_def split: option.splits pstate.splits)

lemma pooled_kill_reaps: "reaps (pooled_kill w) (cmd w)"
  by (auto simp: reaps_def pooled_kill_def proc_defs split: option.splits pstate.splits)

lemma leader_quit_reaps: "reaps (leader_quit obeys l) (l_cmd l)"
  by (auto simp: reaps_def leader_quit_def proc_defs Let_def split: option.splits pstate.splits)

lemma leader_kill_reaps: "reaps (leader_kill l) (l_cmd l)"
  by (auto simp: reaps_def leader_kill_def proc_defs split: option.splits pstate.splits)

lemma reapsE:
  assumes "reaps f c"
  obtains ps' where "f ps = Some ps'" "gone ps' c" "same_but {c} ps ps'"
  using assms unfolding reaps_def by blast

lemma each_worker_reaps:
  assumes "\<And>w. w \<in> set ws \<Longrightarrow> reaps (f w) (cmd w)"
  shows "\<exists>ps'. each_worker f ws ps = Some ps' \<and> (\<forall>c \<in> cmd ` set ws. gone ps' c) \<and> same_but (cmd ` set ws) ps ps'"
  using assms
proof (induction ws arbitrary: ps)
  case Nil
  then show ?case by (simp add: same_but_def)
next
  case (Cons w ws)
  obtain ps1 where 1: "f w ps = Some ps1" "gone ps1 (cmd w)" "same_but {cmd w} ps ps1" using Cons.prems [of w] by (auto elim: reapsE)
  obtain ps2 where 2: "each_worker f ws ps1 = Some ps2" "\<forall>c \<in> cmd ` set ws. gone ps2 c" "same_but (cmd ` set ws) ps1 ps2"
    using Cons.IH [of ps1] Cons.prems by auto
  have "gone ps2 (cmd w)" using 1(2) 2(2,3) by (cases "cmd w \<in> cmd ` set ws") (auto simp: gone_def same_but_def)
  then show ?case using 1 2 by (auto simp: same_but_def)
qed

subsection \<open>Starting\<close>

text \<open>Between two states processes were started; only those in \<open>S\<close> may still be there.\<close>

definition started :: "procs \<Rightarrow> procs \<Rightarrow> nat set \<Rightarrow> bool" where
  "started ps ps' S \<longleftrightarrow>
     fresh ps' \<and> nextCmd ps \<le> nextCmd ps' \<and> (\<forall>c < nextCmd ps. state_of ps' c = state_of ps c) \<and>
     S \<subseteq> {nextCmd ps..<nextCmd ps'} \<and> (\<forall>c. nextCmd ps \<le> c \<longrightarrow> c \<notin> S \<longrightarrow> gone ps' c)"

lemma started_refl: "fresh ps \<Longrightarrow> started ps ps {}"
  by (auto simp: started_def fresh_def gone_def)

lemma started_trans: "started ps ps1 S \<Longrightarrow> started ps1 ps2 T \<Longrightarrow> started ps ps2 (S \<union> T)"
  by (auto simp: started_def gone_def) (metis not_le_imp_less)+

text \<open>The process just started may exit, and may be waited for.\<close>

lemma started_exit: "started ps ps1 {c} \<Longrightarrow> started ps (exit_proc c ps1) {c}"
  by (auto simp: started_def fresh_def gone_def exit_proc_def set_state_def)

lemma started_reap: "started ps ps1 S \<Longrightarrow> (\<forall>c \<in> S. gone ps2 c) \<Longrightarrow> same_but S ps1 ps2 \<Longrightarrow> started ps ps2 {}"
proof -
  assume st: "started ps ps1 S" and g: "\<forall>c \<in> S. gone ps2 c" and sb: "same_but S ps1 ps2"
  have n: "nextCmd ps2 = nextCmd ps1" and o: "\<And>c. c \<notin> S \<Longrightarrow> state_of ps2 c = state_of ps1 c" using sb by (auto simp: same_but_def)
  have S: "\<And>c. c \<in> S \<Longrightarrow> nextCmd ps \<le> c \<and> c < nextCmd ps1" using st by (auto simp: started_def)
  have "gone ps2 c" if "nextCmd ps \<le> c" for c
    using that g o [of c] st by (cases "c \<in> S") (auto simp: started_def gone_def)
  moreover have "state_of ps2 c = state_of ps1 c" if "c < nextCmd ps \<or> nextCmd ps1 \<le> c" for c using o [of c] S [of c] that by linarith
  ultimately show ?thesis using st n by (auto simp: started_def fresh_def)
qed

lemma spawnRaw_started:
  "fresh ps \<Longrightarrow> spawnRaw f ps = (r, ps1) \<Longrightarrow> (case r of Err e \<Rightarrow> ps1 = ps | Ok c \<Rightarrow> started ps ps1 {c})"
  by (auto simp: spawnRaw_def started_def fresh_def gone_def set_state_def split: option.splits if_splits)

lemma start_worker_started:
  assumes "fresh ps"
  shows "\<exists>r ps1. start_worker faults ld i ps = Some (r, ps1) \<and> started ps ps1 (case r of Ok (w, n) \<Rightarrow> {cmd w} | Err e \<Rightarrow> {})"
proof (cases "spawnRaw (faults i) ps")
  case (Pair r ps1)
  note sp = spawnRaw_started [OF assms Pair]
  show ?thesis
  proof (cases r)
    case (Inl e)
    then show ?thesis using sp Pair started_refl [OF assms] by (simp add: start_worker_def spawnPooledWorker_def)
  next
    case (Inr c)
    let ?w = "\<lparr>cmd = c, poolIndex = i, loaded = False\<rparr>" and ?ps2 = "if snd (ld i) then exit_proc c ps1 else ps1"
    have st: "started ps ?ps2 {c}" using sp Inr started_exit by simp
    obtain ps3 where k: "pooled_kill ?w ?ps2 = Some ps3" "gone ps3 c" "same_but {c} ?ps2 ps3" using reapsE [OF pooled_kill_reaps [of ?w]] by auto
    then have "started ps ps3 {}" using started_reap [OF st] by simp
    then show ?thesis using Pair Inr st k(1) by (cases "fst (ld i)"; cases "snd (ld i)") (simp_all add: start_worker_def spawnPooledWorker_def Let_def)
  qed
qed

lemma start_workers_started:
  "fresh ps \<Longrightarrow> \<exists>rs ps1. start_workers faults ld is ps = Some (rs, ps1) \<and> started ps ps1 (cmd ` fst ` set (successes rs))"
proof (induction "is" arbitrary: ps)
  case Nil
  then show ?case by (simp add: started_refl)
next
  case (Cons i "is")
  obtain r ps1 where 1: "start_worker faults ld i ps = Some (r, ps1)" "started ps ps1 (case r of Ok (w, n) \<Rightarrow> {cmd w} | Err e \<Rightarrow> {})"
    using start_worker_started [OF Cons.prems] by blast
  then have "fresh ps1" by (simp add: started_def)
  then obtain rs ps2 where 2: "start_workers faults ld is ps1 = Some (rs, ps2)" "started ps1 ps2 (cmd ` fst ` set (successes rs))"
    using Cons.IH by blast
  have "cmd ` fst ` set (successes (r # rs)) = (case r of Ok (w, n) \<Rightarrow> {cmd w} | Err e \<Rightarrow> {}) \<union> cmd ` fst ` set (successes rs)"
    by (cases r) auto
  then show ?case using 1(1) 2(1) started_trans [OF 1(2) 2(2)] by simp
qed

section \<open>The interface of the pools\<close>

locale process_pool =
  fixes opn :: "procs \<Rightarrow> ((go_error, 'p) result \<times> procs) option"
    and close :: "(nat \<Rightarrow> bool) \<Rightarrow> 'p \<Rightarrow> procs \<Rightarrow> procs option"
    and owns :: "'p \<Rightarrow> nat set"
  assumes opens: "fresh ps \<Longrightarrow> \<exists>r ps1. opn ps = Some (r, ps1) \<and> started ps ps1 (case r of Ok p \<Rightarrow> owns p | Err e \<Rightarrow> {})"
    and closes: "\<exists>ps1. close obeys p ps = Some ps1 \<and> (\<forall>c \<in> owns p. gone ps1 c) \<and> same_but (owns p) ps ps1"
begin

text \<open>
  Opening, any use in which the other requests leave the handles of this pool alone, and closing leave none of the
  processes that were started.
\<close>

lemma no_process_left:
  assumes "fresh ps"
  shows "\<exists>r ps1. opn ps = Some (r, ps1) \<and> (\<forall>c < nextCmd ps. state_of ps1 c = state_of ps c) \<and>
     (case r of
        Err e \<Rightarrow> (\<forall>c \<ge> nextCmd ps. gone ps1 c)
      | Ok p \<Rightarrow> \<forall>obeys ps2. (\<forall>c \<in> {nextCmd ps..<nextCmd ps1} - owns p. state_of ps2 c = state_of ps1 c) \<longrightarrow>
          (\<exists>ps3. close obeys p ps2 = Some ps3 \<and> (\<forall>c \<in> {nextCmd ps..<nextCmd ps1}. gone ps3 c) \<and> (\<forall>c. c \<notin> owns p \<longrightarrow> state_of ps3 c = state_of ps2 c)))"
proof -
  obtain r ps1 where o: "opn ps = Some (r, ps1)" "started ps ps1 (case r of Ok p \<Rightarrow> owns p | Err e \<Rightarrow> {})" using opens [OF assms] by blast
  have "\<exists>ps3. close obeys p ps2 = Some ps3 \<and> (\<forall>c \<in> {nextCmd ps..<nextCmd ps1}. gone ps3 c) \<and> (\<forall>c. c \<notin> owns p \<longrightarrow> state_of ps3 c = state_of ps2 c)"
    if r: "r = Ok p" and keep: "\<forall>c \<in> {nextCmd ps..<nextCmd ps1} - owns p. state_of ps2 c = state_of ps1 c" for p obeys ps2
  proof -
    obtain ps3 where c: "close obeys p ps2 = Some ps3" "\<forall>c \<in> owns p. gone ps3 c" "same_but (owns p) ps2 ps3" using closes by blast
    have "gone ps3 c" if "c \<in> {nextCmd ps..<nextCmd ps1}" for c
      using that c(2,3) keep o(2) r by (cases "c \<in> owns p") (auto simp: same_but_def gone_def started_def)
    then show ?thesis using c(1,3) by (auto simp: same_but_def)
  qed
  then show ?thesis using o by (cases r) (auto simp: started_def)
qed

end

interpretation legacy: process_pool "open_WorkerPool faults ld poolSize" WorkerPool_Close "\<lambda>p. cmd ` set (workers p)" for faults ld poolSize
proof
  fix ps
  assume "fresh ps"
  then obtain rs ps1 where s: "start_workers faults ld [0..<poolSize] ps = Some (rs, ps1)" "started ps ps1 (cmd ` fst ` set (successes rs))"
    using start_workers_started by blast
  obtain ps2 where k: "each_worker pooled_kill (map fst (successes rs)) ps1 = Some ps2"
      "\<forall>c \<in> cmd ` fst ` set (successes rs). gone ps2 c" "same_but (cmd ` fst ` set (successes rs)) ps1 ps2"
    using each_worker_reaps [of "map fst (successes rs)" pooled_kill ps1] pooled_kill_reaps by auto
  have "started ps ps2 {}" using started_reap [OF s(2) k(2,3)] .
  then show "\<exists>r ps1. open_WorkerPool faults ld poolSize ps = Some (r, ps1) \<and> started ps ps1 (case r of Ok p \<Rightarrow> cmd ` set (workers p) | Err e \<Rightarrow> {})"
    using s k(1) by (cases "NewWorkerPool (map pages_of rs)") (simp_all add: open_WorkerPool_def)
next
  fix obeys p ps
  show "\<exists>ps1. WorkerPool_Close obeys p ps = Some ps1 \<and> (\<forall>c \<in> cmd ` set (workers p). gone ps1 c) \<and> same_but (cmd ` set (workers p)) ps ps1"
    using each_worker_reaps [of "workers p" "pooled_quit obeys" ps] pooled_quit_reaps by (simp add: WorkerPool_Close_def)
qed

interpretation forked: process_pool "open_ForkedWorkerPool f ld poolSize" ForkedWorkerPool_Close "\<lambda>p. {l_cmd (leader_of p)}" for f ld poolSize
proof
  fix ps
  assume fr: "fresh ps"
  show "\<exists>r ps1. open_ForkedWorkerPool f ld poolSize ps = Some (r, ps1) \<and> started ps ps1 (case r of Ok p \<Rightarrow> {l_cmd (leader_of p)} | Err e \<Rightarrow> {})"
  proof (cases "spawnRaw f ps")
    case (Pair r ps1)
    note sp = spawnRaw_started [OF fr Pair]
    show ?thesis
    proof (cases r)
      case (Inl e)
      then show ?thesis using sp Pair started_refl [OF fr] by (simp add: open_ForkedWorkerPool_def spawnForkedLeader_def)
    next
      case (Inr c)
      let ?l = "\<lparr>l_cmd = c, l_poolSize = poolSize\<rparr>" and ?ps2 = "if snd ld then exit_proc c ps1 else ps1"
      have st: "started ps ?ps2 {c}" using sp Inr started_exit by simp
      obtain ps3 where k: "leader_kill ?l ?ps2 = Some ps3" "gone ps3 c" "same_but {c} ?ps2 ps3" using reapsE [OF leader_kill_reaps [of ?l]] by auto
      then have "started ps ps3 {}" using started_reap [OF st] by simp
      then show ?thesis using Pair Inr st k(1) by (cases "fst ld"; cases "snd ld") (simp_all add: open_ForkedWorkerPool_def spawnForkedLeader_def Let_def)
    qed
  qed
next
  fix obeys p ps
  show "\<exists>ps1. ForkedWorkerPool_Close obeys p ps = Some ps1 \<and> (\<forall>c \<in> {l_cmd (leader_of p)}. gone ps1 c) \<and> same_but {l_cmd (leader_of p)} ps ps1"
    using leader_quit_reaps [of obeys "leader_of p"] by (simp add: ForkedWorkerPool_Close_def reaps_def)
qed

interpretation any_pool: process_pool "open_pool forked faults ld poolSize" Close owned for forked faults ld poolSize
proof
  fix ps
  assume "fresh ps"
  then obtain r ps1 r' ps1' where
      "open_WorkerPool faults ld poolSize ps = Some (r, ps1)" "started ps ps1 (case r of Ok p \<Rightarrow> cmd ` set (workers p) | Err e \<Rightarrow> {})"
      "open_ForkedWorkerPool (faults 0) (ld 0) poolSize ps = Some (r', ps1')" "started ps ps1' (case r' of Ok p \<Rightarrow> {l_cmd (leader_of p)} | Err e \<Rightarrow> {})"
    using legacy.opens [of ps faults ld poolSize] forked.opens [of ps "faults 0" "ld 0" poolSize] by blast
  then show "\<exists>r ps1. open_pool forked faults ld poolSize ps = Some (r, ps1) \<and> started ps ps1 (case r of Ok p \<Rightarrow> owned p | Err e \<Rightarrow> {})"
    by (cases forked; cases r; cases r') (simp_all add: open_pool_def)
next
  fix obeys p ps
  show "\<exists>ps1. Close obeys p ps = Some ps1 \<and> (\<forall>c \<in> owned p. gone ps1 c) \<and> same_but (owned p) ps ps1"
    using legacy.closes forked.closes by (cases p) simp_all
qed

section \<open>Properties\<close>


text \<open>The witness: two workers, of which the second one fails to load; the first one is killed and waited for.\<close>

definition no_spawn_faults :: spawn_faults where
  "no_spawn_faults = \<lparr>stdin_err = None, stdout_err = None, stderr_err = None, start_err = None\<rparr>"

definition second_fails :: load_outcome where
  "second_fails i = (if i = 1 then Err (PlainError ''load'') else Ok 3, i = 1)"


end
