(* ===== verification/Entry.thy ===== *)
theory Entry
  imports Serving Containerstats
begin

text \<open>
  The program around the handlers: the log and the request id it carries (\<^verbatim>\<open>internal/oclog/log.go\<close>), the route table
  (\<^verbatim>\<open>Handler\<close> of \<^verbatim>\<open>internal/server/server.go\<close>) and \<^verbatim>\<open>cmd/orchestrator/main.go\<close>, which wires the server and also is its
  health check. The router \<^verbatim>\<open>chi\<close> is a parameter: it picks a route of the table for a method and a path.
\<close>

section \<open>Definitions\<close>

subsection \<open>Logging\<close>

text \<open>A context is the request id bound in it, if any.\<close>

type_synonym context_id = "string option"

definition NoRequestID :: string where "NoRequestID = ''-''"

definition WithRequestID :: "context_id \<Rightarrow> string \<Rightarrow> context_id" where
  "WithRequestID ctx rid = Some rid"

definition ctx_RequestID :: "context_id \<Rightarrow> string" where
  "ctx_RequestID ctx = (case ctx of Some v \<Rightarrow> if v \<noteq> '''' then v else NoRequestID | None \<Rightarrow> NoRequestID)"

datatype slog_level = LevelDebug | LevelInfo | LevelWarn | LevelError

datatype log_handler = TextHandler slog_level | JSONHandler slog_level

definition levelMap :: "string \<rightharpoonup> slog_level" where
  "levelMap = [''debug'' \<mapsto> LevelDebug, ''info'' \<mapsto> LevelInfo, ''warn'' \<mapsto> LevelWarn, ''warning'' \<mapsto> LevelWarn, ''error'' \<mapsto> LevelError]"

definition Configure :: "string \<Rightarrow> string \<Rightarrow> log_handler" where
  "Configure format level =
     (let lvl = (case levelMap (to_lower level) of Some l \<Rightarrow> l | None \<Rightarrow> LevelInfo)
      in if format = ''human'' then TextHandler lvl else JSONHandler lvl)"

fun level_rank :: "slog_level \<Rightarrow> int" where
  "level_rank LevelDebug = -4"
| "level_rank LevelInfo = 0"
| "level_rank LevelWarn = 4"
| "level_rank LevelError = 8"

fun handler_level :: "log_handler \<Rightarrow> slog_level" where
  "handler_level (TextHandler l) = l"
| "handler_level (JSONHandler l) = l"

text \<open>The entry that \<^verbatim>\<open>EmitEvent\<close> writes with the installed handler; the order of its fields is the runtime's.\<close>

definition event_level :: "string \<Rightarrow> slog_level" where
  "event_level level =
     (let l = to_lower level
      in if l = ''debug'' then LevelDebug else if l = ''warn'' \<or> l = ''warning'' then LevelWarn
         else if l = ''error'' then LevelError else LevelInfo)"

definition EmitEvent :: "log_handler \<Rightarrow> string \<Rightarrow> string \<Rightarrow> (string \<times> json) list \<Rightarrow> (slog_level \<times> string \<times> (string \<times> json) list) option" where
  "EmitEvent h level event attrs =
     (if level_rank (handler_level h) \<le> level_rank (event_level level) then Some (event_level level, event, attrs) else None)"

subsection \<open>Routes\<close>

datatype endpoint =
    Convert | ConvertHTMLGotenberg | ConvertHTMLAspose | Health | Landing | GetHeartbeats | GetTimings | GetProgress
  | ListActiveJobs | ContainerStats | ContainerWorkers | ClearCache | ListConversions | ConversionsStats | Dashboard | Presign

definition routes :: "(string \<times> string \<times> endpoint) list" where
  "routes =
     [(''POST'', ''/v1/convert'', Convert),
      (''POST'', ''/v1/convert/html/gotenberg'', ConvertHTMLGotenberg),
      (''POST'', ''/v1/convert/html/aspose'', ConvertHTMLAspose),
      (''GET'', ''/health'', Health),
      (''GET'', ''/'', Landing),
      (''GET'', ''/v1/jobs/{request_id}/heartbeats'', GetHeartbeats),
      (''GET'', ''/v1/jobs/{request_id}/timings'', GetTimings),
      (''GET'', ''/v1/jobs/{request_id}/progress'', GetProgress),
      (''GET'', ''/v1/jobs/active'', ListActiveJobs),
      (''GET'', ''/v1/stats'', ContainerStats),
      (''GET'', ''/v1/workers'', ContainerWorkers),
      (''DELETE'', ''/v1/cache'', ClearCache),
      (''GET'', ''/v1/conversions'', ListConversions),
      (''GET'', ''/v1/conversions/stats'', ConversionsStats),
      (''GET'', ''/v1/dashboard'', Dashboard),
      (''GET'', ''/v1/downloads/presign'', Presign)]"

text \<open>
  What the runtime and the libraries add to a request: the cursor tokens, the order of the progress map, the walk of
  the cache directory, the page size and the entries of \<^verbatim>\<open>/proc\<close>.
\<close>

record Runtime =
  rt_enc :: "Cursor \<Rightarrow> string"
  rt_dec :: "string \<Rightarrow> Cursor option"
  rt_keys :: "string list"
  rt_visits :: "visit list"
  rt_pageSize :: int
  rt_proc :: "string list option"

text \<open>
  A handler behind the middleware: \<open>param\<close> is the path parameter \<^verbatim>\<open>request_id\<close>. The query values are the form values.
\<close>

definition after_middleware ::
  "Outside \<Rightarrow> Request \<Rightarrow> (string \<Rightarrow> Response \<Rightarrow> Server \<Rightarrow> (Response \<times> Server) option) \<Rightarrow> Server \<Rightarrow> (Response \<times> Server) option" where
  "after_middleware X q h srv = (let (rid, r, srv1) = requestIDMiddleware X q srv in h rid r srv1)"

fun run_endpoint :: "Outside \<Rightarrow> Runtime \<Rightarrow> endpoint \<Rightarrow> string \<Rightarrow> Request \<Rightarrow> Server \<Rightarrow> (Response \<times> Server) option" where
  "run_endpoint X rt Convert param q srv = convert X q srv"
| "run_endpoint X rt ConvertHTMLGotenberg param q srv = convertHTMLGotenberg X q srv"
| "run_endpoint X rt ConvertHTMLAspose param q srv = convertHTMLAspose X q srv"
| "run_endpoint X rt Health param q srv = after_middleware X q (\<lambda>rid r s. Some (health X r s)) srv"
| "run_endpoint X rt Landing param q srv = after_middleware X q (\<lambda>rid r s. Some (landing X r s)) srv"
| "run_endpoint X rt GetHeartbeats param q srv = after_middleware X q (\<lambda>rid r s. Some (getHeartbeats X param r s)) srv"
| "run_endpoint X rt GetTimings param q srv = after_middleware X q (\<lambda>rid r s. Some (getTimings X param r s)) srv"
| "run_endpoint X rt GetProgress param q srv = after_middleware X q (\<lambda>rid r s. Some (getProgress X param r s)) srv"
| "run_endpoint X rt ListActiveJobs param q srv = after_middleware X q (\<lambda>rid r s. Some (listActiveJobs X (rt_keys rt) r s)) srv"
| "run_endpoint X rt ContainerStats param q srv = after_middleware X q (\<lambda>rid r s. Some (containerStats X r s)) srv"
| "run_endpoint X rt ContainerWorkers param q srv = after_middleware X q (\<lambda>rid r s. containerWorkers X (rt_pageSize rt) (rt_proc rt) r s) srv"
| "run_endpoint X rt ClearCache param q srv = after_middleware X q (\<lambda>rid r s. Some (clearCache X (rt_visits rt) r s)) srv"
| "run_endpoint X rt ListConversions param q srv = after_middleware X q (\<lambda>rid r s. Some (listConversions (rt_enc rt) (rt_dec rt) (FormValue q) r s)) srv"
| "run_endpoint X rt ConversionsStats param q srv = after_middleware X q (\<lambda>rid r s. Some (conversionsStats r s)) srv"
| "run_endpoint X rt Dashboard param q srv = after_middleware X q (\<lambda>rid r s. Some (dashboard r s)) srv"
| "run_endpoint X rt Presign param q srv = after_middleware X q (\<lambda>rid r s. Some (presign X rid (FormValue q) r s)) srv"

text \<open>
  \<open>chi\<close> answers a method and a path with the route it picks and the path parameter, or with the status of an
  unknown path or method.
\<close>

type_synonym router = "(string \<times> string) list \<Rightarrow> string \<Rightarrow> string \<Rightarrow> (int, (string \<times> string) \<times> string) result"

definition Handler ::
  "router \<Rightarrow> Outside \<Rightarrow> Runtime \<Rightarrow> string \<Rightarrow> string \<Rightarrow> Request \<Rightarrow> Server \<Rightarrow> (Response \<times> Server) option" where
  "Handler chi X rt method path q srv =
     (case chi (map (\<lambda>(m, p, e). (m, p)) routes) method path of
        Err code \<Rightarrow> after_middleware X q (\<lambda>rid r s. Some (WriteHeader code r, s)) srv
      | Ok (route, param) \<Rightarrow>
          (case map_of (map (\<lambda>(m, p, e). ((m, p), e)) routes) route of
             Some e \<Rightarrow> run_endpoint X rt e param q srv
           | None \<Rightarrow> None))"

subsection \<open>The command\<close>

definition port_of :: "(string \<rightharpoonup> string) \<Rightarrow> string" where
  "port_of env = (case env ''OFFICE_CONVERT_PORT'' of Some p \<Rightarrow> if p = '''' then ''8080'' else p | None \<Rightarrow> ''8080'')"

definition healthcheckURL :: "(string \<rightharpoonup> string) \<Rightarrow> string" where
  "healthcheckURL env = ''http://localhost:'' @ port_of env @ ''/health''"

text \<open>\<open>get\<close> is \<^verbatim>\<open>client.Get\<close>: an error (a refused connection, the timeout) or a status code.\<close>

definition healthcheck :: "(string \<Rightarrow> (string, int) result) \<Rightarrow> string \<Rightarrow> int" where
  "healthcheck get url = (case get url of Err e \<Rightarrow> 1 | Ok code \<Rightarrow> if code = 200 then 0 else 1)"

text \<open>The process ends with an exit code, or it listens on an address with a server.\<close>

datatype outcome = Exit int | Listen string Server | Crash string

record Machine =
  mc_env :: "string \<rightharpoonup> string"
  mc_quote :: "string \<Rightarrow> string"
  mc_os :: os_faults
  mc_qpdf :: bool
  mc_world :: World
  mc_dash :: string
  mc_land :: string

definition main :: "Machine \<Rightarrow> (string \<Rightarrow> (string, int) result) \<Rightarrow> string list \<Rightarrow> outcome" where
  "main M get args =
     (if length args > 1 \<and> args ! 1 = ''healthcheck'' then Exit (healthcheck get (healthcheckURL (mc_env M)))
      else
        (case Config.Load (mc_quote M) (mc_env M) of
           Err e \<Rightarrow> Exit 1
         | Ok s \<Rightarrow>
             (case NewManager (mc_os M) (CacheDir s) (AsposeVersion s) of
                Err e \<Rightarrow> Exit 1
              | Ok c \<Rightarrow>
                  (let w = (mc_world M)\<lparr>stores := \<lparr>Heartbeats = HeartbeatStore, Timings = TimingStore, Progress = NewJobProgressStore\<rparr>\<rparr>;
                       lic = NewHealth (mc_qpdf M) (mc_os M) s license_NewManager (fsys (mc_world M))
                   in case Server_New s lic c (NewRecentStore DefaultMaxRecent) (mc_dash M) (mc_land M) w of
                        Err e \<Rightarrow> Crash ''ratelimit''
                      | Ok srv \<Rightarrow> Listen ('':'' @ port_of (mc_env M)) srv))))"

text \<open>What \<^verbatim>\<open>main\<close> does when \<^verbatim>\<open>ListenAndServe\<close> returns: a shutdown is no failure.\<close>

definition after_listen :: "string \<Rightarrow> int" where
  "after_listen err = (if err = '''' \<or> err = ''http: Server closed'' then 0 else 1)"

section \<open>Lemmas\<close>

text \<open>No two routes have the same method and pattern, so the table names one handler each.\<close>

lemma routes_distinct: "distinct (map (\<lambda>(m, p, e). (m, p)) routes) \<and> distinct (map (\<lambda>(m, p, e). e) routes)"
  by (simp add: routes_def)

lemma request_id_carried: "rid \<noteq> '''' \<Longrightarrow> ctx_RequestID (WithRequestID ctx rid) = rid"
  by (simp add: ctx_RequestID_def WithRequestID_def)

lemma health_route:
  "chi (map (\<lambda>(m, p, e). (m, p)) routes) ''GET'' ''/health'' = Ok ((''GET'', ''/health''), param) \<Longrightarrow>
   Handler chi X rt ''GET'' ''/health'' q srv = after_middleware X q (\<lambda>rid r s. Some (health X r s)) srv"
  by (simp add: Handler_def routes_def)

lemma health_status:
  assumes "r_sent r = None"
    and "IsExpired (env_oor (o_env X)) (o_xml X) (time_now X srv) (o_disk X (ticks (world srv))) (licenseMgr (license srv)) = (gate, m)"
  shows "map_option fst (r_sent (fst (health X r srv))) = Some (if staticProblems (license srv) = [] \<and> gate = Ok False then 200 else 503)"
proof -
  obtain resp srv' where h: "health X r srv = (resp, srv')" by fastforce
  from health_agrees_with_gate [OF h assms] h show ?thesis by (cases "gate = Ok False") auto
qed

section \<open>Properties\<close>

text \<open>
  C25: The program does not start in a bad state. \<^verbatim>\<open>main\<close> never panics, whatever the environment; it exits with 1 for a
  configuration that \<^verbatim>\<open>Load\<close> refuses and for a cache directory it cannot make. A server that listens, listens on the
  configured port, has all its settings within their documented ranges, no job running and a free slot for each of the
  \<^verbatim>\<open>MAX_JOBS\<close>, an empty history, and a rate limiter exactly if it is enabled.
\<close>

theorem startup_safe:
  assumes "\<not> (length args > 1 \<and> args ! 1 = ''healthcheck'')"
  shows "case main M get args of
      Crash msg \<Rightarrow> False
    | Exit code \<Rightarrow> code = 1 \<and> (\<forall>s c. Config.Load (mc_quote M) (mc_env M) = Ok s \<longrightarrow> NewManager (mc_os M) (CacheDir s) (AsposeVersion s) \<noteq> Ok c)
    | Listen addr srv \<Rightarrow>
        addr = '':'' @ port_of (mc_env M) \<and> Config.Load (mc_quote M) (mc_env M) = Ok (settings srv) \<and> settings_in_range (settings srv) \<and>
        slots_inv (settings srv) (srv, []) \<and> Snapshot (recent srv) = [] \<and> (rl srv \<noteq> None \<longleftrightarrow> RateLimitEnabled (settings srv))"
proof -
  have ranges: "settings_in_range s" if "Config.Load (mc_quote M) (mc_env M) = Ok s" for s
    using that settings_ranges by (auto simp: Load_Ok)
  have limiter: "\<exists>l. ratelimit_New (RateLimitPerIPRPM s) (RateLimitBurst s) (RateLimitMaxKeys s) = Ok l" if "settings_in_range s" for s
    using that by (simp add: settings_in_range_def ratelimit_New_def)
  show ?thesis
  proof (cases "Config.Load (mc_quote M) (mc_env M)")
    case (Inl e)
    then show ?thesis using assms by (auto simp: main_def)
  next
    case (Inr s)
    note load = Inr
    obtain l where l: "ratelimit_New (RateLimitPerIPRPM s) (RateLimitBurst s) (RateLimitMaxKeys s) = Ok l" using limiter [OF ranges [OF Inr]] by blast
    show ?thesis
    proof (cases "NewManager (mc_os M) (CacheDir s) (AsposeVersion s)")
      case (Inl e)
      then show ?thesis using assms load by (auto simp: main_def)
    next
      case (Inr c)
      then show ?thesis using assms load l ranges [OF load]
        by (auto simp: main_def Let_def Server_New_def slots_inv_def Snapshot_def NewRecentStore_def settings_in_range_def)
    qed
  qed
qed

text \<open>The witness: with an empty environment the server listens on port 8080.\<close>

definition demo_machine :: Machine where
  "demo_machine = \<lparr>mc_env = Map.empty, mc_quote = id, mc_os = no_faults, mc_qpdf = True, mc_world = demo_world, mc_dash = '''', mc_land = ''''\<rparr>"

lemma demo_listens: "\<exists>srv. main demo_machine (\<lambda>_. Err []) [''orchestrator''] = Listen '':8080'' srv"
proof -
  have load: "Config.Load id Map.empty = Ok (settings_of id Map.empty)"
    by (simp add: Load_Ok config_errors_def int_fail_def envInt64_def envPrefix_def fail_def oneOf_def envStr_def)
  have cache: "\<exists>c. NewManager no_faults (CacheDir s) (AsposeVersion s) = Ok c" for s by (simp add: NewManager_def no_faults_def Let_def)
  have "settings_in_range (settings_of id Map.empty)" using load settings_ranges by (simp add: Load_Ok)
  then have "\<exists>l. ratelimit_New (RateLimitPerIPRPM s) (RateLimitBurst s) (RateLimitMaxKeys s) = Ok l" if "s = settings_of id Map.empty" for s
    using that by (simp add: settings_in_range_def ratelimit_New_def)
  then show ?thesis using load cache [of "settings_of id Map.empty"]
    by (auto simp: main_def demo_machine_def port_of_def Let_def Server_New_def)
qed

theorem startup_safe_witness:
  "\<exists>srv. main demo_machine (\<lambda>_. Err []) [''orchestrator''] = Listen '':8080'' srv \<and> settings_in_range (settings srv) \<and> sem srv = 0"
proof -
  obtain srv where "main demo_machine (\<lambda>_. Err []) [''orchestrator''] = Listen '':8080'' srv" using demo_listens by blast
  then show ?thesis using startup_safe [of "[''orchestrator'']" demo_machine "\<lambda>_. Err []"] by (auto simp: slots_inv_def)
qed

text \<open>
  C24: The container's health check tells the truth. \<^verbatim>\<open>orchestrator healthcheck\<close> asks the port the server listens on and exits with 0
  exactly if the server found its binaries, qpdf and its scratch directory at the start and the license check lets
  conversions through at that moment; otherwise, and when the server does not answer, it exits with 1. (The router
  finds the static route \<^verbatim>\<open>/health\<close>; the client is handed the status the handler sent.)
\<close>

theorem healthcheck_tells_readiness:
  assumes "chi (map (\<lambda>(m, p, e). (m, p)) routes) ''GET'' ''/health'' = Ok ((''GET'', ''/health''), param)"
    and "Handler chi X rt ''GET'' ''/health'' q srv = Some (resp, srv')"
    and "get (''http://localhost'' @ addr @ ''/health'') = Ok (case r_sent resp of Some (code, h) \<Rightarrow> code | None \<Rightarrow> 200)"
    and "IsExpired (env_oor (o_env X)) (o_xml X) (time_now X (tick srv)) (o_disk X (ticks (world (tick srv)))) (licenseMgr (license srv)) = (gate, m)"
    and "main M get0 [prog] = Listen addr srv0"
  shows "main M get [prog, ''healthcheck''] = Exit (if staticProblems (license srv) = [] \<and> gate = Ok False then 0 else 1) \<and>
    (\<forall>down e. down (''http://localhost'' @ addr @ ''/health'') = Err e \<longrightarrow> main M down [prog, ''healthcheck''] = Exit 1)"
proof -
  have "addr = '':'' @ port_of (mc_env M)" using assms(5) by (auto simp: main_def Let_def split: sum.splits)
  then have url: "healthcheckURL (mc_env M) = ''http://localhost'' @ addr @ ''/health''" by (simp add: healthcheckURL_def)
  have l: "license (tick srv) = license srv" by (simp add: tick_def)
  obtain rid r where mw: "requestIDMiddleware X q srv = (rid, r, tick srv)" "r_sent r = None"
    by (auto simp: requestIDMiddleware_def Let_def set_header_def new_response_def)
  have "resp = fst (health X r (tick srv))" using assms(2) mw(1) by (simp add: health_route [of chi param, OF assms(1)] after_middleware_def)
  then have "map_option fst (r_sent resp) = Some (if staticProblems (license srv) = [] \<and> gate = Ok False then 200 else 503)"
    using health_status [OF mw(2), of X "tick srv" gate m] assms(4) l by simp
  then have "get (healthcheckURL (mc_env M)) = Ok (if staticProblems (license srv) = [] \<and> gate = Ok False then 200 else 503)"
    unfolding url assms(3) by (auto split: option.splits)
  then show ?thesis by (auto simp: main_def healthcheck_def url)
qed

text \<open>The witness: the demonstration server, whose license never expires.\<close>

definition demo_chi :: router where
  "demo_chi rts method path = (if (method, path) \<in> set rts then Ok ((method, path), '''') else Err 404)"

definition demo_runtime :: Runtime where
  "demo_runtime = \<lparr>rt_enc = (\<lambda>_. []), rt_dec = (\<lambda>_. None), rt_keys = [], rt_visits = [], rt_pageSize = 4096, rt_proc = None\<rparr>"

theorem healthcheck_tells_readiness_witness:
  "\<exists>resp srv'. Handler demo_chi demo_outside demo_runtime ''GET'' ''/health'' (demo_request ''r'') (demo_server Map.empty) = Some (resp, srv') \<and>
     main demo_machine (\<lambda>_. Ok (case r_sent resp of Some (code, h) \<Rightarrow> code | None \<Rightarrow> 200)) [''orchestrator'', ''healthcheck''] = Exit 0"
proof -
  define srv where "srv = demo_server Map.empty"
  obtain srv0 where up: "main demo_machine (\<lambda>_. Err []) [''orchestrator''] = Listen '':8080'' srv0" using demo_listens by blast
  have chi: "demo_chi (map (\<lambda>(m, p, e). (m, p)) routes) ''GET'' ''/health'' = Ok ((''GET'', ''/health''), [])"
    by (simp add: demo_chi_def routes_def)
  have lic: "licenseMgr (license srv) = license_NewManager" "staticProblems (license srv) = []" by (simp_all add: srv_def demo_server_def)
  obtain resp srv' where run: "Handler demo_chi demo_outside demo_runtime ''GET'' ''/health'' (demo_request ''r'') srv = Some (resp, srv')"
  proof -
    have "\<exists>p. Handler demo_chi demo_outside demo_runtime ''GET'' ''/health'' (demo_request ''r'') srv = Some p"
      unfolding health_route [of demo_chi "[]", OF chi] by (simp add: after_middleware_def split: prod.split)
    then show ?thesis using that by auto
  qed
  from healthcheck_tells_readiness [of demo_chi "[]", OF chi run _ _ up] lic run show ?thesis
    unfolding srv_def [symmetric] by (auto simp: demo_license)
qed

end
