(* ===== verification/Spec2Isabelle.thy ===== *)
theory Spec2Isabelle
  imports Go_Float Prelude Types Errors Config Planner Obs Tokens Fs Cache Qpdf Worker RenderAll Probe Pool Orchestrator Retry Pipeline Ratelimit S3 License Csvinput Converters Http Waits Server Convert ConvertHtml Serving EndToEnd Containerstats Netpolicy Lifecycle Entry
begin

text \<open>
  The office-convert orchestrator: an HTTP service in Go that converts office documents to PDF by
  splitting them into page ranges, rendering the ranges in separate worker processes and merging the
  results with \<^verbatim>\<open>qpdf\<close>. Paths below are under \<^verbatim>\<open>src/internal\<close>.

  \<^bold>\<open>The program and its model.\<close> A conversion (\<^verbatim>\<open>orchestrator/orchestrator.go\<close>, \<open>ConvertJob\<close>) hashes the
  input and looks for a finished result in the cache; otherwise it probes the document for its page
  count, plans chunks, renders them one process per chunk (with subdivision when a worker runs out of
  memory) or with a pool of long-lived workers, merges the chunk files in order into the response and
  keeps a copy in the cache. The theories follow the packages.

    \<^item> \<open>Go_Float\<close>, \<open>Prelude\<close>: float64 arithmetic as rationals with one rounding per operation, the
      conversions to integers, \<^verbatim>\<open>strings\<close> and \<^verbatim>\<open>strconv\<close> on byte lists, the JSON values, results as sums.
      The laws of rounding are the locale \<open>float_rounding\<close>, interpreted on binary64.
    \<^item> \<open>Types\<close>, \<open>Errors\<close>, \<open>Config\<close>: \<^verbatim>\<open>types/types.go\<close>, \<^verbatim>\<open>oerrors/errors.go\<close>, \<^verbatim>\<open>config/config.go\<close>.
      The settings that load lie in their ranges.
    \<^item> \<open>Planner\<close>: \<^verbatim>\<open>planner/planner.go\<close>. A plan covers the document exactly once and in order, respects its
      limits, and the greedy split is the uniform one.
    \<^item> \<open>Obs\<close>: \<^verbatim>\<open>obs/ring.go\<close>, \<^verbatim>\<open>obs/progress.go\<close>, \<^verbatim>\<open>obs/recent.go\<close>. Bounded rings, progress that does
      not regress, pagination that reaches every record (and the order of records it depends on).
    \<^item> \<open>Fs\<close>: files, faults and intermediate states of file operations, paths, processes, writers.
    \<^item> \<open>Cache\<close>: \<^verbatim>\<open>cache/cache.go\<close>. Writes are atomic in every intermediate state; each layer is a map
      (the locale \<open>content_store\<close> and its interpretations).
    \<^item> \<open>Qpdf\<close>: \<^verbatim>\<open>qpdf/qpdf.go\<close>. The streaming merge delivers everything or fails, and can hang.
    \<^item> \<open>Worker\<close>, \<open>Pool\<close>: \<^verbatim>\<open>worker/worker.go\<close>, \<^verbatim>\<open>worker/pool.go\<close>. Exit codes and protocol errors agree;
      the forked leader with its reader goroutine and its callers is a step relation (\<open>leader_step\<close>) whose
      invariant gives the routing of responses; the legacy worker is \<open>legacy_step\<close>.
    \<^item> \<open>Probe\<close>: \<^verbatim>\<open>probe/probe.go\<close>, \<^verbatim>\<open>probe/probe_lite.go\<close>. Format detection and page counts.
    \<^item> \<open>RenderAll\<close>: the bounded goroutines of \<^verbatim>\<open>renderAll\<close> as a step relation (\<open>ra_step\<close>) and as a function
      of the completion order (\<open>renderAll\<close>), with the refinement between them and rules for the clients.
    \<^item> \<open>Orchestrator\<close>: the rest of \<^verbatim>\<open>orchestrator/orchestrator.go\<close> over the records \<open>World\<close>, \<open>Env\<close> and
      \<open>Job\<close>. \<open>Retry\<close> and \<open>Pipeline\<close> prove what a chunk, a plan and a whole conversion leave behind, for
      workers and a \<^verbatim>\<open>qpdf\<close> that satisfy \<open>worker_spec\<close>, \<open>pool_spec\<close> and \<open>qpdf_spec\<close> over an arbitrary
      reading of file contents as page lists; an example environment shows that the specifications can
      be met.
    \<^item> \<open>Ratelimit\<close>: \<^verbatim>\<open>ratelimit/ratelimit.go\<close>. The bounds of a run, the rate, and that the announced
      waiting time is enough.
    \<^item> \<open>S3\<close>: \<^verbatim>\<open>s3/s3.go\<close>, \<^verbatim>\<open>s3/aws.go\<close> over a parameter for the AWS SDK; no call outside the allowlists.
    \<^item> \<open>License\<close>: \<^verbatim>\<open>license/license.go\<close>. The calendar, the date formats, the earliest date, the cache of
      the parsed date.
    \<^item> \<open>Csvinput\<close>: \<^verbatim>\<open>csvinput/csvinput.go\<close>. The CSV reader, the sheet and its package; the workbook is
      recognised as such and no cell escapes its element.
    \<^item> \<open>Converters\<close>: \<^verbatim>\<open>email/email.go\<close>, \<^verbatim>\<open>libreoffice/libreoffice.go\<close>, \<^verbatim>\<open>gotenberg/gotenberg.go\<close>. The file
      converters' promise is the locale \<open>pdf_converter\<close>; the classification of Gotenberg's answers.
    \<^item> \<open>Http\<close>, \<open>Waits\<close>, \<open>Server\<close>, \<open>Convert\<close>, \<open>ConvertHtml\<close>: \<^verbatim>\<open>server/server.go\<close>, \<^verbatim>\<open>server/health.go\<close>,
      \<^verbatim>\<open>server/convert.go\<close>, \<^verbatim>\<open>server/convert_html.go\<close>. Responses, the writer with the deferred status (an
      instance of the locale \<open>byte_sink\<close>), uploads, wait controls with \<^verbatim>\<open>time.ParseDuration\<close>, the statistics,
      and the handlers over the records \<open>Server\<close>, \<open>Request\<close> and \<open>Outside\<close>.
    \<^item> \<open>Serving\<close>: requests in every interleaving (\<open>srv_step\<close>) and the slots of the semaphore; the answer and
      the record of a stream; the scratch directory and the request id that names it.
    \<^item> \<open>EndToEnd\<close>: the handler and the pipeline together, from the uploaded blocks to the pages the client gets.
    \<^item> \<open>Containerstats\<close>: \<^verbatim>\<open>containerstats/containerstats.go\<close> and its two endpoints. The cgroup counters and the listing
      of worker processes, which is complete and sorted whatever the order of \<^verbatim>\<open>/proc\<close>.
    \<^item> \<open>Netpolicy\<close>: \<^verbatim>\<open>netpolicy/netpolicy.go\<close>. \<^verbatim>\<open>Denied\<close> over \<^verbatim>\<open>net/url\<close> and \<^verbatim>\<open>netip\<close>, the deny list as a regular
      expression with a matcher by derivatives (correct for the inductive meaning \<open>matches\<close>), where the two
      agree and where they do not.
    \<^item> \<open>Lifecycle\<close>: the processes behind both pools of \<^verbatim>\<open>worker/pool.go\<close>, from their start to \<^verbatim>\<open>Close\<close>. The interface
      \<^verbatim>\<open>worker.Pool\<close> is the locale \<open>process_pool\<close>, interpreted for both pools; no process is leaked.
    \<^item> \<open>Entry\<close>: \<^verbatim>\<open>oclog/log.go\<close>, the route table \<^verbatim>\<open>Handler\<close> of \<^verbatim>\<open>server/server.go\<close> and \<^verbatim>\<open>cmd/orchestrator/main.go\<close>. What a
      start of the program can end in, and the health check of the container over the whole server.
    \<^item> \<open>Tokens\<close>: the cursor tokens of \<^verbatim>\<open>obs/recent.go\<close>, with URL-safe base64, the JSON of a cursor and the shortest
      decimal form of a float64. \<^verbatim>\<open>DecodeCursor\<close> reads back what \<^verbatim>\<open>Encode\<close> wrote, so the walk over the pages of
      \<open>Obs\<close> is complete with the tokens the clients see.

  \<^bold>\<open>Concurrency and failure.\<close> Where goroutines share state the model is an inductive step relation and
  the properties hold for every interleaving (\<open>RenderAll\<close>, \<open>Pool\<close>); where a mutex is held for the
  whole operation a run is a sequence of operations (\<open>Obs\<close>, \<open>Ratelimit\<close>, \<open>License\<close>). A file operation
  yields every state it passes through, so that the cache properties also speak about crashes. A call
  that never returns is \<open>None\<close>, and the properties about conversions state that they return.

  \<^bold>\<open>Bounds.\<close> The exponent of a float64 is unbounded in the model. Chunk indices are exact in the model up to
  a million chunks, the bound of the pipeline theorems on the number of pages. Loops are recursive functions
  with termination proofs; no fuel is used. The example environment of \<open>Pipeline\<close> represents a rendered page
  range as a byte per page, so its documents have at most 255 pages.

  \<^bold>\<open>Not modelled.\<close> Log events (\<^verbatim>\<open>oclog/log.go\<close>) have no effect on the results. The router \<^verbatim>\<open>chi\<close> is a
  parameter; the listener and the goroutine that waits for a signal (\<^verbatim>\<open>cmd/orchestrator\<close>) stay outside. A write error
  of the temporary copy for S3 and the JSON text of the responses are not modelled (that of the cursors is). A request
  context cancelled from outside is modelled for \<^verbatim>\<open>renderAll\<close> only. The zip, XML and JSON readers, the hash
  function, the programs \<^verbatim>\<open>qpdf\<close>, \<^verbatim>\<open>soffice\<close> and the workers, the AWS SDK and the Gotenberg service are
  parameters.
\<close>

end
